(* ===== verification/Prelude.thy ===== *)
theory Prelude
  imports Main
begin

text \<open>
  What every component shares: the ways a C routine can fail to return (\<open>stop\<close>), results that
  are either such a stop or a value, sequencing of results (\<open>bind_res\<close>), and the generic list
  lemmas the component proofs use. The collection \<open>res_simps\<close> holds the rules that evaluate or
  invert a sequence of results.
\<close>

named_theorems res_simps "evaluation and inversion of sequenced results"
named_theorems mem_simps "loads, stores, allocation and release on a heap"

section \<open>Results\<close>

text \<open>
  The four semaphores of \<open>mypthread.c\<close> are named here, because waiting on one is a way not to
  return.
\<close>

datatype sem_name = Mypthread_sem | Mutex_sem | Kthread_sem | Cond_sem

text \<open>
  \<open>NullDeref\<close>: a NULL pointer is dereferenced. \<open>Dangling\<close>: memory that is not allocated (any
  more) is read, written or freed. \<open>Diverges\<close>: a loop goes on for ever. \<open>BadContext\<close>: a machine
  context that was never filled is made or switched to. \<open>SemBlocked\<close>: the caller sleeps in
  \<open>sem_wait\<close>. \<open>SysBlocked\<close>: the caller sleeps in a system call for ever. \<open>BufferOverflow\<close>: an
  access past the end of an array. \<open>Undefined\<close>: a call that the documentation of the routine called
  leaves undefined. \<open>ExitProcess\<close>: \<open>exit\<close> is called with this status.
\<close>

datatype stop =
    NullDeref
  | Dangling
  | Diverges
  | BadContext
  | SemBlocked sem_name
  | SysBlocked
  | BufferOverflow
  | Undefined
  | ExitProcess int

type_synonym 'a res = "stop + 'a"

fun bind_res :: "'a res \<Rightarrow> ('a \<Rightarrow> 'b res) \<Rightarrow> 'b res" where
  "bind_res (Inl e) f = Inl e"
| "bind_res (Inr x) f = f x"

lemma bind_res_Inr_iff [res_simps]:
  "bind_res m f = Inr y \<longleftrightarrow> (\<exists>x. m = Inr x \<and> f x = Inr y)"
  by (cases m) auto

lemma bind_res_assoc:
  "bind_res (bind_res m f) g = bind_res m (\<lambda>x. bind_res (f x) g)"
  by (cases m) auto

lemma bind_res_InrE:
  assumes "bind_res m f = Inr y"
  obtains x where "m = Inr x" and "f x = Inr y"
  using assms by (cases m) auto

lemma bind_res_cong [fundef_cong]:
  assumes "m = m'" and "\<And>x. m' = Inr x \<Longrightarrow> f x = g x"
  shows "bind_res m f = bind_res m' g"
  using assms by (cases m') auto

definition is_ok :: "'a res \<Rightarrow> bool" where
  "is_ok r = (case r of Inl _ \<Rightarrow> False | Inr _ \<Rightarrow> True)"

lemma is_ok_simps [simp]: "is_ok (Inr x)" "\<not> is_ok (Inl e)"
  by (simp_all add: is_ok_def)

lemma is_ok_iff: "is_ok r \<longleftrightarrow> (\<exists>x. r = Inr x)"
  by (cases r) auto

section \<open>Lists\<close>

text \<open>The first element that satisfies a predicate, split off with what surrounds it.\<close>

fun split_first :: "('a \<Rightarrow> bool) \<Rightarrow> 'a list \<Rightarrow> ('a list \<times> 'a \<times> 'a list) option" where
  "split_first P [] = None"
| "split_first P (x # xs) =
     (if P x then Some ([], x, xs)
      else (case split_first P xs of
              None \<Rightarrow> None
            | Some (as, y, bs) \<Rightarrow> Some (x # as, y, bs)))"

lemma split_first_None: "split_first P xs = None \<longleftrightarrow> (\<forall>x\<in>set xs. \<not> P x)"
  by (induction xs) (auto split: option.splits)

lemma split_first_Some:
  "split_first P xs = Some (as, y, bs) \<longleftrightarrow>
     xs = as @ y # bs \<and> P y \<and> (\<forall>x\<in>set as. \<not> P x)"
proof (induction xs arbitrary: as)
  case Nil
  then show ?case by simp
next
  case (Cons x xs)
  show ?case
  proof (cases "P x")
    case True
    then show ?thesis by (cases as) auto
  next
    case False
    show ?thesis
    proof (cases as)
      case Nil
      with False show ?thesis by (auto split: option.splits)
    next
      case (Cons a as')
      with False Cons.IH [of as'] show ?thesis by (auto split: option.splits)
    qed
  qed
qed

lemma find_map: "find P (map f xs) = map_option f (find (\<lambda>x. P (f x)) xs)"
  by (induction xs) auto

lemma distinct_length_bound:
  assumes "distinct xs" and "set xs \<subseteq> {..<n}"
  shows "length xs \<le> n"
proof -
  have "length xs = card (set xs)" using assms(1) by (simp add: distinct_card)
  also have "\<dots> \<le> card {..<n}" using assms(2) by (rule card_mono [rotated]) simp
  finally show ?thesis by simp
qed

end
