(* ===== verification/C_Memory.thy ===== *)
theory C_Memory
  imports Prelude
begin

text \<open>
  The part of C's memory the program uses: cells of one type that \<open>malloc\<close> hands out and \<open>free\<close>
  takes back. A pointer is \<open>None\<close> (NULL) or an address; addresses are never handed out twice, so
  a pointer to a released cell stays recognisable, and every use of one is the stop \<open>Dangling\<close>.
  \<open>room\<close> is the number of cells \<open>malloc\<close> can still give before it returns NULL.
\<close>

type_synonym ptr = "nat option"

record 'v heap =
  cells :: "nat \<rightharpoonup> 'v"
  fresh :: nat
  room :: nat

definition load :: "'v heap \<Rightarrow> ptr \<Rightarrow> 'v res" where
  "load h p = (case p of
       None \<Rightarrow> Inl NullDeref
     | Some a \<Rightarrow> (case cells h a of None \<Rightarrow> Inl Dangling | Some v \<Rightarrow> Inr v))"

definition store :: "'v heap \<Rightarrow> ptr \<Rightarrow> 'v \<Rightarrow> ('v heap) res" where
  "store h p v = bind_res (load h p) (\<lambda>_. Inr (h\<lparr>cells := (cells h)(the p \<mapsto> v)\<rparr>))"

text \<open>\<open>p->field = ...\<close>: one field of the cell changes, the others keep their values.\<close>

definition modify :: "'v heap \<Rightarrow> ptr \<Rightarrow> ('v \<Rightarrow> 'v) \<Rightarrow> ('v heap) res" where
  "modify h p f = bind_res (load h p) (\<lambda>v. Inr (h\<lparr>cells := (cells h)(the p \<mapsto> f v)\<rparr>))"

text \<open>\<open>malloc\<close>, with the cell's contents once its caller has filled it; NULL when no room is left.\<close>

definition malloc :: "'v heap \<Rightarrow> 'v \<Rightarrow> ptr \<times> 'v heap" where
  "malloc h v =
     (if room h = 0 then (None, h)
      else (Some (fresh h),
            h\<lparr>cells := (cells h)(fresh h \<mapsto> v), fresh := Suc (fresh h), room := room h - 1\<rparr>))"

definition free_cell :: "'v heap \<Rightarrow> ptr \<Rightarrow> ('v heap) res" where
  "free_cell h p = (case p of
       None \<Rightarrow> Inr h
     | Some a \<Rightarrow> (case cells h a of
           None \<Rightarrow> Inl Dangling
         | Some _ \<Rightarrow> Inr (h\<lparr>cells := (cells h)(a := None), room := Suc (room h)\<rparr>)))"

text \<open>Allocated addresses lie below the next fresh one.\<close>

definition heap_ok :: "'v heap \<Rightarrow> bool" where
  "heap_ok h \<longleftrightarrow> dom (cells h) \<subseteq> {..<fresh h}"

lemma load_simps [simp, mem_simps]:
  "load h None = Inl NullDeref"
  "cells h a = None \<Longrightarrow> load h (Some a) = Inl Dangling"
  "cells h a = Some v \<Longrightarrow> load h (Some a) = Inr v"
  by (simp_all add: load_def)

lemma load_Inr_iff [mem_simps]: "load h p = Inr v \<longleftrightarrow> (\<exists>a. p = Some a \<and> cells h a = Some v)"
  by (auto simp: load_def split: option.splits)

lemma modify_simps [simp, mem_simps]:
  "modify h None f = Inl NullDeref"
  "cells h a = None \<Longrightarrow> modify h (Some a) f = Inl Dangling"
  "cells h a = Some v \<Longrightarrow> modify h (Some a) f = Inr (h\<lparr>cells := (cells h)(a \<mapsto> f v)\<rparr>)"
  by (simp_all add: modify_def)

lemma free_cell_simps [simp, mem_simps]:
  "free_cell h None = Inr h"
  "cells h a = None \<Longrightarrow> free_cell h (Some a) = Inl Dangling"
  "cells h a = Some v \<Longrightarrow>
     free_cell h (Some a) = Inr (h\<lparr>cells := (cells h)(a := None), room := Suc (room h)\<rparr>)"
  by (simp_all add: free_cell_def)

lemma malloc_room [mem_simps]:
  "0 < room h \<Longrightarrow> malloc h v =
     (Some (fresh h),
      h\<lparr>cells := (cells h)(fresh h \<mapsto> v), fresh := Suc (fresh h), room := room h - 1\<rparr>)"
  "room h = 0 \<Longrightarrow> malloc h v = (None, h)"
  by (simp_all add: malloc_def)

lemma heap_ok_iff: "heap_ok h \<longleftrightarrow> (\<forall>a v. cells h a = Some v \<longrightarrow> a < fresh h)"
  by (auto simp: heap_ok_def)

lemma heap_ok_less: "heap_ok h \<Longrightarrow> cells h a = Some v \<Longrightarrow> a < fresh h"
  by (simp add: heap_ok_iff)

lemma heap_ok_fresh [simp]: "heap_ok h \<Longrightarrow> cells h (fresh h) = None"
  by (cases "cells h (fresh h)") (auto dest: heap_ok_less)

lemma heap_ok_malloc: "heap_ok h \<Longrightarrow> malloc h v = (p, h') \<Longrightarrow> heap_ok h'"
  by (auto simp: heap_ok_iff malloc_def less_Suc_eq split: if_splits)

lemma heap_ok_modify: "heap_ok h \<Longrightarrow> modify h p f = Inr h' \<Longrightarrow> heap_ok h'"
  by (auto simp: heap_ok_iff modify_def res_simps mem_simps split: if_splits)

lemma heap_ok_free: "heap_ok h \<Longrightarrow> free_cell h p = Inr h' \<Longrightarrow> heap_ok h'"
  by (auto simp: heap_ok_iff free_cell_def split: option.splits if_splits)

lemma modify_frame:
  "modify h p f = Inr h' \<Longrightarrow> fresh h' = fresh h \<and> room h' = room h \<and> dom (cells h') = dom (cells h)"
  by (auto simp: modify_def res_simps mem_simps split: if_splits)

lemma restrict_map_UNIV [simp]: "m |` UNIV = m"
  by (simp add: restrict_map_def)

end
