(* ===== verification/Mypthread_Types.thy ===== *)
theory Mypthread_Types
  imports C_Memory
begin

text \<open>
  The data of \<open>pthreads/mypthread.h\<close> and \<open>pthreads/queue_util.h\<close>: the states of a user thread,
  the thread control block, the record of a kernel thread, the nodes of the two linked lists,
  the mutex and the condition variable, and the creation policies. The C type \<open>int\<close> is \<open>int\<close>;
  the numbers kept in it here (thread ids, counters, policy codes) stay small.
\<close>

datatype mypthread_state = PS_ACTIVE | PS_RUNNING | PS_WAITING | PS_BLOCKED | PS_DEAD

record mypthread_t =
  th_id :: int
  th_ctx :: ptr
  th_state :: mypthread_state
  dependent_th :: int

record mykthread_t =
  kth_id :: int
  kth_th :: ptr

record mypthread_queue_node =
  q_prev :: ptr
  q_th :: ptr
  q_next :: ptr

record mykthread_ll_node =
  k_prev :: ptr
  k_kth :: ptr
  k_next :: ptr

record mypthread_mutex_t =
  mtx_lock :: bool
  blocked_q_head :: ptr
  blocked_q_tail :: ptr

record mypthread_cond_t =
  cond_q_head :: ptr
  cond_q_tail :: ptr

definition ULONLY :: int where "ULONLY = 0"

definition KLMATCHCORES :: int where "KLMATCHCORES = 1"

definition KLMATCHHYPER :: int where "KLMATCHHYPER = 2"

definition KLALWAYS :: int where "KLALWAYS = 3"

lemmas policy_defs = ULONLY_def KLMATCHCORES_def KLMATCHHYPER_def KLALWAYS_def

text \<open>The thread control blocks live in the callers' memory: a store from addresses.\<close>

type_synonym tstore = "nat \<rightharpoonup> mypthread_t"

definition load_th :: "tstore \<Rightarrow> ptr \<Rightarrow> mypthread_t res" where
  "load_th T p = (case p of
       None \<Rightarrow> Inl NullDeref
     | Some a \<Rightarrow> (case T a of None \<Rightarrow> Inl Dangling | Some t \<Rightarrow> Inr t))"

definition modify_th :: "tstore \<Rightarrow> ptr \<Rightarrow> (mypthread_t \<Rightarrow> mypthread_t) \<Rightarrow> tstore res" where
  "modify_th T p f = bind_res (load_th T p) (\<lambda>t. Inr (T(the p \<mapsto> f t)))"

lemma load_th_simps [simp, mem_simps]:
  "load_th T None = Inl NullDeref"
  "T a = None \<Longrightarrow> load_th T (Some a) = Inl Dangling"
  "T a = Some t \<Longrightarrow> load_th T (Some a) = Inr t"
  by (simp_all add: load_th_def)

lemma load_th_Inr_iff [mem_simps]: "load_th T p = Inr t \<longleftrightarrow> (\<exists>a. p = Some a \<and> T a = Some t)"
  by (auto simp: load_th_def split: option.splits)

lemma modify_th_simps [simp, mem_simps]:
  "modify_th T None f = Inl NullDeref"
  "T a = None \<Longrightarrow> modify_th T (Some a) f = Inl Dangling"
  "T a = Some t \<Longrightarrow> modify_th T (Some a) f = Inr (T(a \<mapsto> f t))"
  by (simp_all add: modify_th_def)

text \<open>A thread that the dispatcher may pick.\<close>

definition active :: "tstore \<Rightarrow> ptr \<Rightarrow> bool" where
  "active T p = (case p of
       None \<Rightarrow> False
     | Some a \<Rightarrow> (case T a of None \<Rightarrow> False | Some t \<Rightarrow> th_state t = PS_ACTIVE))"

lemma active_Some [simp]: "T a = Some t \<Longrightarrow> active T (Some a) \<longleftrightarrow> th_state t = PS_ACTIVE"
  by (simp add: active_def)

definition known :: "tstore \<Rightarrow> ptr \<Rightarrow> bool" where
  "known T p = (case p of None \<Rightarrow> False | Some a \<Rightarrow> T a \<noteq> None)"

lemma knownE: assumes "known T p" obtains a t where "p = Some a" and "T a = Some t"
  using assms by (auto simp: known_def split: option.splits)

end
