(* ===== verification/Queue_Util.thy ===== *)
theory Queue_Util
  imports Mypthread_Types
begin

text \<open>
  \<open>pthreads/queue_util.c\<close>: the doubly linked run queue of user threads (\<open>mypthread_q_head\<close>,
  \<open>mypthread_q_tail\<close>), the doubly linked list of kernel threads, and the list primitives the
  mutexes and condition variables use. Every pointer operation of the source is a load, a store,
  an allocation or a release on the heap of its node type, in the source's order. A \<open>while\<close> loop
  over a list carries fuel one above the number of nodes ever allocated; a walk that visits more
  nodes than that has entered a cycle, so running out is the stop \<open>Diverges\<close>.
\<close>

section \<open>State\<close>

record qstate =
  qnodes :: "mypthread_queue_node heap"
  q_head :: ptr
  q_tail :: ptr
  knodes :: "mykthread_ll_node heap"
  k_head :: ptr
  k_tail :: ptr
  kths :: "mykthread_t heap"
  thr :: tstore

section \<open>List primitives\<close>

definition create_mypthread_queue_node ::
  "ptr \<Rightarrow> mypthread_queue_node heap \<Rightarrow> (ptr \<times> mypthread_queue_node heap) res" where
  "create_mypthread_queue_node data N =
     (let (temp, N1) = malloc N \<lparr>q_prev = None, q_th = data, q_next = None\<rparr>
      in if temp = None then Inl NullDeref else Inr (temp, N1))"

definition ll_add ::
  "ptr \<Rightarrow> ptr \<Rightarrow> ptr \<Rightarrow> mypthread_queue_node heap \<Rightarrow> (ptr \<times> ptr \<times> mypthread_queue_node heap) res"
where
  "ll_add data head tail N =
     bind_res (create_mypthread_queue_node data N) (\<lambda>(temp, N1).
       if head = None then Inr (temp, temp, N1)
       else bind_res (modify N1 tail (\<lambda>n. n\<lparr>q_next := temp\<rparr>)) (\<lambda>N2.
            bind_res (modify N2 temp (\<lambda>n. n\<lparr>q_prev := tail\<rparr>)) (\<lambda>N3.
            Inr (head, temp, N3))))"

fun ll_free_loop ::
  "nat \<Rightarrow> ptr \<Rightarrow> mypthread_queue_node heap \<Rightarrow> tstore \<Rightarrow> (mypthread_queue_node heap \<times> tstore) res"
where
  "ll_free_loop 0 temp N T = Inl Diverges"
| "ll_free_loop (Suc fuel) temp N T =
     (case temp of
        None \<Rightarrow> Inr (N, T)
      | Some del \<Rightarrow>
          bind_res (load N temp) (\<lambda>n.
          bind_res (modify_th T (q_th n) (\<lambda>t. t\<lparr>th_state := PS_ACTIVE\<rparr>)) (\<lambda>T1.
          bind_res (free_cell N temp) (\<lambda>N1.
          ll_free_loop fuel (q_next n) N1 T1))))"

definition ll_free ::
  "ptr \<Rightarrow> ptr \<Rightarrow> mypthread_queue_node heap \<Rightarrow> tstore \<Rightarrow>
     (ptr \<times> ptr \<times> mypthread_queue_node heap \<times> tstore) res"
where
  "ll_free head tail N T =
     (if head = None then Inr (head, tail, N, T)
      else bind_res (ll_free_loop (Suc (fresh N)) head N T) (\<lambda>(N1, T1).
           Inr (None, None, N1, T1)))"

definition ll_free_one ::
  "ptr \<Rightarrow> mypthread_queue_node heap \<Rightarrow> tstore \<Rightarrow> (ptr \<times> mypthread_queue_node heap \<times> tstore) res"
where
  "ll_free_one head N T =
     (if head = None then Inr (head, N, T)
      else bind_res (load N head) (\<lambda>del.
           bind_res (modify_th T (q_th del) (\<lambda>t. t\<lparr>th_state := PS_ACTIVE\<rparr>)) (\<lambda>T1.
           bind_res (free_cell N head) (\<lambda>N1.
           Inr (q_next del, N1, T1)))))"

section \<open>The run queue\<close>

definition mypthread_enqueue :: "ptr \<Rightarrow> 'a qstate_scheme \<Rightarrow> 'a qstate_scheme res" where
  "mypthread_enqueue data s =
     bind_res (ll_add data (q_head s) (q_tail s) (qnodes s)) (\<lambda>(h, t, N).
     Inr (s\<lparr>q_head := h, q_tail := t, qnodes := N\<rparr>))"

fun find_active_loop ::
  "nat \<Rightarrow> mypthread_queue_node heap \<Rightarrow> tstore \<Rightarrow> ptr \<Rightarrow> ptr res" where
  "find_active_loop 0 N T del = Inl Diverges"
| "find_active_loop (Suc fuel) N T del =
     (case del of
        None \<Rightarrow> Inr None
      | Some a \<Rightarrow>
          bind_res (load N del) (\<lambda>n.
          bind_res (load_th T (q_th n)) (\<lambda>t.
          if th_state t = PS_ACTIVE then Inr del
          else find_active_loop fuel N T (q_next n))))"

text \<open>
  The source unlinks the node it found: the head moves on if the node was the head, its
  neighbours are joined, the node is freed. \<open>mypthread_q_tail\<close> is not written.
\<close>

definition unlink_node :: "ptr \<Rightarrow> 'a qstate_scheme \<Rightarrow> (ptr \<times> 'a qstate_scheme) res" where
  "unlink_node del s =
     bind_res (load (qnodes s) del) (\<lambda>d.
     let head1 = (if q_head s = del then q_next d else q_head s) in
     bind_res (if q_next d \<noteq> None
               then modify (qnodes s) (q_next d) (\<lambda>n. n\<lparr>q_prev := q_prev d\<rparr>)
               else Inr (qnodes s)) (\<lambda>N1.
     bind_res (load N1 del) (\<lambda>d1.
     bind_res (if q_prev d1 \<noteq> None
               then modify N1 (q_prev d1) (\<lambda>n. n\<lparr>q_next := q_next d1\<rparr>)
               else Inr N1) (\<lambda>N2.
     bind_res (load N2 del) (\<lambda>d2.
     bind_res (free_cell N2 del) (\<lambda>N3.
     Inr (q_th d2, s\<lparr>q_head := head1, qnodes := N3\<rparr>)))))))"

definition mypthread_dequeue_first_active ::
  "'a qstate_scheme \<Rightarrow> (ptr \<times> 'a qstate_scheme) res" where
  "mypthread_dequeue_first_active s =
     bind_res (find_active_loop (Suc (fresh (qnodes s))) (qnodes s) (thr s) (q_head s)) (\<lambda>del.
     if del = None then Inr (None, s) else unlink_node del s)"

fun mypthread_get_loop ::
  "nat \<Rightarrow> mypthread_queue_node heap \<Rightarrow> tstore \<Rightarrow> int \<Rightarrow> ptr \<Rightarrow> ptr res" where
  "mypthread_get_loop 0 N T thread_id temp = Inl Diverges"
| "mypthread_get_loop (Suc fuel) N T thread_id temp =
     (case temp of
        None \<Rightarrow> Inr None
      | Some a \<Rightarrow>
          bind_res (load N temp) (\<lambda>n.
          bind_res (load_th T (q_th n)) (\<lambda>t.
          if th_id t = thread_id then Inr (q_th n)
          else mypthread_get_loop fuel N T thread_id (q_next n))))"

definition mypthread_get :: "int \<Rightarrow> 'a qstate_scheme \<Rightarrow> ptr res" where
  "mypthread_get thread_id s =
     mypthread_get_loop (Suc (fresh (qnodes s))) (qnodes s) (thr s) thread_id (q_head s)"

fun update_waiting_loop ::
  "nat \<Rightarrow> mypthread_queue_node heap \<Rightarrow> tstore \<Rightarrow> int \<Rightarrow> ptr \<Rightarrow> tstore res" where
  "update_waiting_loop 0 N T thread_id temp = Inl Diverges"
| "update_waiting_loop (Suc fuel) N T thread_id temp =
     (case temp of
        None \<Rightarrow> Inr T
      | Some a \<Rightarrow>
          bind_res (load N temp) (\<lambda>n.
          bind_res (load_th T (q_th n)) (\<lambda>t.
          bind_res (if dependent_th t = thread_id
                    then modify_th T (q_th n) (\<lambda>u. u\<lparr>th_state := PS_ACTIVE\<rparr>)
                    else Inr T) (\<lambda>T1.
          update_waiting_loop fuel N T1 thread_id (q_next n)))))"

definition mypthread_update_waiting_threads ::
  "int \<Rightarrow> 'a qstate_scheme \<Rightarrow> 'a qstate_scheme res" where
  "mypthread_update_waiting_threads thread_id s =
     bind_res (update_waiting_loop (Suc (fresh (qnodes s))) (qnodes s) (thr s) thread_id (q_head s))
       (\<lambda>T. Inr (s\<lparr>thr := T\<rparr>))"

section \<open>The kernel thread list\<close>

definition create_mykthread_ll_node ::
  "ptr \<Rightarrow> mykthread_ll_node heap \<Rightarrow> (ptr \<times> mykthread_ll_node heap) res" where
  "create_mykthread_ll_node data N =
     (let (temp, N1) = malloc N \<lparr>k_prev = None, k_kth = data, k_next = None\<rparr>
      in if temp = None then Inl NullDeref else Inr (temp, N1))"

definition mykthread_add :: "ptr \<Rightarrow> 'a qstate_scheme \<Rightarrow> 'a qstate_scheme res" where
  "mykthread_add data s =
     bind_res (create_mykthread_ll_node data (knodes s)) (\<lambda>(temp, N1).
     if k_head s = None then Inr (s\<lparr>k_head := temp, k_tail := temp, knodes := N1\<rparr>)
     else bind_res (modify N1 (k_tail s) (\<lambda>n. n\<lparr>k_next := temp\<rparr>)) (\<lambda>N2.
          bind_res (modify N2 temp (\<lambda>n. n\<lparr>k_prev := k_tail s\<rparr>)) (\<lambda>N3.
          Inr (s\<lparr>k_tail := temp, knodes := N3\<rparr>))))"

fun is_running_loop ::
  "nat \<Rightarrow> mykthread_ll_node heap \<Rightarrow> mykthread_t heap \<Rightarrow> tstore \<Rightarrow> int \<Rightarrow> ptr \<Rightarrow> bool res" where
  "is_running_loop 0 N K T thread_id temp = Inl Diverges"
| "is_running_loop (Suc fuel) N K T thread_id temp =
     (case temp of
        None \<Rightarrow> Inr False
      | Some a \<Rightarrow>
          bind_res (load N temp) (\<lambda>n.
          bind_res (load K (k_kth n)) (\<lambda>k.
          bind_res (load_th T (kth_th k)) (\<lambda>t.
          if th_id t = thread_id then Inr True
          else is_running_loop fuel N K T thread_id (k_next n)))))"

definition mykthread_is_running :: "int \<Rightarrow> 'a qstate_scheme \<Rightarrow> bool res" where
  "mykthread_is_running thread_id s =
     is_running_loop (Suc (fresh (knodes s))) (knodes s) (kths s) (thr s) thread_id (k_head s)"

fun mykthread_get_loop ::
  "nat \<Rightarrow> mykthread_ll_node heap \<Rightarrow> mykthread_t heap \<Rightarrow> int \<Rightarrow> ptr \<Rightarrow> ptr res" where
  "mykthread_get_loop 0 N K kthread_id temp = Inl Diverges"
| "mykthread_get_loop (Suc fuel) N K kthread_id temp =
     (case temp of
        None \<Rightarrow> Inr None
      | Some a \<Rightarrow>
          bind_res (load N temp) (\<lambda>n.
          bind_res (load K (k_kth n)) (\<lambda>k.
          if kth_id k = kthread_id then Inr (k_kth n)
          else mykthread_get_loop fuel N K kthread_id (k_next n))))"

definition mykthread_get :: "int \<Rightarrow> 'a qstate_scheme \<Rightarrow> ptr res" where
  "mykthread_get kthread_id s =
     mykthread_get_loop (Suc (fresh (knodes s))) (knodes s) (kths s) kthread_id (k_head s)"

text \<open>
  \<open>mykthread_update\<close> walks the list as \<open>mykthread_get\<close> does; \<open>own_tid\<close> is what \<open>gettid()\<close>
  returns to its caller.
\<close>

definition mykthread_update :: "int \<Rightarrow> int \<Rightarrow> ptr \<Rightarrow> 'a qstate_scheme \<Rightarrow> 'a qstate_scheme res" where
  "mykthread_update own_tid kthread_id pthread s =
     bind_res (mykthread_get kthread_id s) (\<lambda>kth.
     if kth \<noteq> None
     then bind_res (modify (kths s) kth (\<lambda>k. k\<lparr>kth_th := pthread\<rparr>)) (\<lambda>K.
          Inr (s\<lparr>kths := K\<rparr>))
     else (let (k_th, K1) = malloc (kths s) \<lparr>kth_id = own_tid, kth_th = pthread\<rparr>
           in if k_th = None then Inl NullDeref
              else mykthread_add k_th (s\<lparr>kths := K1\<rparr>)))"

end
