(* ===== verification/Utilities.thy ===== *)
theory Utilities
  imports Prelude
begin

text \<open>
  \<open>pthreads/utilities.c\<close>: the number of cores and of hardware threads, read from the output of a
  shell pipeline. What the pipeline prints is the environment's: \<open>None\<close> if \<open>popen\<close> fails, else
  the whole output. \<open>gettid\<close> is a system call; its result is an argument of the routines of
  \<open>mypthread.c\<close> that ask for it.
\<close>

section \<open>The C library routines the file calls\<close>

definition newline :: char where "newline = CHR 0x0A"

definition isspace :: "char \<Rightarrow> bool" where
  "isspace c \<longleftrightarrow> c \<in> {CHR '' '', CHR 0x09, CHR 0x0A, CHR 0x0B, CHR 0x0C, CHR 0x0D}"

definition isdigit :: "char \<Rightarrow> bool" where
  "isdigit c \<longleftrightarrow> 48 \<le> (of_char c :: int) \<and> (of_char c :: int) \<le> 57"

definition digit_val :: "char \<Rightarrow> int" where
  "digit_val c = of_char c - 48"

text \<open>\<open>atoi\<close>: leading white space, an optional sign, then digits up to the first other character.\<close>

fun atoi_digits :: "int \<Rightarrow> string \<Rightarrow> int" where
  "atoi_digits acc [] = acc"
| "atoi_digits acc (c # cs) =
     (if isdigit c then atoi_digits (10 * acc + digit_val c) cs else acc)"

fun atoi_sign :: "string \<Rightarrow> int" where
  "atoi_sign [] = 0"
| "atoi_sign (c # cs) =
     (if c = CHR ''-'' then - atoi_digits 0 cs
      else if c = CHR ''+'' then atoi_digits 0 cs
      else atoi_digits 0 (c # cs))"

definition atoi :: "string \<Rightarrow> int" where
  "atoi s = atoi_sign (dropWhile isspace s)"

text \<open>\<open>fgets\<close> with room for \<open>n\<close> characters beside the terminator: up to and including a newline.\<close>

fun fgets_chars :: "nat \<Rightarrow> string \<Rightarrow> string" where
  "fgets_chars 0 input = []"
| "fgets_chars (Suc n) [] = []"
| "fgets_chars (Suc n) (c # input) = (if c = newline then [c] else c # fgets_chars n input)"

section \<open>The two queries\<close>

text \<open>
  The buffer has two bytes, so \<open>fgets\<close> stores one character and the terminator. At end of file
  \<open>fgets\<close> leaves the buffer alone, and \<open>atoi\<close> reads what the uninitialised buffer holds,
  \<open>junk\<close>.
\<close>

definition read_small_number :: "int \<Rightarrow> string option \<Rightarrow> string \<Rightarrow> int" where
  "read_small_number fallback out junk =
     (case out of
        None \<Rightarrow> fallback
      | Some text \<Rightarrow> atoi (if text = [] then junk else fgets_chars (2 - 1) text))"

definition get_cpu_cores :: "string option \<Rightarrow> string \<Rightarrow> int" where
  "get_cpu_cores out junk = read_small_number 2 out junk"

definition get_hyperthreads :: "string option \<Rightarrow> string \<Rightarrow> int" where
  "get_hyperthreads out junk = read_small_number 1 out junk"

section \<open>Lemmas\<close>

lemma digit_val_range: "isdigit c \<Longrightarrow> 0 \<le> digit_val c \<and> digit_val c \<le> 9"
  by (auto simp: isdigit_def digit_val_def)

lemma atoi_single: "0 \<le> atoi [c] \<and> atoi [c] \<le> 9"
  using digit_val_range [of c] by (auto simp: atoi_def)

lemma atoi_single_digit: "isdigit c \<Longrightarrow> atoi [c] = digit_val c"
  by (auto simp: atoi_def isdigit_def isspace_def)

lemma atoi_one: "atoi [c] = (if isdigit c then digit_val c else 0)"
  using atoi_single_digit [of c] by (simp add: atoi_def)

lemma fgets_one: "out \<noteq> [] \<Longrightarrow> fgets_chars (Suc 0) out = [hd out]"
  by (cases out) simp_all

end
