(* ===== verification/Mypthread.thy ===== *)
theory Mypthread
  imports Queue_Util Utilities
begin

text \<open>
  \<open>pthreads/mypthread.c\<close>: the user-level thread library. The state is the globals of the file
  beside those of \<open>queue_util.c\<close>, the four semaphores, the saved machine contexts, and the
  mutexes and condition variables of the callers, by address. Every routine takes the kernel
  thread id of its caller (\<open>gettid()\<close>) and runs until it returns or gives the processor away.
\<close>

section \<open>State\<close>

text \<open>
  Where a thread goes on when it is switched to. \<open>Ctx_start\<close>: \<open>makecontext\<close> with the start
  routine of \<open>mypthread_create\<close>. \<open>Ctx_lock\<close>: \<open>makecontext\<close> with \<open>mypthread_mutex_lock\<close>, after
  whose return the context has no caller to go back to. \<open>Ctx_saved\<close>: \<open>swapcontext\<close> saved it
  inside the routine named. \<open>Ctx_uninit\<close>: memory that no call has filled.
\<close>

datatype resume = Resume_none | Resume_yield | Resume_join | Resume_cond_wait nat

datatype uctx =
    Ctx_uninit
  | Ctx_start nat int
  | Ctx_lock nat
  | Ctx_saved resume

record lib = qstate +
  mypthread_policy :: int
  mypthread_count :: int
  mypthread_th_gen :: int
  cpu_cores :: int
  thread_per_core :: int
  max_kthread_count :: int
  current_kthread_count :: int
  sems :: "sem_name \<Rightarrow> nat"
  ctxs :: "uctx heap"
  mtxs :: "nat \<rightharpoonup> mypthread_mutex_t"
  cnds :: "nat \<rightharpoonup> mypthread_cond_t"
  clones :: nat

text \<open>The address of the global \<open>main_thread\<close>.\<close>

definition main_thread :: nat where "main_thread = 0"

text \<open>
  How a call ends. \<open>Returned v\<close>: it returns \<open>v\<close> to its caller. \<open>Switched t c\<close>: the processor goes
  to thread \<open>t\<close> at context \<open>c\<close>. \<open>Sleeping kth mode last r\<close>: no thread is active, and the kernel
  thread sleeps inside the scheduler's loop with these values of its variables.
\<close>

datatype outcome =
    Returned int
  | Switched nat uctx
  | Sleeping ptr int ptr resume

section \<open>Semaphores, contexts, callers' objects\<close>

definition sem_wait :: "sem_name \<Rightarrow> lib \<Rightarrow> lib res" where
  "sem_wait n s = (if sems s n = 0 then Inl (SemBlocked n)
                   else Inr (s\<lparr>sems := (sems s)(n := sems s n - 1)\<rparr>))"

definition sem_post :: "sem_name \<Rightarrow> lib \<Rightarrow> lib" where
  "sem_post n s = s\<lparr>sems := (sems s)(n := Suc (sems s n))\<rparr>"

definition setcontext :: "ptr \<Rightarrow> lib \<Rightarrow> (outcome \<times> lib) res" where
  "setcontext th s =
     bind_res (load_th (thr s) th) (\<lambda>t.
     bind_res (load (ctxs s) (th_ctx t)) (\<lambda>c.
     if c = Ctx_uninit then Inl BadContext else Inr (Switched (the th) c, s)))"

definition swapcontext :: "ptr \<Rightarrow> ptr \<Rightarrow> resume \<Rightarrow> lib \<Rightarrow> (outcome \<times> lib) res" where
  "swapcontext oucp th r s =
     bind_res (load_th (thr s) oucp) (\<lambda>l.
     bind_res (modify (ctxs s) (th_ctx l) (\<lambda>_. Ctx_saved r)) (\<lambda>C.
     setcontext th (s\<lparr>ctxs := C\<rparr>)))"

definition makecontext :: "ptr \<Rightarrow> uctx \<Rightarrow> uctx heap \<Rightarrow> (uctx heap) res" where
  "makecontext p c C =
     bind_res (load C p) (\<lambda>old.
     if old = Ctx_uninit then Inl BadContext else modify C p (\<lambda>_. c))"

definition load_mtx :: "nat \<Rightarrow> lib \<Rightarrow> mypthread_mutex_t res" where
  "load_mtx m s = (case mtxs s m of None \<Rightarrow> Inl Dangling | Some x \<Rightarrow> Inr x)"

definition load_cnd :: "nat \<Rightarrow> lib \<Rightarrow> mypthread_cond_t res" where
  "load_cnd c s = (case cnds s c of None \<Rightarrow> Inl Dangling | Some x \<Rightarrow> Inr x)"

section \<open>Initialisation\<close>

definition init_locks :: "lib \<Rightarrow> lib" where
  "init_locks s = s\<lparr>sems := (\<lambda>_. 1)\<rparr>"

text \<open>\<open>cores\<close> and \<open>hyper\<close> are what \<open>get_cpu_cores()\<close> and \<open>get_hyperthreads()\<close> return.\<close>

definition init_kthread_info :: "int \<Rightarrow> int \<Rightarrow> lib \<Rightarrow> lib" where
  "init_kthread_info cores hyper s =
     (let s1 = s\<lparr>cpu_cores := cores, thread_per_core := hyper\<rparr>
      in if mypthread_policy s1 = ULONLY then s1\<lparr>max_kthread_count := 1\<rparr>
         else if mypthread_policy s1 = KLMATCHCORES then s1\<lparr>max_kthread_count := cpu_cores s1\<rparr>
         else if mypthread_policy s1 = KLMATCHHYPER
         then s1\<lparr>max_kthread_count := cpu_cores s1 * thread_per_core s1\<rparr>
         else s1)"

definition mypthread_init :: "int \<Rightarrow> int \<Rightarrow> int \<Rightarrow> lib \<Rightarrow> lib" where
  "mypthread_init cores hyper kt s = init_kthread_info cores hyper (s\<lparr>mypthread_policy := kt\<rparr>)"

section \<open>The scheduler\<close>

text \<open>One pass through the \<open>do\<close> loop; \<open>sleep\<close> ends it when no thread is active.\<close>

definition scheduler_pass :: "ptr \<Rightarrow> int \<Rightarrow> ptr \<Rightarrow> resume \<Rightarrow> lib \<Rightarrow> (outcome \<times> lib) res" where
  "scheduler_pass current_kthread mode last_running r s =
     bind_res (sem_wait Mypthread_sem s) (\<lambda>s1.
     bind_res (mypthread_dequeue_first_active s1) (\<lambda>(next_active, s2).
     let s3 = sem_post Mypthread_sem s2 in
     if next_active \<noteq> None then
       bind_res (sem_wait Kthread_sem s3) (\<lambda>s4.
       bind_res (modify (kths s4) current_kthread (\<lambda>k. k\<lparr>kth_th := next_active\<rparr>)) (\<lambda>K.
       let s5 = sem_post Kthread_sem (s4\<lparr>kths := K\<rparr>) in
       if mode = 0 then setcontext next_active s5
       else swapcontext last_running next_active r s5))
     else Inr (Sleeping current_kthread mode last_running r, s3)))"

definition mythread_scheduler :: "ptr \<Rightarrow> int \<Rightarrow> resume \<Rightarrow> lib \<Rightarrow> (outcome \<times> lib) res" where
  "mythread_scheduler current_kthread mode r s =
     bind_res (sem_wait Mypthread_sem s) (\<lambda>s1.
     if mypthread_count s1 = 0 then Inr (Returned 0, sem_post Mypthread_sem s1)
     else let s2 = sem_post Mypthread_sem s1 in
          bind_res (load (kths s2) current_kthread) (\<lambda>k.
          scheduler_pass current_kthread mode (kth_th k) r s2))"

section \<open>Kernel threads\<close>

text \<open>What the environment answers to the stack's \<open>malloc\<close> and to \<open>clone\<close>.\<close>

datatype clone_result = Stack_null | Clone_failed | Clone_ok

definition create_kthread :: "clone_result \<Rightarrow> lib \<Rightarrow> lib res" where
  "create_kthread env s =
     (case env of
        Stack_null \<Rightarrow> Inl (ExitProcess 1)
      | Clone_failed \<Rightarrow> Inl (ExitProcess 1)
      | Clone_ok \<Rightarrow> Inr (s\<lparr>clones := Suc (clones s)\<rparr>))"

definition schedule_kthread :: "int \<Rightarrow> lib \<Rightarrow> (outcome \<times> lib) res" where
  "schedule_kthread tid s =
     (let (k_th, K) = malloc (kths s) \<lparr>kth_id = tid, kth_th = None\<rparr>
      in if k_th = None then Inl NullDeref
         else bind_res (mykthread_add k_th (s\<lparr>kths := K\<rparr>)) (\<lambda>s1.
              mythread_scheduler k_th 0 Resume_none s1))"

section \<open>Threads\<close>

text \<open>
  \<open>mypthread_create\<close> when no thread is registered: the locks, the thread of the caller
  (\<open>main_thread\<close>) and its kernel thread. The stacks themselves are not part of the model.
\<close>

definition register_main :: "int \<Rightarrow> lib \<Rightarrow> lib res" where
  "register_main tid s =
     (let s1 = init_locks s;
          s2 = s1\<lparr>mypthread_th_gen := mypthread_th_gen s1 + 1,
                  mypthread_count := mypthread_count s1 + 1\<rparr>;
          (c, C) = malloc (ctxs s2) Ctx_uninit
      in if c = None then Inl NullDeref
         else bind_res (modify_th (thr s2) (Some main_thread)
                 (\<lambda>t. t\<lparr>th_id := mypthread_th_gen s2, th_ctx := c, th_state := PS_RUNNING\<rparr>)) (\<lambda>T.
              let s3 = s2\<lparr>ctxs := C, thr := T\<rparr>;
                  (k_th, K) = malloc (kths s3) \<lparr>kth_id = tid, kth_th = Some main_thread\<rparr>
              in if k_th = None then Inl NullDeref
                 else bind_res (sem_wait Kthread_sem (s3\<lparr>kths := K\<rparr>)) (\<lambda>s4.
                      bind_res (mykthread_add k_th (s4\<lparr>current_kthread_count := 1\<rparr>)) (\<lambda>s5.
                      Inr (sem_post Kthread_sem s5)))))"

text \<open>The control block, its context and its place in the run queue.\<close>

definition create_thread :: "nat \<Rightarrow> nat \<Rightarrow> int \<Rightarrow> lib \<Rightarrow> lib res" where
  "create_thread thread start_routine arg s =
     (let (context, C) = malloc (ctxs s) (Ctx_start start_routine arg)
      in if context = None then Inl NullDeref
         else bind_res (modify_th (thr s) (Some thread)
                 (\<lambda>t. t\<lparr>th_ctx := context, th_state := PS_ACTIVE\<rparr>)) (\<lambda>T.
              bind_res (sem_wait Mypthread_sem (s\<lparr>ctxs := C, thr := T\<rparr>)) (\<lambda>s1.
              bind_res (modify_th (thr s1) (Some thread)
                 (\<lambda>t. t\<lparr>th_id := mypthread_th_gen s1 + 1\<rparr>)) (\<lambda>T1.
              bind_res (mypthread_enqueue (Some thread)
                 (s1\<lparr>thr := T1, mypthread_th_gen := mypthread_th_gen s1 + 1,
                      mypthread_count := mypthread_count s1 + 1\<rparr>)) (\<lambda>s2.
              Inr (sem_post Mypthread_sem s2))))))"

text \<open>The policy's decision about a kernel thread for the new user thread.\<close>

definition spawn_by_policy :: "clone_result \<Rightarrow> lib \<Rightarrow> lib res" where
  "spawn_by_policy env s =
     (if mypthread_policy s = KLMATCHCORES \<or> mypthread_policy s = KLMATCHHYPER then
        bind_res (sem_wait Kthread_sem s) (\<lambda>s1.
        let create_thread_flag = (current_kthread_count s1 < max_kthread_count s1);
            s2 = (if create_thread_flag
                  then s1\<lparr>current_kthread_count := current_kthread_count s1 + 1\<rparr> else s1);
            s3 = sem_post Kthread_sem s2
        in if create_thread_flag then create_kthread env s3 else Inr s3)
      else if mypthread_policy s = KLALWAYS then
        bind_res (sem_wait Kthread_sem s) (\<lambda>s1.
        create_kthread env
          (sem_post Kthread_sem (s1\<lparr>current_kthread_count := current_kthread_count s1 + 1\<rparr>)))
      else Inr s)"

definition mypthread_create ::
  "int \<Rightarrow> clone_result \<Rightarrow> nat \<Rightarrow> nat \<Rightarrow> int \<Rightarrow> lib \<Rightarrow> (outcome \<times> lib) res" where
  "mypthread_create tid env thread start_routine arg s =
     bind_res (if mypthread_count s = 0 then register_main tid s else Inr s) (\<lambda>s1.
     bind_res (create_thread thread start_routine arg s1) (\<lambda>s2.
     bind_res (spawn_by_policy env s2) (\<lambda>s3.
     Inr (Returned 0, s3))))"

definition mypthread_exit :: "int \<Rightarrow> lib \<Rightarrow> (outcome \<times> lib) res" where
  "mypthread_exit tid s =
     bind_res (mykthread_get tid s) (\<lambda>current_kthread.
     bind_res (sem_wait Mypthread_sem s) (\<lambda>s1.
     let s2 = s1\<lparr>mypthread_count := mypthread_count s1 - 1\<rparr> in
     bind_res (load (kths s2) current_kthread) (\<lambda>k.
     bind_res (modify_th (thr s2) (kth_th k) (\<lambda>t. t\<lparr>th_state := PS_DEAD\<rparr>)) (\<lambda>T.
     bind_res (load_th T (kth_th k)) (\<lambda>t.
     bind_res (mypthread_update_waiting_threads (th_id t) (s2\<lparr>thr := T\<rparr>)) (\<lambda>s3.
     let s4 = sem_post Mypthread_sem s3 in
     bind_res (free_cell (ctxs s4) (th_ctx t)) (\<lambda>C.
     mythread_scheduler current_kthread 0 Resume_none (s4\<lparr>ctxs := C\<rparr>))))))))"

definition mypthread_yield :: "int \<Rightarrow> lib \<Rightarrow> (outcome \<times> lib) res" where
  "mypthread_yield tid s =
     bind_res (mykthread_get tid s) (\<lambda>current_kthread.
     bind_res (load (kths s) current_kthread) (\<lambda>k.
     bind_res (modify_th (thr s) (kth_th k) (\<lambda>t. t\<lparr>th_state := PS_ACTIVE\<rparr>)) (\<lambda>T.
     bind_res (sem_wait Mypthread_sem (s\<lparr>thr := T\<rparr>)) (\<lambda>s1.
     bind_res (mypthread_enqueue (kth_th k) s1) (\<lambda>s2.
     mythread_scheduler current_kthread 1 Resume_yield (sem_post Mypthread_sem s2))))))"

text \<open>
  What both waiting branches of \<open>mypthread_join\<close> do: the caller waits for \<open>thread_id\<close>, goes to
  the end of the run queue and gives the processor away.
\<close>

definition wait_for_thread :: "ptr \<Rightarrow> int \<Rightarrow> lib \<Rightarrow> (outcome \<times> lib) res" where
  "wait_for_thread current_kthread thread_id s =
     bind_res (load (kths s) current_kthread) (\<lambda>k.
     bind_res (modify_th (thr s) (kth_th k)
        (\<lambda>t. t\<lparr>th_state := PS_WAITING, dependent_th := thread_id\<rparr>)) (\<lambda>T.
     bind_res (sem_wait Mypthread_sem (s\<lparr>thr := T\<rparr>)) (\<lambda>s1.
     bind_res (mypthread_enqueue (kth_th k) s1) (\<lambda>s2.
     mythread_scheduler current_kthread 1 Resume_join (sem_post Mypthread_sem s2)))))"

text \<open>The argument \<open>thread\<close> is passed by value; only its \<open>th_id\<close> is read.\<close>

definition mypthread_join :: "int \<Rightarrow> int \<Rightarrow> lib \<Rightarrow> (outcome \<times> lib) res" where
  "mypthread_join tid thread_id s =
     bind_res (sem_wait Mypthread_sem s) (\<lambda>s1.
     bind_res (mypthread_get thread_id s1) (\<lambda>target_thread.
     bind_res (sem_wait Kthread_sem s1) (\<lambda>s2.
     bind_res (mykthread_get tid s2) (\<lambda>current_kthread.
     let s3 = sem_post Mypthread_sem (sem_post Kthread_sem s2) in
     if target_thread = None then
       bind_res (mykthread_is_running thread_id s3) (\<lambda>running.
       if running then wait_for_thread current_kthread thread_id s3
       else Inr (Returned 0, s3))
     else
       bind_res (load_th (thr s3) target_thread) (\<lambda>t.
       if th_state t \<noteq> PS_DEAD then wait_for_thread current_kthread thread_id s3
       else Inr (Returned 0, s3))))))"

definition mypthread_self :: "int \<Rightarrow> lib \<Rightarrow> (mypthread_t \<times> lib) res" where
  "mypthread_self tid s =
     bind_res (sem_wait Kthread_sem s) (\<lambda>s1.
     bind_res (mykthread_get tid s1) (\<lambda>current_kthread.
     let s2 = sem_post Kthread_sem s1 in
     bind_res (load (kths s2) current_kthread) (\<lambda>k.
     bind_res (load_th (thr s2) (kth_th k)) (\<lambda>t.
     Inr (t, s2)))))"

definition mypthread_equal :: "mypthread_t \<Rightarrow> mypthread_t \<Rightarrow> bool" where
  "mypthread_equal t1 t2 = (if th_id t1 = th_id t2 then True else False)"

section \<open>Mutexes\<close>

definition EBUSY :: int where "EBUSY = 16"

definition mypthread_mutex_init :: "nat \<Rightarrow> lib \<Rightarrow> (outcome \<times> lib) res" where
  "mypthread_mutex_init m s =
     bind_res (load_mtx m s) (\<lambda>_.
     Inr (Returned 0, s\<lparr>mtxs := (mtxs s)(m \<mapsto>
            \<lparr>mtx_lock = False, blocked_q_head = None, blocked_q_tail = None\<rparr>)\<rparr>))"

definition mypthread_mutex_destroy :: "nat \<Rightarrow> lib \<Rightarrow> (outcome \<times> lib) res" where
  "mypthread_mutex_destroy m s =
     bind_res (sem_wait Mutex_sem s) (\<lambda>s1.
     bind_res (mypthread_mutex_init m s1) (\<lambda>(_, s2).
     Inr (Returned 0, sem_post Mutex_sem s2)))"

definition mypthread_mutex_lock :: "int \<Rightarrow> nat \<Rightarrow> lib \<Rightarrow> (outcome \<times> lib) res" where
  "mypthread_mutex_lock tid m s =
     bind_res (sem_wait Mutex_sem s) (\<lambda>s1.
     bind_res (load_mtx m s1) (\<lambda>mutex.
     if \<not> mtx_lock mutex then
       Inr (Returned 0,
            sem_post Mutex_sem (s1\<lparr>mtxs := (mtxs s1)(m \<mapsto> mutex\<lparr>mtx_lock := True\<rparr>)\<rparr>))
     else
       bind_res (mykthread_get tid s1) (\<lambda>current_kthread.
       bind_res (load (kths s1) current_kthread) (\<lambda>k.
       bind_res (modify_th (thr s1) (kth_th k) (\<lambda>t. t\<lparr>th_state := PS_BLOCKED\<rparr>)) (\<lambda>T.
       bind_res (ll_add (kth_th k) (blocked_q_head mutex) (blocked_q_tail mutex) (qnodes s1))
         (\<lambda>(h, t, N).
       bind_res (load_th T (kth_th k)) (\<lambda>th.
       bind_res (makecontext (th_ctx th) (Ctx_lock m) (ctxs s1)) (\<lambda>C.
       let s2 = s1\<lparr>thr := T, qnodes := N, ctxs := C,
                    mtxs := (mtxs s1)(m \<mapsto> mutex\<lparr>blocked_q_head := h, blocked_q_tail := t\<rparr>)\<rparr> in
       bind_res (sem_wait Mypthread_sem s2) (\<lambda>s3.
       bind_res (mypthread_enqueue (kth_th k) s3) (\<lambda>s4.
       mythread_scheduler current_kthread 0 Resume_none
         (sem_post Mutex_sem (sem_post Mypthread_sem s4))))))))))))"

definition mypthread_mutex_trylock :: "nat \<Rightarrow> lib \<Rightarrow> (outcome \<times> lib) res" where
  "mypthread_mutex_trylock m s =
     bind_res (sem_wait Mutex_sem s) (\<lambda>s1.
     bind_res (load_mtx m s1) (\<lambda>mutex.
     if \<not> mtx_lock mutex then
       Inr (Returned 0,
            sem_post Mutex_sem (s1\<lparr>mtxs := (mtxs s1)(m \<mapsto> mutex\<lparr>mtx_lock := True\<rparr>)\<rparr>))
     else Inr (Returned EBUSY, s1)))"

definition mypthread_mutex_unlock :: "nat \<Rightarrow> lib \<Rightarrow> (outcome \<times> lib) res" where
  "mypthread_mutex_unlock m s =
     bind_res (sem_wait Mutex_sem s) (\<lambda>s1.
     bind_res (load_mtx m s1) (\<lambda>mutex.
     bind_res (ll_free (blocked_q_head mutex) (blocked_q_tail mutex) (qnodes s1) (thr s1))
       (\<lambda>(h, t, N, T).
     Inr (Returned 0,
          sem_post Mutex_sem (s1\<lparr>qnodes := N, thr := T,
            mtxs := (mtxs s1)(m \<mapsto> \<lparr>mtx_lock = False, blocked_q_head = h, blocked_q_tail = t\<rparr>)\<rparr>)))))"

section \<open>Condition variables\<close>

definition mypthread_cond_init :: "nat \<Rightarrow> lib \<Rightarrow> (outcome \<times> lib) res" where
  "mypthread_cond_init c s =
     bind_res (load_cnd c s) (\<lambda>_.
     Inr (Returned 0, s\<lparr>cnds := (cnds s)(c \<mapsto> \<lparr>cond_q_head = None, cond_q_tail = None\<rparr>)\<rparr>))"

definition mypthread_cond_destroy :: "nat \<Rightarrow> lib \<Rightarrow> (outcome \<times> lib) res" where
  "mypthread_cond_destroy c s =
     bind_res (sem_wait Cond_sem s) (\<lambda>s1.
     bind_res (mypthread_cond_init c s1) (\<lambda>(_, s2).
     Inr (Returned 0, sem_post Cond_sem s2)))"

definition mypthread_cond_broadcast :: "nat \<Rightarrow> lib \<Rightarrow> (outcome \<times> lib) res" where
  "mypthread_cond_broadcast c s =
     bind_res (sem_wait Cond_sem s) (\<lambda>s1.
     bind_res (sem_wait Mypthread_sem s1) (\<lambda>s2.
     bind_res (load_cnd c s2) (\<lambda>cond.
     bind_res (ll_free (cond_q_head cond) (cond_q_tail cond) (qnodes s2) (thr s2)) (\<lambda>(h, t, N, T).
     Inr (Returned 0,
          sem_post Cond_sem (sem_post Mypthread_sem (s2\<lparr>qnodes := N, thr := T,
            cnds := (cnds s2)(c \<mapsto> \<lparr>cond_q_head = h, cond_q_tail = t\<rparr>)\<rparr>)))))))"

definition mypthread_cond_signal :: "nat \<Rightarrow> lib \<Rightarrow> (outcome \<times> lib) res" where
  "mypthread_cond_signal c s =
     bind_res (sem_wait Cond_sem s) (\<lambda>s1.
     bind_res (sem_wait Mypthread_sem s1) (\<lambda>s2.
     bind_res (load_cnd c s2) (\<lambda>cond.
     bind_res (ll_free_one (cond_q_head cond) (qnodes s2) (thr s2)) (\<lambda>(h, N, T).
     Inr (Returned 0,
          sem_post Cond_sem (sem_post Mypthread_sem (s2\<lparr>qnodes := N, thr := T,
            cnds := (cnds s2)(c \<mapsto> cond\<lparr>cond_q_head := h\<rparr>)\<rparr>)))))))"

text \<open>
  \<open>mypthread_cond_wait\<close> up to its call of the scheduler. When its thread is switched to again, it
  goes on with \<open>mypthread_mutex_lock (mutex)\<close> (\<open>Resume_cond_wait\<close>), as it does when the scheduler
  returns.
\<close>

definition mypthread_cond_wait :: "int \<Rightarrow> nat \<Rightarrow> nat \<Rightarrow> lib \<Rightarrow> (outcome \<times> lib) res" where
  "mypthread_cond_wait tid c m s =
     bind_res (sem_wait Cond_sem s) (\<lambda>s1.
     bind_res (mypthread_mutex_unlock m s1) (\<lambda>(_, s2).
     bind_res (mykthread_get tid s2) (\<lambda>current_kthread.
     bind_res (load (kths s2) current_kthread) (\<lambda>k.
     bind_res (modify_th (thr s2) (kth_th k) (\<lambda>t. t\<lparr>th_state := PS_BLOCKED\<rparr>)) (\<lambda>T.
     bind_res (load_cnd c s2) (\<lambda>cond.
     bind_res (ll_add (kth_th k) (cond_q_head cond) (cond_q_tail cond) (qnodes s2)) (\<lambda>(h, t, N).
     let s3 = s2\<lparr>thr := T, qnodes := N,
                  cnds := (cnds s2)(c \<mapsto> \<lparr>cond_q_head = h, cond_q_tail = t\<rparr>)\<rparr> in
     bind_res (sem_wait Mypthread_sem s3) (\<lambda>s4.
     bind_res (mypthread_enqueue (kth_th k) s4) (\<lambda>s5.
     bind_res (mythread_scheduler current_kthread 1 (Resume_cond_wait m)
                 (sem_post Cond_sem (sem_post Mypthread_sem s5))) (\<lambda>(out, s6).
     case out of
       Returned _ \<Rightarrow> mypthread_mutex_lock tid m s6
     | _ \<Rightarrow> Inr (out, s6)))))))))))"

section \<open>A process that has just started\<close>

text \<open>
  The globals are zero, the semaphores not yet initialised. \<open>r\<close> bounds every kind of allocation,
  and the program has \<open>n\<close> zeroed control blocks, mutexes and condition variables each, at the
  addresses below \<open>n\<close>; \<open>main_thread\<close> is the control block 0.
\<close>

definition no_cells :: "nat \<Rightarrow> 'v heap" where
  "no_cells r = \<lparr>cells = Map.empty, fresh = 0, room = r\<rparr>"

definition program_start :: "nat \<Rightarrow> nat \<Rightarrow> lib" where
  "program_start r n =
     \<lparr>qnodes = no_cells r, q_head = None, q_tail = None,
      knodes = no_cells r, k_head = None, k_tail = None, kths = no_cells r,
      thr = (\<lambda>a. if a < n
                 then Some \<lparr>th_id = 0, th_ctx = None, th_state = PS_ACTIVE, dependent_th = 0\<rparr>
                 else None),
      mypthread_policy = 0, mypthread_count = 0, mypthread_th_gen = 0, cpu_cores = 0,
      thread_per_core = 0, max_kthread_count = 0, current_kthread_count = 0,
      sems = (\<lambda>_. 0), ctxs = no_cells r,
      mtxs = (\<lambda>a. if a < n
                 then Some \<lparr>mtx_lock = False, blocked_q_head = None, blocked_q_tail = None\<rparr>
                 else None),
      cnds = (\<lambda>a. if a < n then Some \<lparr>cond_q_head = None, cond_q_tail = None\<rparr> else None),
      clones = 0\<rparr>"

text \<open>A sequence of library calls, and the list of their outcomes.\<close>

fun run_calls :: "(lib \<Rightarrow> (outcome \<times> lib) res) list \<Rightarrow> lib \<Rightarrow> (outcome list \<times> lib) res" where
  "run_calls [] s = Inr ([], s)"
| "run_calls (f # fs) s =
     bind_res (f s) (\<lambda>(out, s1). bind_res (run_calls fs s1) (\<lambda>(os, s2). Inr (out # os, s2)))"

end
