(* ===== verification/Linked_Lists.thy ===== *)
theory Linked_Lists
  imports C_Memory
begin

text \<open>
  Doubly linked lists on a heap, for any node type. \<open>mk p v n\<close> is the node with predecessor \<open>p\<close>,
  payload \<open>v\<close> and successor \<open>n\<close>. A list is given by the addresses of its nodes and their
  payloads; \<open>dll mk h p xs n\<close> says that the heap holds exactly these nodes, the first pointing
  back to \<open>p\<close> and the last pointing on to \<open>n\<close>.
\<close>

definition first_addr :: "(nat \<times> 'b) list \<Rightarrow> ptr \<Rightarrow> ptr" where
  "first_addr xs n = (case xs of [] \<Rightarrow> n | x # _ \<Rightarrow> Some (fst x))"

definition last_addr :: "ptr \<Rightarrow> (nat \<times> 'b) list \<Rightarrow> ptr" where
  "last_addr p xs = (if xs = [] then p else Some (fst (last xs)))"

primrec dll ::
  "(ptr \<Rightarrow> 'b \<Rightarrow> ptr \<Rightarrow> 'v) \<Rightarrow> 'v heap \<Rightarrow> ptr \<Rightarrow> (nat \<times> 'b) list \<Rightarrow> ptr \<Rightarrow> bool"
where
  "dll mk h p [] n = True"
| "dll mk h p (x # xs) n =
     (cells h (fst x) = Some (mk p (snd x) (first_addr xs n)) \<and>
      dll mk h (Some (fst x)) xs n)"

lemma first_addr_simps [simp]:
  "first_addr [] n = n"
  "first_addr (x # xs) n = Some (fst x)"
  by (simp_all add: first_addr_def)

lemma last_addr_simps [simp]:
  "last_addr p [] = p"
  "last_addr p (xs @ [x]) = Some (fst x)"
  by (simp_all add: last_addr_def)

lemma last_addr_Cons [simp]: "last_addr p (x # xs) = last_addr (Some (fst x)) xs"
  by (simp add: last_addr_def)

lemma last_addr_nonempty: "xs \<noteq> [] \<Longrightarrow> last_addr p xs = Some (fst (last xs))"
  by (simp add: last_addr_def)

lemma first_addr_append [simp]: "first_addr (xs @ ys) n = first_addr xs (first_addr ys n)"
  by (cases xs) simp_all

lemma first_addr_None_iff [simp]: "first_addr xs None = None \<longleftrightarrow> xs = []"
  by (cases xs) simp_all

lemma first_addr_Some [simp]: "first_addr xs (Some a) \<noteq> None"
  by (cases xs) simp_all

lemma last_addr_None_iff [simp]: "last_addr None xs = None \<longleftrightarrow> xs = []"
  by (simp add: last_addr_def)

lemma dll_append [simp]:
  "dll mk h p (xs @ ys) n \<longleftrightarrow> dll mk h p xs (first_addr ys n) \<and> dll mk h (last_addr p xs) ys n"
  by (induction xs arbitrary: p) auto

lemma dll_cong_cells:
  "(\<And>x. x \<in> set xs \<Longrightarrow> cells h' (fst x) = cells h (fst x)) \<Longrightarrow> dll mk h' p xs n = dll mk h p xs n"
  by (induction xs arbitrary: p) auto

lemma dll_frame [simp]:
  "a \<notin> fst ` set xs \<Longrightarrow> dll mk (h\<lparr>cells := (cells h)(a := c)\<rparr>) p xs n = dll mk h p xs n"
  by (rule dll_cong_cells) auto

lemma dll_ignores [simp]:
  "dll mk (h\<lparr>fresh := f\<rparr>) p xs n = dll mk h p xs n"
  "dll mk (h\<lparr>room := r\<rparr>) p xs n = dll mk h p xs n"
  by (rule dll_cong_cells, simp)+

lemma dll_cells: "dll mk h p xs n \<Longrightarrow> x \<in> set xs \<Longrightarrow> \<exists>v. cells h (fst x) = Some v"
  by (induction xs arbitrary: p) auto

lemma dll_length_fresh:
  assumes "dll mk h p xs n" and "heap_ok h" and "distinct (map fst xs)"
  shows "length xs \<le> fresh h"
proof -
  have "set (map fst xs) \<subseteq> {..<fresh h}"
    using dll_cells [OF assms(1)] heap_ok_less [OF assms(2)] by fastforce
  from distinct_length_bound [OF assms(3) this] show ?thesis by simp
qed

text \<open>Rewriting the successor of the last node, or the predecessor of the first.\<close>

lemma dll_set_next:
  assumes "dll mk h p (xs @ [x]) n" and "fst x \<notin> fst ` set xs"
  shows "dll mk (h\<lparr>cells := (cells h)(fst x \<mapsto> mk (last_addr p xs) (snd x) m)\<rparr>) p (xs @ [x]) m"
  using assms by simp

lemma dll_set_prev:
  assumes "dll mk h p (x # xs) n" and "fst x \<notin> fst ` set xs"
  shows "dll mk (h\<lparr>cells := (cells h)(fst x \<mapsto> mk q (snd x) (first_addr xs n))\<rparr>) q (x # xs) n"
  using assms by simp

text \<open>
  A list with its head pointer (\<open>chain_rep\<close>), and with a tail pointer at its last node as well
  (\<open>queue_rep\<close>). The tail pointer of an empty list may be anything: the code resets it before it
  reads it.
\<close>

definition chain_rep ::
  "(ptr \<Rightarrow> 'b \<Rightarrow> ptr \<Rightarrow> 'v) \<Rightarrow> 'v heap \<Rightarrow> ptr \<Rightarrow> (nat \<times> 'b) list \<Rightarrow> bool" where
  "chain_rep mk h hp xs \<longleftrightarrow>
     dll mk h None xs None \<and> hp = first_addr xs None \<and> distinct (map fst xs)"

definition queue_rep ::
  "(ptr \<Rightarrow> 'b \<Rightarrow> ptr \<Rightarrow> 'v) \<Rightarrow> 'v heap \<Rightarrow> ptr \<Rightarrow> ptr \<Rightarrow> (nat \<times> 'b) list \<Rightarrow> bool" where
  "queue_rep mk h hp tp xs \<longleftrightarrow>
     chain_rep mk h hp xs \<and> (xs \<noteq> [] \<longrightarrow> tp = Some (fst (last xs)))"

lemma chain_rep_length: "chain_rep mk h hp xs \<Longrightarrow> heap_ok h \<Longrightarrow> length xs \<le> fresh h"
  by (auto simp: chain_rep_def intro: dll_length_fresh)

lemma chain_rep_Nil [simp]: "chain_rep mk h hp [] \<longleftrightarrow> hp = None"
  by (auto simp: chain_rep_def)

lemma queue_rep_chain: "queue_rep mk h hp tp xs \<Longrightarrow> chain_rep mk h hp xs"
  by (simp add: queue_rep_def)

lemma chain_rep_cong:
  assumes "\<And>x. x \<in> set xs \<Longrightarrow> cells h' (fst x) = cells h (fst x)"
  shows "chain_rep mk h' hp xs = chain_rep mk h hp xs"
  using dll_cong_cells [of xs h' h, OF assms] by (simp add: chain_rep_def)

lemma queue_rep_cong:
  assumes "\<And>x. x \<in> set xs \<Longrightarrow> cells h' (fst x) = cells h (fst x)"
  shows "queue_rep mk h' hp tp xs = queue_rep mk h hp tp xs"
  using chain_rep_cong [of xs h' h, OF assms] by (simp add: queue_rep_def)

lemma chain_rep_addr:
  "chain_rep mk h hp xs \<Longrightarrow> heap_ok h \<Longrightarrow> a \<in> fst ` set xs \<Longrightarrow> a < fresh h"
  by (auto simp: chain_rep_def dest!: dll_cells intro: heap_ok_less)

text \<open>Appending a freshly allocated node, to the empty list and to a longer one.\<close>

lemma queue_rep_addr:
  "queue_rep mk h hp tp xs \<Longrightarrow> heap_ok h \<Longrightarrow> fresh h \<notin> fst ` set xs"
  using chain_rep_addr [of mk h hp xs "fresh h"] by (auto simp: queue_rep_def)

lemma queue_rep_last:
  assumes "queue_rep mk h hp tp (ys @ [x])"
  shows "tp = Some (fst x)" and "hp \<noteq> None"
    and "cells h (fst x) = Some (mk (last_addr None ys) (snd x) None)"
  using assms by (auto simp: queue_rep_def chain_rep_def)

definition push_heap ::
  "(ptr \<Rightarrow> 'b \<Rightarrow> ptr \<Rightarrow> 'v) \<Rightarrow> 'v heap \<Rightarrow> (nat \<times> 'b) list \<Rightarrow> 'b \<Rightarrow> 'v heap" where
  "push_heap mk h xs v =
     (let c = (cells h)(fresh h \<mapsto> mk (last_addr None xs) v None)
      in h\<lparr>cells := (if xs = [] then c
                     else c(fst (last xs) \<mapsto>
                          mk (last_addr None (butlast xs)) (snd (last xs)) (Some (fresh h)))),
            fresh := Suc (fresh h), room := room h - 1\<rparr>)"

lemma queue_rep_push:
  assumes rep: "queue_rep mk h hp tp xs" and ok: "heap_ok h"
  shows "queue_rep mk (push_heap mk h xs v) (if xs = [] then Some (fresh h) else hp) (Some (fresh h))
           (xs @ [(fresh h, v)])"
proof (cases xs rule: rev_cases)
  case Nil
  then show ?thesis by (simp add: queue_rep_def chain_rep_def push_heap_def)
next
  case (snoc ys x)
  from rep snoc have d: "dll mk h None (ys @ [x]) None"
    and hp: "hp = first_addr (ys @ [x]) None" and dist: "distinct (map fst (ys @ [x]))"
    by (simp_all add: queue_rep_def chain_rep_def)
  have fr: "fresh h \<notin> fst ` set (ys @ [x])"
    using queue_rep_addr [OF rep ok] snoc by simp
  have "dll mk (push_heap mk h xs v) None ys (Some (fst x)) = dll mk h None ys (Some (fst x))"
    by (rule dll_cong_cells) (use dist fr snoc in \<open>auto simp: push_heap_def intro: rev_image_eqI\<close>)
  with d snoc hp dist fr show ?thesis
    by (auto simp: queue_rep_def chain_rep_def push_heap_def Let_def)
qed

lemma heap_ok_push:
  assumes "queue_rep mk h hp tp xs" and "heap_ok h"
  shows "heap_ok (push_heap mk h xs v)"
proof (cases xs rule: rev_cases)
  case Nil
  with assms(2) show ?thesis
    by (auto simp: push_heap_def heap_ok_iff less_Suc_eq split: if_splits)
next
  case (snoc ys x)
  with queue_rep_last [of mk h hp tp ys x] assms have "fst x < fresh h"
    by (auto dest: heap_ok_less)
  with assms(2) snoc show ?thesis
    by (auto simp: push_heap_def heap_ok_iff less_Suc_eq split: if_splits)
qed

lemma push_heap_simps [simp]:
  "fresh (push_heap mk h xs v) = Suc (fresh h)"
  "room (push_heap mk h xs v) = room h - 1"
  by (simp_all add: push_heap_def Let_def)

lemma push_heap_frame:
  assumes "a \<notin> fst ` set xs" and "a \<noteq> fresh h"
  shows "cells (push_heap mk h xs v) a = cells h a"
  using assms last_in_set [of xs] by (auto simp: push_heap_def Let_def)

text \<open>
  Taking the node between \<open>as\<close> and \<open>bs\<close> out of a list: its neighbours are joined and its cell is
  released. The remaining nodes form a list again.
\<close>

lemma dll_unlink:
  assumes d: "dll mk h None (as @ x # bs) None" and dist: "distinct (map fst (as @ x # bs))"
    and out: "\<And>a. a \<notin> fst ` set (as @ x # bs) \<Longrightarrow> cells h' a = cells h a"
    and gone: "cells h' (fst x) = None"
    and lasta: "as \<noteq> [] \<Longrightarrow> cells h' (fst (last as)) =
                 Some (mk (last_addr None (butlast as)) (snd (last as)) (first_addr bs None))"
    and firstb: "\<And>b bs'. bs = b # bs' \<Longrightarrow>
                 cells h' (fst b) = Some (mk (last_addr None as) (snd b) (first_addr bs' None))"
    and inner: "\<And>a. a \<in> fst ` set (butlast as) \<union> fst ` set (tl bs) \<Longrightarrow> cells h' a = cells h a"
  shows "dll mk h' None (as @ bs) None"
proof -
  have "dll mk h' None as (first_addr bs None)"
  proof (cases as rule: rev_cases)
    case (snoc as' a)
    then have "dll mk h' None as' (Some (fst a)) = dll mk h None as' (Some (fst a))"
      by (intro dll_cong_cells) (use inner in auto)
    with snoc d lasta show ?thesis by simp
  qed simp
  moreover have "dll mk h' (last_addr None as) bs None"
  proof (cases bs)
    case (Cons b bs')
    then have "dll mk h' (Some (fst b)) bs' None = dll mk h (Some (fst b)) bs' None"
      by (intro dll_cong_cells) (use inner in auto)
    with Cons d firstb show ?thesis by simp
  qed simp
  ultimately show ?thesis by simp
qed

end
