(* ===== verification/Interfaces.thy ===== *)
theory Interfaces
  imports Prelude
begin

text \<open>
  The contracts between components, as locales. \<open>fifo\<close>: a bounded queue whose \<open>push\<close> appends and
  whose \<open>pop\<close> takes the head; the thread pool's task queue provides it. \<open>dispatch_queue\<close>: a queue
  from which the first runnable element is taken; \<open>queue_util.c\<close> provides it to the thread
  library. While every element is runnable, a dispatch queue is a first-in first-out queue
  (the \<open>sublocale\<close>).
\<close>

section \<open>Runs of operations\<close>

fun push_all :: "('e \<Rightarrow> 's \<Rightarrow> 's res) \<Rightarrow> 'e list \<Rightarrow> 's \<Rightarrow> 's res" where
  "push_all push [] s = Inr s"
| "push_all push (x # xs) s = bind_res (push x s) (push_all push xs)"

fun pop_times :: "('s \<Rightarrow> ('e option \<times> 's) res) \<Rightarrow> nat \<Rightarrow> 's \<Rightarrow> ('e option list \<times> 's) res" where
  "pop_times pop 0 s = Inr ([], s)"
| "pop_times pop (Suc n) s =
     bind_res (pop s) (\<lambda>(x, s1). bind_res (pop_times pop n s1) (\<lambda>(xs, s2). Inr (x # xs, s2)))"

section \<open>First in, first out\<close>

locale fifo =
  fixes rep :: "'s \<Rightarrow> 'e list \<Rightarrow> bool"
    and admissible :: "'e \<Rightarrow> bool"
    and room_of :: "'s \<Rightarrow> nat"
    and push :: "'e \<Rightarrow> 's \<Rightarrow> 's res"
    and pop :: "'s \<Rightarrow> ('e option \<times> 's) res"
  assumes push_ok: "\<lbrakk>rep s xs; admissible x; 0 < room_of s\<rbrakk> \<Longrightarrow>
      \<exists>s'. push x s = Inr s' \<and> rep s' (xs @ [x]) \<and> Suc (room_of s') = room_of s"
    and pop_ok: "rep s (x # xs) \<Longrightarrow>
      \<exists>s'. pop s = Inr (Some x, s') \<and> rep s' xs \<and> room_of s' = Suc (room_of s)"
    and pop_empty: "rep s [] \<Longrightarrow> pop s = Inr (None, s)"
begin

lemma push_all_ok:
  "\<lbrakk>rep s xs; \<forall>y\<in>set ys. admissible y; length ys \<le> room_of s\<rbrakk> \<Longrightarrow>
   \<exists>s'. push_all push ys s = Inr s' \<and> rep s' (xs @ ys) \<and> room_of s' + length ys = room_of s"
proof (induction ys arbitrary: s xs)
  case Nil
  then show ?case by simp
next
  case (Cons y ys)
  then obtain s1 where s1: "push y s = Inr s1" "rep s1 (xs @ [y])" "Suc (room_of s1) = room_of s"
    using push_ok [of s xs y] by force
  with Cons.prems obtain s2 where "push_all push ys s1 = Inr s2" "rep s2 ((xs @ [y]) @ ys)"
    "room_of s2 + length ys = room_of s1"
    using Cons.IH [of s1 "xs @ [y]"] by force
  with s1 show ?case by auto
qed

lemma pop_times_ok:
  "\<lbrakk>rep s (xs @ ys)\<rbrakk> \<Longrightarrow>
   \<exists>s'. pop_times pop (length xs) s = Inr (map Some xs, s') \<and> rep s' ys \<and>
        room_of s' = room_of s + length xs"
proof (induction xs arbitrary: s)
  case Nil
  then show ?case by simp
next
  case (Cons x xs)
  then obtain s1 where s1: "pop s = Inr (Some x, s1)" "rep s1 (xs @ ys)" "room_of s1 = Suc (room_of s)"
    using pop_ok [of s x "xs @ ys"] by force
  then show ?case using Cons.IH [of s1] by force
qed

text \<open>What goes in comes out, once each and in the same order.\<close>

lemma transfer_all:
  assumes "rep s []" and "\<forall>y\<in>set ys. admissible y" and "length ys \<le> room_of s"
  obtains s1 s2 where "push_all push ys s = Inr s1"
    "pop_times pop (length ys) s1 = Inr (map Some ys, s2)" "rep s2 []" "pop s2 = Inr (None, s2)"
proof -
  obtain s1 where s1: "push_all push ys s = Inr s1" "rep s1 (ys @ [])"
    using push_all_ok [OF assms] by auto
  obtain s2 where "pop_times pop (length ys) s1 = Inr (map Some ys, s2)" "rep s2 []"
    using pop_times_ok [OF s1(2)] by auto
  with s1 show ?thesis by (intro that) (auto intro: pop_empty)
qed

text \<open>One turn of a ring: an element is put at the end and the first is taken.\<close>

lemma turn:
  assumes "rep s xs" and "admissible x" and "0 < room_of s"
  obtains s1 s2 where "push x s = Inr s1" "pop s1 = Inr (Some (hd (xs @ [x])), s2)"
    "rep s2 (tl (xs @ [x]))" "room_of s2 = room_of s"
proof -
  obtain s1 where s1: "push x s = Inr s1" "rep s1 (xs @ [x])" "Suc (room_of s1) = room_of s"
    using push_ok [OF assms] by auto
  have "xs @ [x] = hd (xs @ [x]) # tl (xs @ [x])" by simp
  with s1(2) obtain s2 where s2: "pop s1 = Inr (Some (hd (xs @ [x])), s2)" "rep s2 (tl (xs @ [x]))"
    "room_of s2 = Suc (room_of s1)"
    using pop_ok [of s1 "hd (xs @ [x])" "tl (xs @ [x])"] by metis
  show ?thesis by (rule that [OF s1(1) s2(1,2)]) (use s1(3) s2(3) in simp)
qed

end

section \<open>First runnable, first out\<close>

locale dispatch_queue =
  fixes rep :: "'s \<Rightarrow> 'e list \<Rightarrow> bool"
    and legal :: "'e \<Rightarrow> bool"
    and runnable :: "'e \<Rightarrow> bool"
    and room_of :: "'s \<Rightarrow> nat"
    and enq :: "'e \<Rightarrow> 's \<Rightarrow> 's res"
    and deq :: "'s \<Rightarrow> ('e option \<times> 's) res"
  assumes enq_ok: "\<lbrakk>rep s xs; legal x; 0 < room_of s\<rbrakk> \<Longrightarrow>
      \<exists>s'. enq x s = Inr s' \<and> rep s' (xs @ [x]) \<and> Suc (room_of s') = room_of s"
    and deq_first: "\<lbrakk>rep s (as @ x # bs); \<forall>y\<in>set as. \<not> runnable y; runnable x; as = [] \<or> bs \<noteq> []\<rbrakk> \<Longrightarrow>
      \<exists>s'. deq s = Inr (Some x, s') \<and> rep s' (as @ bs) \<and> room_of s' = Suc (room_of s)"
    and deq_idle: "\<lbrakk>rep s xs; \<forall>x\<in>set xs. \<not> runnable x\<rbrakk> \<Longrightarrow> deq s = Inr (None, s)"
begin

text \<open>
  An element that is not runnable is put at the end and waits: while another element is runnable,
  that one is taken, and the queue stays usable.
\<close>

lemma park:
  assumes "rep s (as @ x # bs)" and "\<forall>y\<in>set as. \<not> runnable y" and "runnable x"
    and "legal w" and "0 < room_of s"
  obtains s1 s2 where "enq w s = Inr s1" "deq s1 = Inr (Some x, s2)"
    "rep s2 (as @ bs @ [w])" "room_of s2 = room_of s"
proof -
  obtain s1 where s1: "enq w s = Inr s1" "rep s1 (as @ x # bs @ [w])" "Suc (room_of s1) = room_of s"
    using enq_ok [OF assms(1,4,5)] by auto
  obtain s2 where s2: "deq s1 = Inr (Some x, s2)" "rep s2 (as @ bs @ [w])"
    "room_of s2 = Suc (room_of s1)"
    using deq_first [OF s1(2) assms(2,3)] by auto
  show ?thesis by (rule that [OF s1(1) s2(1,2)]) (use s1(3) s2(3) in simp)
qed

end

sublocale dispatch_queue \<subseteq> ring: fifo
  "\<lambda>s xs. rep s xs \<and> (\<forall>x\<in>set xs. runnable x)" "\<lambda>x. legal x \<and> runnable x" room_of enq deq
proof unfold_locales
  fix s xs x
  assume "rep s xs \<and> (\<forall>x\<in>set xs. runnable x)" and "legal x \<and> runnable x" and "0 < room_of s"
  then show "\<exists>s'. enq x s = Inr s' \<and> (rep s' (xs @ [x]) \<and> (\<forall>x\<in>set (xs @ [x]). runnable x)) \<and>
      Suc (room_of s') = room_of s"
    using enq_ok [of s xs x] by auto
next
  fix s x xs
  assume "rep s (x # xs) \<and> (\<forall>x\<in>set (x # xs). runnable x)"
  then show "\<exists>s'. deq s = Inr (Some x, s') \<and> (rep s' xs \<and> (\<forall>x\<in>set xs. runnable x)) \<and>
      room_of s' = Suc (room_of s)"
    using deq_first [of s "[]" x xs] by auto
next
  fix s
  assume "rep s [] \<and> (\<forall>x\<in>set []. runnable x)"
  then show "deq s = Inr (None, s)" using deq_idle [of s "[]"] by auto
qed

end
