(* ===== verification/Queue_Refine.thy ===== *)
theory Queue_Refine
  imports Queue_Util Linked_Lists Interfaces
begin

text \<open>
  The operations of \<open>queue_util.c\<close> against lists. \<open>run_queue s xs\<close>: the run queue of \<open>s\<close> holds
  exactly the nodes \<open>xs\<close> (address and thread pointer of each, in order), with its tail pointer at
  the last. \<open>run_chain\<close> says the same but for the tail pointer. \<open>kthread_list\<close> is the same for
  the list of kernel threads.
\<close>

abbreviation mkq :: "ptr \<Rightarrow> ptr \<Rightarrow> ptr \<Rightarrow> mypthread_queue_node" where
  "mkq p v n \<equiv> \<lparr>q_prev = p, q_th = v, q_next = n\<rparr>"

abbreviation mkk :: "ptr \<Rightarrow> ptr \<Rightarrow> ptr \<Rightarrow> mykthread_ll_node" where
  "mkk p v n \<equiv> \<lparr>k_prev = p, k_kth = v, k_next = n\<rparr>"

type_synonym entries = "(nat \<times> ptr) list"

definition run_chain :: "'a qstate_scheme \<Rightarrow> entries \<Rightarrow> bool" where
  "run_chain s xs \<longleftrightarrow> chain_rep mkq (qnodes s) (q_head s) xs \<and> heap_ok (qnodes s)"

definition run_queue :: "'a qstate_scheme \<Rightarrow> entries \<Rightarrow> bool" where
  "run_queue s xs \<longleftrightarrow> queue_rep mkq (qnodes s) (q_head s) (q_tail s) xs \<and> heap_ok (qnodes s)"

definition all_known :: "tstore \<Rightarrow> entries \<Rightarrow> bool" where
  "all_known T xs \<longleftrightarrow> (\<forall>x\<in>set xs. known T (snd x))"

lemma run_queue_chain: "run_queue s xs \<Longrightarrow> run_chain s xs"
  by (auto simp: run_queue_def run_chain_def intro: queue_rep_chain)

section \<open>Adding a node\<close>

lemma create_node_ok:
  "0 < room N \<Longrightarrow> create_mypthread_queue_node data N =
     Inr (Some (fresh N), N\<lparr>cells := (cells N)(fresh N \<mapsto> mkq None data None),
                             fresh := Suc (fresh N), room := room N - 1\<rparr>)"
  by (simp add: create_mypthread_queue_node_def malloc_room)

lemma create_node_full: "room N = 0 \<Longrightarrow> create_mypthread_queue_node data N = Inl NullDeref"
  by (simp add: create_mypthread_queue_node_def malloc_room)

lemma ll_add_eq:
  assumes rep: "queue_rep mkq N hp tp xs" and ok: "heap_ok N" and room: "0 < room N"
  shows "ll_add data hp tp N =
     Inr (if xs = [] then Some (fresh N) else hp, Some (fresh N), push_heap mkq N xs data)"
proof (cases xs rule: rev_cases)
  case Nil
  with rep have "hp = None" by (simp add: queue_rep_def)
  with Nil room show ?thesis by (simp add: ll_add_def create_node_ok push_heap_def)
next
  case (snoc ys x)
  with queue_rep_addr [OF rep ok] queue_rep_last [of mkq N hp tp ys x] rep room show ?thesis
    by (auto simp: ll_add_def create_node_ok push_heap_def fun_upd_twist)
qed

abbreviation enqueued :: "'a qstate_scheme \<Rightarrow> entries \<Rightarrow> ptr \<Rightarrow> 'a qstate_scheme" where
  "enqueued s xs data \<equiv>
     s\<lparr>q_head := if xs = [] then Some (fresh (qnodes s)) else q_head s,
       q_tail := Some (fresh (qnodes s)), qnodes := push_heap mkq (qnodes s) xs data\<rparr>"

lemma enqueue_eq:
  assumes "run_queue s xs" and "0 < room (qnodes s)"
  shows "mypthread_enqueue data s = Inr (enqueued s xs data)"
  using assms ll_add_eq [of "qnodes s" "q_head s" "q_tail s" xs data]
  by (simp add: mypthread_enqueue_def run_queue_def)

lemma run_queue_enqueued:
  assumes "run_queue s xs"
  shows "run_queue (enqueued s xs data) (xs @ [(fresh (qnodes s), data)])"
  using assms queue_rep_push [of mkq "qnodes s" "q_head s" "q_tail s" xs data]
    heap_ok_push [of mkq "qnodes s" "q_head s" "q_tail s" xs data]
  by (simp add: run_queue_def)

lemma enqueue_full: "room (qnodes s) = 0 \<Longrightarrow> mypthread_enqueue data s = Inl NullDeref"
  by (simp add: mypthread_enqueue_def ll_add_def create_node_full)

section \<open>Taking the first active thread out\<close>

lemma all_known_simps [simp]:
  "all_known T []"
  "all_known T (x # xs) \<longleftrightarrow> known T (snd x) \<and> all_known T xs"
  "all_known T (xs @ ys) \<longleftrightarrow> all_known T xs \<and> all_known T ys"
  by (auto simp: all_known_def)

lemma find_active_loop_spec:
  "\<lbrakk>dll mkq N p xs None; all_known T xs; length xs < fuel\<rbrakk> \<Longrightarrow>
   find_active_loop fuel N T (first_addr xs None) =
     Inr (case split_first (\<lambda>x. active T (snd x)) xs of
            None \<Rightarrow> None | Some (as, x, bs) \<Rightarrow> Some (fst x))"
proof (induction xs arbitrary: p fuel)
  case Nil
  then show ?case by (cases fuel) auto
next
  case (Cons x xs)
  then obtain f where f: "fuel = Suc f" by (cases fuel) auto
  from Cons.prems obtain a t where t: "snd x = Some a" "T a = Some t"
    by (auto elim: knownE)
  show ?case using Cons.prems Cons.IH [of "Some (fst x)" f] f t
    by (auto split: option.splits)
qed

text \<open>The cells after \<open>x\<close>, between \<open>as\<close> and \<open>bs\<close>, was unlinked and freed.\<close>

definition unlinked_cells ::
  "(nat \<rightharpoonup> mypthread_queue_node) \<Rightarrow> entries \<Rightarrow> nat \<times> ptr \<Rightarrow> entries \<Rightarrow> (nat \<rightharpoonup> mypthread_queue_node)"
where
  "unlinked_cells c as x bs =
     (let c1 = (case bs of [] \<Rightarrow> c
                | b # bs' \<Rightarrow> c(fst b \<mapsto> mkq (last_addr None as) (snd b) (first_addr bs' None)));
          c2 = (if as = [] then c1
                else c1(fst (last as) \<mapsto>
                       mkq (last_addr None (butlast as)) (snd (last as)) (first_addr bs None)))
      in c2(fst x := None))"

lemma unlinked_out:
  assumes "a \<notin> fst ` set (as @ x # bs)"
  shows "unlinked_cells c as x bs a = c a"
proof -
  have "as \<noteq> [] \<Longrightarrow> fst (last as) \<noteq> a" using assms last_in_set [of as] by auto
  with assms show ?thesis by (cases bs) (auto simp: unlinked_cells_def Let_def)
qed

lemma unlinked_dll:
  assumes d: "dll mkq N None (as @ x # bs) None" and dist: "distinct (map fst (as @ x # bs))"
    and c: "cells N' = unlinked_cells (cells N) as x bs"
  shows "dll mkq N' None (as @ bs) None"
proof (rule dll_unlink [OF d dist])
  show "cells N' a = cells N a" if "a \<notin> fst ` set (as @ x # bs)" for a
    using that by (simp add: c unlinked_out)
  show "cells N' (fst x) = None" by (simp add: c unlinked_cells_def Let_def)
  show "cells N' (fst (last as)) =
      Some (mkq (last_addr None (butlast as)) (snd (last as)) (first_addr bs None))" if "as \<noteq> []"
    using that dist by (cases as rule: rev_cases) (auto simp: c unlinked_cells_def Let_def)
  show "cells N' (fst b) = Some (mkq (last_addr None as) (snd b) (first_addr bs' None))"
    if "bs = b # bs'" for b bs'
    using that dist last_in_set [of as] by (auto simp: c unlinked_cells_def Let_def intro: rev_image_eqI)
  show "cells N' a = cells N a" if "a \<in> fst ` set (butlast as) \<union> fst ` set (tl bs)" for a
    using that dist by (cases as rule: rev_cases; cases bs)
      (auto simp: c unlinked_cells_def Let_def intro: rev_image_eqI)
qed

lemma unlink_node_eq:
  assumes d: "dll mkq (qnodes s) None (as @ x # bs) None"
    and dist: "distinct (map fst (as @ x # bs))"
    and hp: "q_head s = first_addr (as @ x # bs) None"
  shows "unlink_node (Some (fst x)) s =
     Inr (snd x, s\<lparr>q_head := first_addr (as @ bs) None,
                     qnodes := (qnodes s)\<lparr>cells := unlinked_cells (cells (qnodes s)) as x bs,
                                          room := Suc (room (qnodes s))\<rparr>\<rparr>)"
proof -
  have x: "cells (qnodes s) (fst x) = Some (mkq (last_addr None as) (snd x) (first_addr bs None))"
    using d by simp
  have hx: "first_addr ys (Some (fst y)) \<noteq> Some (fst x)" if "as = ys @ [y]" for ys y
    using that dist by (cases ys) auto
  show ?thesis
    using d hp x dist hx
    by (cases as rule: rev_cases; cases bs)
      (simp_all add: unlink_node_def unlinked_cells_def Let_def)
qed

abbreviation unlinked :: "'a qstate_scheme \<Rightarrow> entries \<Rightarrow> nat \<times> ptr \<Rightarrow> entries \<Rightarrow> 'a qstate_scheme"
where
  "unlinked s as x bs \<equiv>
     s\<lparr>q_head := first_addr (as @ bs) None,
       qnodes := (qnodes s)\<lparr>cells := unlinked_cells (cells (qnodes s)) as x bs,
                            room := Suc (room (qnodes s))\<rparr>\<rparr>"

lemma run_chain_dest:
  assumes "run_chain s xs"
  shows "dll mkq (qnodes s) None xs None" and "distinct (map fst xs)"
    and "q_head s = first_addr xs None" and "heap_ok (qnodes s)"
    and "a \<in> fst ` set xs \<Longrightarrow> a < fresh (qnodes s)"
  using assms chain_rep_addr [of mkq "qnodes s" "q_head s" xs a]
  by (auto simp: run_chain_def chain_rep_def)

lemma run_chain_unlinked:
  assumes "run_chain s (as @ x # bs)"
  shows "run_chain (unlinked s as x bs) (as @ bs)"
proof -
  note c = run_chain_dest [OF assms]
  let ?N = "(qnodes s)\<lparr>cells := unlinked_cells (cells (qnodes s)) as x bs,
                        room := Suc (room (qnodes s))\<rparr>"
  have "heap_ok ?N"
    unfolding heap_ok_iff
  proof (intro allI impI)
    fix a v assume v: "cells ?N a = Some v"
    show "a < fresh ?N"
    proof (cases "a \<in> fst ` set (as @ x # bs)")
      case True
      with c(5) show ?thesis by simp
    next
      case False
      with v have "cells (qnodes s) a = Some v" by (simp add: unlinked_out)
      with c(4) show ?thesis by (simp add: heap_ok_less)
    qed
  qed
  then show ?thesis
    using unlinked_dll [OF c(1,2), of ?N] c(2) by (simp add: run_chain_def chain_rep_def)
qed

text \<open>
  What the dispatcher's dequeue does to a run queue \<open>xs\<close>: the first active entry \<open>x\<close> leaves it
  from wherever it stands, and the entries before and after it keep their order.
\<close>

abbreviation first_active :: "tstore \<Rightarrow> entries \<Rightarrow> (entries \<times> (nat \<times> ptr) \<times> entries) option" where
  "first_active T xs \<equiv> split_first (\<lambda>x. active T (snd x)) xs"

lemma find_active_run_chain:
  assumes "run_chain s xs" and "all_known (thr s) xs"
  shows "find_active_loop (Suc (fresh (qnodes s))) (qnodes s) (thr s) (q_head s) =
     Inr (case first_active (thr s) xs of None \<Rightarrow> None | Some (as, x, bs) \<Rightarrow> Some (fst x))"
  using assms chain_rep_length [of mkq "qnodes s" "q_head s" xs]
    find_active_loop_spec [of "qnodes s" None xs "thr s" "Suc (fresh (qnodes s))"]
  by (simp add: run_chain_def chain_rep_def)

lemma dequeue_none:
  assumes "run_chain s xs" and "all_known (thr s) xs" and "first_active (thr s) xs = None"
  shows "mypthread_dequeue_first_active s = Inr (None, s)"
  using find_active_run_chain [OF assms(1,2)] assms(3)
  by (simp add: mypthread_dequeue_first_active_def)

lemma dequeue_some:
  assumes "run_chain s xs" and "all_known (thr s) xs"
    and "first_active (thr s) xs = Some (as, x, bs)"
  shows "mypthread_dequeue_first_active s = Inr (snd x, unlinked s as x bs)"
proof -
  from assms(3) have xs: "xs = as @ x # bs" by (simp add: split_first_Some)
  note c = run_chain_dest [OF assms(1), unfolded xs]
  show ?thesis
    using find_active_run_chain [OF assms(1,2)] assms(3) unlink_node_eq [OF c(1-3)]
    by (simp add: mypthread_dequeue_first_active_def)
qed

text \<open>
  The tail pointer is not written. It still points at the last node unless the node taken out was
  the last of several.
\<close>

lemma run_queue_unlinked:
  assumes "run_queue s (as @ x # bs)" and "as = [] \<or> bs \<noteq> []"
  shows "run_queue (unlinked s as x bs) (as @ bs)"
  using assms run_chain_unlinked [of s as x bs]
  by (auto simp: run_queue_def run_chain_def queue_rep_def)

lemma stale_tail:
  assumes "run_queue s (as @ [x])" and "as \<noteq> []"
  shows "run_chain (unlinked s as x []) as" and "q_tail (unlinked s as x []) = Some (fst x)"
    and "cells (qnodes (unlinked s as x [])) (fst x) = None"
    and "fst x < fresh (qnodes (unlinked s as x []))"
  using assms run_chain_unlinked [of s as x "[]"] run_chain_dest(5) [of s "as @ [x]" "fst x"]
  by (auto simp: run_queue_def run_chain_def queue_rep_def unlinked_cells_def Let_def)

lemma enqueue_stale_tail:
  assumes "run_chain s xs" and "xs \<noteq> []" and "q_tail s = Some a" and "cells (qnodes s) a = None"
    and "a < fresh (qnodes s)" and "0 < room (qnodes s)"
  shows "mypthread_enqueue data s = Inl Dangling"
  using assms by (simp add: mypthread_enqueue_def ll_add_def create_node_ok run_chain_def chain_rep_def)

section \<open>Searching and waking\<close>

definition th_has_id :: "tstore \<Rightarrow> int \<Rightarrow> ptr \<Rightarrow> bool" where
  "th_has_id T i p = (case load_th T p of Inl _ \<Rightarrow> False | Inr t \<Rightarrow> th_id t = i)"

lemma mypthread_get_loop_spec:
  "\<lbrakk>dll mkq N p xs None; all_known T xs; length xs < fuel\<rbrakk> \<Longrightarrow>
   mypthread_get_loop fuel N T i (first_addr xs None) =
     Inr (Option.bind (find (\<lambda>x. th_has_id T i (snd x)) xs) snd)"
proof (induction xs arbitrary: p fuel)
  case Nil
  then show ?case by (cases fuel) auto
next
  case (Cons x xs)
  then obtain f where f: "fuel = Suc f" by (cases fuel) auto
  from Cons.prems obtain a t where t: "snd x = Some a" "T a = Some t"
    by (auto elim: knownE)
  show ?case using Cons.prems Cons.IH [of "Some (fst x)" f] f t
    by (auto simp: th_has_id_def)
qed

lemma mypthread_get_run_chain:
  assumes "run_chain s xs" and "all_known (thr s) xs"
  shows "mypthread_get i s =
     Inr (Option.bind (find (\<lambda>x. th_has_id (thr s) i (snd x)) xs) snd)"
  using assms chain_rep_length [of mkq "qnodes s" "q_head s" xs]
    mypthread_get_loop_spec [of "qnodes s" None xs "thr s" "Suc (fresh (qnodes s))"]
  by (simp add: mypthread_get_def run_chain_def chain_rep_def)

text \<open>\<open>wake P A T\<close>: the threads pointed to from \<open>A\<close> that satisfy \<open>P\<close> become active.\<close>

definition wake :: "(mypthread_t \<Rightarrow> bool) \<Rightarrow> ptr set \<Rightarrow> tstore \<Rightarrow> tstore" where
  "wake P A T = (\<lambda>a. if Some a \<in> A
                     then map_option (\<lambda>t. if P t then t\<lparr>th_state := PS_ACTIVE\<rparr> else t) (T a)
                     else T a)"

lemma wake_empty [simp]: "wake P {} T = T"
  by (simp add: wake_def)

lemma wake_wake:
  assumes "\<And>t. P (t\<lparr>th_state := PS_ACTIVE\<rparr>) = P t"
  shows "wake P A (wake P B T) = wake P (A \<union> B) T"
proof
  fix a
  show "wake P A (wake P B T) a = wake P (A \<union> B) T a"
    using assms by (cases "T a") (auto simp: wake_def)
qed

lemma known_wake [simp]: "known (wake P A T) p = known T p"
  by (auto simp: known_def wake_def split: option.splits)

lemma all_known_wake [simp]: "all_known (wake P A T) xs = all_known T xs"
  by (simp add: all_known_def)

lemma wake_single:
  assumes "T a = Some t"
  shows "wake P {Some a} T = (if P t then T(a \<mapsto> t\<lparr>th_state := PS_ACTIVE\<rparr>) else T)"
  using assms by (auto simp: wake_def fun_eq_iff)

lemma update_waiting_loop_spec:
  "\<lbrakk>dll mkq N p xs None; all_known T xs; length xs < fuel\<rbrakk> \<Longrightarrow>
   update_waiting_loop fuel N T i (first_addr xs None) =
     Inr (wake (\<lambda>t. dependent_th t = i) (snd ` set xs) T)"
proof (induction xs arbitrary: p fuel T)
  case Nil
  then show ?case by (cases fuel) auto
next
  case (Cons x xs)
  let ?P = "\<lambda>t. dependent_th t = i"
  obtain f where f: "fuel = Suc f" using Cons.prems by (cases fuel) auto
  from Cons.prems obtain a t where t: "snd x = Some a" "T a = Some t"
    by (auto elim: knownE)
  have "update_waiting_loop fuel N T i (first_addr (x # xs) None) =
      update_waiting_loop f N (wake ?P {snd x} T) i (first_addr xs None)"
    using Cons.prems f t by (simp add: wake_single)
  also have "\<dots> = Inr (wake ?P (snd ` set xs) (wake ?P {snd x} T))"
    using Cons.prems f by (intro Cons.IH) auto
  also have "\<dots> = Inr (wake ?P (snd ` set (x # xs)) T)"
    by (simp add: wake_wake)
  finally show ?case .
qed

text \<open>A walk over a list with a thread whose control block is gone.\<close>

lemma update_waiting_loop_unknown:
  "\<lbrakk>dll mkq N p xs None; \<forall>x\<in>set xs. snd x \<noteq> None; x \<in> set xs; \<not> known T (snd x); length xs < fuel\<rbrakk> \<Longrightarrow>
   update_waiting_loop fuel N T i (first_addr xs None) = Inl Dangling"
proof (induction xs arbitrary: p fuel T)
  case (Cons y ys)
  obtain f where f: "fuel = Suc f" using Cons.prems(5) by (cases fuel) auto
  obtain b where b: "snd y = Some b" using Cons.prems(2) by auto
  show ?case
  proof (cases "T b")
    case None
    with Cons.prems(1) f b show ?thesis by simp
  next
    case (Some t)
    then have xy: "x \<in> set ys" using Cons.prems(3,4) b by (auto simp: known_def)
    have "update_waiting_loop fuel N T i (first_addr (y # ys) None) =
        update_waiting_loop f N (wake (\<lambda>t. dependent_th t = i) {snd y} T) i (first_addr ys None)"
      using Cons.prems(1) f b Some by (simp add: wake_single)
    also have "\<dots> = Inl Dangling"
      using Cons.prems f xy by (intro Cons.IH) auto
    finally show ?thesis .
  qed
qed simp

lemma update_waiting_run_chain:
  assumes "run_chain s xs" and "all_known (thr s) xs"
  shows "mypthread_update_waiting_threads i s =
     Inr (s\<lparr>thr := wake (\<lambda>t. dependent_th t = i) (snd ` set xs) (thr s)\<rparr>)"
  using assms chain_rep_length [of mkq "qnodes s" "q_head s" xs]
    update_waiting_loop_spec [of "qnodes s" None xs "thr s" "Suc (fresh (qnodes s))"]
  by (simp add: mypthread_update_waiting_threads_def run_chain_def chain_rep_def)

section \<open>Releasing a list\<close>

lemma ll_free_loop_spec:
  "\<lbrakk>dll mkq N p xs None; distinct (map fst xs); all_known T xs; length xs < fuel\<rbrakk> \<Longrightarrow>
   ll_free_loop fuel (first_addr xs None) N T =
     Inr (N\<lparr>cells := (cells N) |` (- fst ` set xs), room := room N + length xs\<rparr>,
          wake (\<lambda>_. True) (snd ` set xs) T)"
proof (induction xs arbitrary: p fuel N T)
  case Nil
  then show ?case by (cases fuel) (auto simp: Compl_empty_eq)
next
  case (Cons x xs)
  obtain f where f: "fuel = Suc f" using Cons.prems by (cases fuel) auto
  from Cons.prems obtain a t where t: "snd x = Some a" "T a = Some t"
    by (auto elim: knownE)
  let ?N = "N\<lparr>cells := (cells N)(fst x := None), room := Suc (room N)\<rparr>"
  have "ll_free_loop fuel (first_addr (x # xs) None) N T =
      ll_free_loop f (first_addr xs None) ?N (wake (\<lambda>_. True) {snd x} T)"
    using Cons.prems f t by (simp add: wake_single)
  also have "\<dots> = Inr (?N\<lparr>cells := (cells ?N) |` (- fst ` set xs), room := room ?N + length xs\<rparr>,
          wake (\<lambda>_. True) (snd ` set xs) (wake (\<lambda>_. True) {snd x} T))"
  proof (rule Cons.IH)
    show "dll mkq ?N (Some (fst x)) xs None"
      using Cons.prems(1,2) dll_cong_cells [of xs ?N N mkq "Some (fst x)" None] by auto
  qed (use Cons.prems f in auto)
  also have "(cells ?N) |` (- fst ` set xs) = (cells N) |` (- fst ` set (x # xs))"
    by (auto simp: restrict_map_def fun_eq_iff)
  finally show ?case by (simp add: wake_wake)
qed

text \<open>
  \<open>ll_free\<close>: every thread in the list becomes active, every node is released, the list is empty.
\<close>

lemma ll_free_rep:
  assumes "chain_rep mkq N hp xs" and "heap_ok N" and "all_known T xs"
  shows "ll_free hp tp N T =
     Inr (None, if xs = [] then tp else None,
          N\<lparr>cells := (cells N) |` (- fst ` set xs), room := room N + length xs\<rparr>,
          wake (\<lambda>_. True) (snd ` set xs) T)"
proof (cases xs)
  case Nil
  with assms(1) show ?thesis by (simp add: ll_free_def Compl_empty_eq)
next
  case (Cons y ys)
  with assms chain_rep_length [OF assms(1,2)]
    ll_free_loop_spec [of N None xs T "Suc (fresh N)"]
  show ?thesis by (simp add: ll_free_def chain_rep_def)
qed

text \<open>
  \<open>ll_free_one\<close>: the first thread of the list becomes active and its node is released. The tail
  pointer is not among the parameters.
\<close>

lemma ll_free_one_rep:
  assumes "chain_rep mkq N hp (x # xs)" and "all_known T [x]"
  shows "ll_free_one hp N T =
     Inr (first_addr xs None, N\<lparr>cells := (cells N)(fst x := None), room := Suc (room N)\<rparr>,
          wake (\<lambda>_. True) {snd x} T)"
proof -
  from assms(2) obtain a t where "snd x = Some a" "T a = Some t" by (auto elim: knownE)
  with assms(1) show ?thesis by (simp add: ll_free_one_def chain_rep_def wake_single)
qed

lemma ll_free_one_empty: "ll_free_one None N T = Inr (None, N, T)"
  by (simp add: ll_free_one_def)

section \<open>The kernel thread list\<close>

definition kthread_list :: "'a qstate_scheme \<Rightarrow> entries \<Rightarrow> bool" where
  "kthread_list s ks \<longleftrightarrow> queue_rep mkk (knodes s) (k_head s) (k_tail s) ks \<and> heap_ok (knodes s)"

definition kth_has_id :: "mykthread_t heap \<Rightarrow> int \<Rightarrow> ptr \<Rightarrow> bool" where
  "kth_has_id K i p = (case load K p of Inl _ \<Rightarrow> False | Inr k \<Rightarrow> kth_id k = i)"

definition kth_runs :: "mykthread_t heap \<Rightarrow> tstore \<Rightarrow> int \<Rightarrow> ptr \<Rightarrow> bool" where
  "kth_runs K T i p =
     (case load K p of Inl _ \<Rightarrow> False
      | Inr k \<Rightarrow> (case load_th T (kth_th k) of Inl _ \<Rightarrow> False | Inr t \<Rightarrow> th_id t = i))"

lemma mykthread_get_loop_spec:
  "\<lbrakk>dll mkk N p ks None; \<forall>x\<in>set ks. is_ok (load K (snd x)); length ks < fuel\<rbrakk> \<Longrightarrow>
   mykthread_get_loop fuel N K i (first_addr ks None) =
     Inr (Option.bind (find (\<lambda>x. kth_has_id K i (snd x)) ks) snd)"
proof (induction ks arbitrary: p fuel)
  case Nil
  then show ?case by (cases fuel) auto
next
  case (Cons x ks)
  then obtain f where f: "fuel = Suc f" by (cases fuel) auto
  from Cons.prems obtain k where k: "load K (snd x) = Inr k" by (auto simp: is_ok_iff)
  show ?case using Cons.prems Cons.IH [of "Some (fst x)" f] f k
    by (auto simp: kth_has_id_def)
qed

lemma mykthread_get_spec:
  assumes "kthread_list s ks" and "\<forall>x\<in>set ks. is_ok (load (kths s) (snd x))"
  shows "mykthread_get i s =
     Inr (Option.bind (find (\<lambda>x. kth_has_id (kths s) i (snd x)) ks) snd)"
  using assms chain_rep_length [of mkk "knodes s" "k_head s" ks]
    mykthread_get_loop_spec [of "knodes s" None ks "kths s" "Suc (fresh (knodes s))"]
  by (simp add: mykthread_get_def kthread_list_def queue_rep_def chain_rep_def)

lemma is_running_loop_spec:
  "\<lbrakk>dll mkk N p ks None; \<forall>x\<in>set ks. \<exists>k t. load K (snd x) = Inr k \<and> load_th T (kth_th k) = Inr t;
    length ks < fuel\<rbrakk> \<Longrightarrow>
   is_running_loop fuel N K T i (first_addr ks None) = Inr (\<exists>x\<in>set ks. kth_runs K T i (snd x))"
proof (induction ks arbitrary: p fuel)
  case Nil
  then show ?case by (cases fuel) auto
next
  case (Cons x ks)
  then obtain f where f: "fuel = Suc f" by (cases fuel) auto
  from Cons.prems obtain k t where k: "load K (snd x) = Inr k" "load_th T (kth_th k) = Inr t"
    by auto
  show ?case using Cons.prems Cons.IH [of "Some (fst x)" f] f k
    by (auto simp: kth_runs_def)
qed

lemma is_running_spec:
  assumes "kthread_list s ks"
    and "\<forall>x\<in>set ks. \<exists>k t. load (kths s) (snd x) = Inr k \<and> load_th (thr s) (kth_th k) = Inr t"
  shows "mykthread_is_running i s = Inr (\<exists>x\<in>set ks. kth_runs (kths s) (thr s) i (snd x))"
  using assms chain_rep_length [of mkk "knodes s" "k_head s" ks]
    is_running_loop_spec [of "knodes s" None ks "kths s" "thr s" "Suc (fresh (knodes s))"]
  by (simp add: mykthread_is_running_def kthread_list_def queue_rep_def chain_rep_def)

lemma mykthread_add_rep:
  assumes q: "kthread_list s ks" and room: "0 < room (knodes s)"
  obtains s' where
    "mykthread_add data s = Inr s'" "kthread_list s' (ks @ [(fresh (knodes s), data)])"
    "s' = s\<lparr>k_head := k_head s', k_tail := k_tail s', knodes := push_heap mkk (knodes s) ks data\<rparr>"
proof -
  let ?s = "s\<lparr>k_head := if ks = [] then Some (fresh (knodes s)) else k_head s,
              k_tail := Some (fresh (knodes s)), knodes := push_heap mkk (knodes s) ks data\<rparr>"
  from q have rep: "queue_rep mkk (knodes s) (k_head s) (k_tail s) ks"
    and ok: "heap_ok (knodes s)" by (simp_all add: kthread_list_def)
  have "mykthread_add data s = Inr ?s"
  proof (cases ks rule: rev_cases)
    case Nil
    with rep have "k_head s = None" by (simp add: queue_rep_def)
    with Nil room show ?thesis
      by (simp add: mykthread_add_def create_mykthread_ll_node_def malloc_room push_heap_def)
  next
    case (snoc ys x)
    with queue_rep_addr [OF rep ok] queue_rep_last [of mkk "knodes s" "k_head s" "k_tail s" ys x]
      rep room show ?thesis
      by (auto simp: mykthread_add_def create_mykthread_ll_node_def malloc_room push_heap_def
          fun_upd_twist)
  qed
  then show ?thesis
    by (rule that) (simp_all add: kthread_list_def queue_rep_push [OF rep ok] heap_ok_push [OF rep ok])
qed

section \<open>The run queue provides the dispatcher's interface\<close>

definition same_but_runq :: "'a qstate_scheme \<Rightarrow> 'a qstate_scheme \<Rightarrow> bool" where
  "same_but_runq s0 s \<longleftrightarrow>
     knodes s = knodes s0 \<and> k_head s = k_head s0 \<and> k_tail s = k_tail s0 \<and> kths s = kths s0 \<and>
     thr s = thr s0 \<and> qstate.more s = qstate.more s0"

lemma same_but_runq_refl [simp]: "same_but_runq s s"
  by (simp add: same_but_runq_def)

lemma same_but_runq_upd:
  assumes "same_but_runq s0 s"
  shows "same_but_runq s0 (s\<lparr>q_head := h, q_tail := t, qnodes := N\<rparr>)"
    and "same_but_runq s0 (s\<lparr>q_head := h, qnodes := N\<rparr>)"
  using assms by (simp_all add: same_but_runq_def)

lemma same_but_runq_thr: "same_but_runq s0 s \<Longrightarrow> thr s = thr s0"
  by (simp add: same_but_runq_def)

lemma same_but_runq_eq:
  "same_but_runq s0 s \<Longrightarrow> s = s0\<lparr>q_head := q_head s, q_tail := q_tail s, qnodes := qnodes s\<rparr>"
  by (simp add: same_but_runq_def)

text \<open>
  \<open>runq_rep s0 s ts\<close>: \<open>s\<close> is \<open>s0\<close> but for its run queue, which holds the threads \<open>ts\<close>.
\<close>

definition runq_rep :: "'a qstate_scheme \<Rightarrow> 'a qstate_scheme \<Rightarrow> nat list \<Rightarrow> bool" where
  "runq_rep s0 s ts \<longleftrightarrow>
     same_but_runq s0 s \<and> (\<forall>t\<in>set ts. thr s t \<noteq> None) \<and>
     (\<exists>xs. run_queue s xs \<and> map snd xs = map Some ts)"

lemma runq_repI:
  "\<lbrakk>same_but_runq s0 s; \<forall>t\<in>set ts. thr s t \<noteq> None; run_queue s xs; map snd xs = map Some ts\<rbrakk>
   \<Longrightarrow> runq_rep s0 s ts"
  by (auto simp: runq_rep_def)

lemma runq_repE:
  assumes "runq_rep s0 s ts"
  obtains xs where "same_but_runq s0 s" "\<forall>t\<in>set ts. thr s t \<noteq> None" "thr s = thr s0"
    "run_queue s xs" "map snd xs = map Some ts"
  using assms by (auto simp: runq_rep_def dest: same_but_runq_thr)

lemma all_known_threads:
  assumes "map snd xs = map Some ts" and "\<forall>t\<in>set ts. T t \<noteq> None"
  shows "all_known T xs"
proof -
  have "snd x \<in> Some ` set ts" if "x \<in> set xs" for x
    using that arg_cong [OF assms(1), of set] by auto
  with assms(2) show ?thesis by (fastforce simp: all_known_def known_def)
qed

lemma map_snd_split:
  assumes "map snd xs = map Some (as @ t # bs)"
  obtains as' a bs' where "xs = as' @ (a, Some t) # bs'" "map snd as' = map Some as"
    "map snd bs' = map Some bs"
proof -
  from assms obtain as' ys where 1: "xs = as' @ ys" "map snd as' = map Some as"
    "map snd ys = Some t # map Some bs"
    by (auto simp: map_eq_append_conv)
  from 1(3) obtain y bs' where "ys = y # bs'" "snd y = Some t" "map snd bs' = map Some bs" by auto
  with 1(1,2) show ?thesis by (cases y) (auto intro: that)
qed

interpretation rq: dispatch_queue "runq_rep s0" "\<lambda>t. thr s0 t \<noteq> None" "\<lambda>t. active (thr s0) (Some t)"
  "\<lambda>s. room (qnodes s)" "\<lambda>t. mypthread_enqueue (Some t)" mypthread_dequeue_first_active
  for s0 :: "'a qstate_scheme"
proof unfold_locales
  fix s :: "'a qstate_scheme" and ts t
  assume "runq_rep s0 s ts" and t: "thr s0 t \<noteq> None" and room: "0 < room (qnodes s)"
  then obtain xs where r: "same_but_runq s0 s" "\<forall>t\<in>set ts. thr s t \<noteq> None" "thr s = thr s0"
    "run_queue s xs" "map snd xs = map Some ts" by (elim runq_repE)
  have "runq_rep s0 (enqueued s xs (Some t)) (ts @ [t])"
    by (rule runq_repI [OF same_but_runq_upd(1) [OF r(1)] _ run_queue_enqueued [OF r(4)]])
      (use r t in auto)
  with enqueue_eq [OF r(4) room] room show "\<exists>s'. mypthread_enqueue (Some t) s = Inr s' \<and>
      runq_rep s0 s' (ts @ [t]) \<and> Suc (room (qnodes s')) = room (qnodes s)" by simp
next
  fix s :: "'a qstate_scheme" and as t bs
  assume "runq_rep s0 s (as @ t # bs)" and na: "\<forall>y\<in>set as. \<not> active (thr s0) (Some y)"
    and act: "active (thr s0) (Some t)" and pos: "as = [] \<or> bs \<noteq> []"
  then obtain xs where r: "same_but_runq s0 s" "\<forall>y\<in>set (as @ t # bs). thr s y \<noteq> None"
    "thr s = thr s0" "run_queue s xs" "map snd xs = map Some (as @ t # bs)" by (elim runq_repE)
  from r(5) obtain as' a bs' where sp: "xs = as' @ (a, Some t) # bs'"
    "map snd as' = map Some as" "map snd bs' = map Some bs" by (rule map_snd_split)
  have "snd y \<in> Some ` set as" if "y \<in> set as'" for y
    using that arg_cong [OF sp(2), of set] by auto
  then have fa: "first_active (thr s) xs = Some (as', (a, Some t), bs')"
    using sp(1) na act r(3) by (fastforce simp: split_first_Some)
  have "as' = [] \<or> bs' \<noteq> []" using pos sp(2,3) by auto
  with run_queue_unlinked [of s as' "(a, Some t)" bs'] r(4) sp(1)
  have q: "run_queue (unlinked s as' (a, Some t) bs') (as' @ bs')" by simp
  have "runq_rep s0 (unlinked s as' (a, Some t) bs') (as @ bs)"
    by (rule runq_repI [OF same_but_runq_upd(2) [OF r(1)] _ q]) (use r sp in auto)
  with dequeue_some [OF run_queue_chain [OF r(4)] all_known_threads [OF r(5,2)] fa]
  show "\<exists>s'. mypthread_dequeue_first_active s = Inr (Some t, s') \<and> runq_rep s0 s' (as @ bs) \<and>
      room (qnodes s') = Suc (room (qnodes s))" by simp
next
  fix s :: "'a qstate_scheme" and ts
  assume "runq_rep s0 s ts" and na: "\<forall>t\<in>set ts. \<not> active (thr s0) (Some t)"
  then obtain xs where r: "\<forall>t\<in>set ts. thr s t \<noteq> None" "thr s = thr s0"
    "run_queue s xs" "map snd xs = map Some ts" by (elim runq_repE)
  have "snd y \<in> Some ` set ts" if "y \<in> set xs" for y
    using that arg_cong [OF r(4), of set] by auto
  then have "first_active (thr s) xs = None"
    using na r(2) by (fastforce simp: split_first_None)
  with dequeue_none [OF run_queue_chain [OF r(3)] all_known_threads [OF r(4,1)]]
  show "mypthread_dequeue_first_active s = Inr (None, s)" by simp
qed

end
