(* ===== verification/Mypthread_Sched.thy ===== *)
theory Mypthread_Sched
  imports Mypthread Queue_Refine
begin

text \<open>
  How a library call gives the processor away. \<open>on_kthread\<close> says which user thread a kernel thread
  runs, \<open>runq s ts\<close> which threads the run queue holds (through the \<open>dispatch_queue\<close> interface),
  \<open>ctx_of\<close> where a thread would go on. The lemmas give the exact outcome of
  \<open>mythread_scheduler\<close> in both modes, asleep or not.
\<close>

section \<open>Views of the state\<close>

definition sems_free :: "lib \<Rightarrow> bool" where
  "sems_free s \<longleftrightarrow> sems s Mypthread_sem = 1 \<and> sems s Mutex_sem = 1 \<and>
                  sems s Kthread_sem = 1 \<and> sems s Cond_sem = 1"

definition on_kthread :: "int \<Rightarrow> nat \<Rightarrow> nat \<Rightarrow> lib \<Rightarrow> bool" where
  "on_kthread tid kth cur s \<longleftrightarrow>
     mykthread_get tid s = Inr (Some kth) \<and>
     cells (kths s) kth = Some \<lparr>kth_id = tid, kth_th = Some cur\<rparr>"

definition ctx_ptr :: "lib \<Rightarrow> nat \<Rightarrow> ptr" where
  "ctx_ptr s a = (case thr s a of None \<Rightarrow> None | Some t \<Rightarrow> th_ctx t)"

definition ctx_of :: "lib \<Rightarrow> nat \<Rightarrow> uctx option" where
  "ctx_of s a = (case ctx_ptr s a of None \<Rightarrow> None | Some p \<Rightarrow> cells (ctxs s) p)"

abbreviation runq :: "lib \<Rightarrow> nat list \<Rightarrow> bool" where
  "runq s ts \<equiv> runq_rep s s ts"

abbreviation set_cell :: "'v heap \<Rightarrow> nat \<Rightarrow> 'v \<Rightarrow> 'v heap" where
  "set_cell h a v \<equiv> h\<lparr>cells := (cells h)(a \<mapsto> v)\<rparr>"

text \<open>Kernel thread \<open>kth\<close>, whose id is \<open>tid\<close>, now runs \<open>x\<close>.\<close>

abbreviation run_on :: "int \<Rightarrow> nat \<Rightarrow> nat \<Rightarrow> mykthread_t heap \<Rightarrow> mykthread_t heap" where
  "run_on tid kth x K \<equiv> set_cell K kth \<lparr>kth_id = tid, kth_th = Some x\<rparr>"

lemma runq_iff:
  "runq s ts \<longleftrightarrow> (\<forall>t\<in>set ts. thr s t \<noteq> None) \<and> (\<exists>xs. run_queue s xs \<and> map snd xs = map Some ts)"
  by (simp add: runq_rep_def)

lemma runq_upd [simp]:
  "runq (s\<lparr>sems := f\<rparr>) ts = runq s ts"
  "runq (s\<lparr>kths := K\<rparr>) ts = runq s ts"
  "runq (s\<lparr>ctxs := C\<rparr>) ts = runq s ts"
  "runq (s\<lparr>mtxs := M\<rparr>) ts = runq s ts"
  "runq (s\<lparr>cnds := D\<rparr>) ts = runq s ts"
  "runq (s\<lparr>mypthread_count := n\<rparr>) ts = runq s ts"
  by (simp_all add: runq_iff run_queue_def)

lemma runq_thr:
  "runq s ts \<Longrightarrow> \<forall>t\<in>set ts. T t \<noteq> None \<Longrightarrow> runq (s\<lparr>thr := T\<rparr>) ts"
  by (auto simp: runq_iff run_queue_def)

lemma mykthread_get_upd [simp]:
  "mykthread_get tid (s\<lparr>thr := T\<rparr>) = mykthread_get tid s"
  "mykthread_get tid (s\<lparr>q_head := h\<rparr>) = mykthread_get tid s"
  "mykthread_get tid (s\<lparr>q_tail := t\<rparr>) = mykthread_get tid s"
  "mykthread_get tid (s\<lparr>qnodes := N\<rparr>) = mykthread_get tid s"
  by (simp_all add: mykthread_get_def)

lemma mykthread_get_lib_upd [simp]:
  "mykthread_get tid (s\<lparr>sems := f\<rparr>) = mykthread_get tid s"
  "mykthread_get tid (s\<lparr>ctxs := C\<rparr>) = mykthread_get tid s"
  "mykthread_get tid (s\<lparr>mtxs := M\<rparr>) = mykthread_get tid s"
  "mykthread_get tid (s\<lparr>cnds := D\<rparr>) = mykthread_get tid s"
  "mykthread_get tid (s\<lparr>mypthread_count := n\<rparr>) = mykthread_get tid s"
  by (simp_all add: mykthread_get_def)

lemma mykthread_get_loop_cong:
  assumes "\<And>q. map_sum id kth_id (load K' q) = map_sum id kth_id (load K q)"
  shows "mykthread_get_loop fuel N K' i p = mykthread_get_loop fuel N K i p"
proof (induction fuel arbitrary: p)
  case (Suc fuel)
  have eq: "bind_res (load K' q) (\<lambda>k. if kth_id k = i then a else b) =
      bind_res (load K q) (\<lambda>k. if kth_id k = i then a else b)" for q and a b :: "ptr res"
    using assms [of q] by (cases "load K' q"; cases "load K q") auto
  show ?case by (cases p) (simp_all add: Suc eq cong: if_cong)
qed simp

lemma mykthread_get_run_on [simp]:
  assumes "cells (kths s) kth = Some k" and "kth_id k = j"
  shows "mykthread_get i (s\<lparr>kths := run_on j kth x (kths s)\<rparr>) = mykthread_get i s"
  using assms mykthread_get_loop_cong [of "run_on j kth x (kths s)" "kths s"]
  by (simp add: mykthread_get_def load_def split: option.split)

section \<open>Semaphores\<close>

lemma sem_wait_free: "sems s n = 1 \<Longrightarrow> sem_wait n s = Inr (s\<lparr>sems := (sems s)(n := 0)\<rparr>)"
  by (simp add: sem_wait_def)

lemma sem_post_upd: "sem_post n (s\<lparr>sems := g\<rparr>) = s\<lparr>sems := g(n := Suc (g n))\<rparr>"
  by (simp add: sem_post_def)

lemmas sem_simps = sem_wait_def sem_post_def fun_upd_idem

section \<open>The scheduler\<close>

lemma deq_runq:
  assumes "runq s (as @ x # bs)" and "\<forall>y\<in>set as. \<not> active (thr s) (Some y)"
    and "active (thr s) (Some x)" and "as = [] \<or> bs \<noteq> []"
  obtains h t N where
    "mypthread_dequeue_first_active s = Inr (Some x, s\<lparr>q_head := h, q_tail := t, qnodes := N\<rparr>)"
    "runq (s\<lparr>q_head := h, q_tail := t, qnodes := N\<rparr>) (as @ bs)"
    "room N = Suc (room (qnodes s))"
proof -
  obtain s' where s': "mypthread_dequeue_first_active s = Inr (Some x, s')"
    "runq_rep s s' (as @ bs)" "room (qnodes s') = Suc (room (qnodes s))"
    using rq.deq_first [OF assms] by auto
  moreover have "s' = s\<lparr>q_head := q_head s', q_tail := q_tail s', qnodes := qnodes s'\<rparr>"
    using s'(2) by (auto simp: runq_rep_def same_but_runq_eq)
  ultimately show ?thesis
    by (intro that [where h = "q_head s'" and t = "q_tail s'" and N = "qnodes s'"])
      (auto simp: runq_rep_def)
qed

lemma enq_runq:
  assumes "runq s ts" and "thr s x \<noteq> None" and "0 < room (qnodes s)"
  obtains h t N where
    "mypthread_enqueue (Some x) s = Inr (s\<lparr>q_head := h, q_tail := t, qnodes := N\<rparr>)"
    "runq (s\<lparr>q_head := h, q_tail := t, qnodes := N\<rparr>) (ts @ [x])"
    "Suc (room N) = room (qnodes s)"
proof -
  obtain s' where s': "mypthread_enqueue (Some x) s = Inr s'"
    "runq_rep s s' (ts @ [x])" "Suc (room (qnodes s')) = room (qnodes s)"
    using rq.enq_ok [OF assms] by auto
  moreover have "s' = s\<lparr>q_head := q_head s', q_tail := q_tail s', qnodes := qnodes s'\<rparr>"
    using s'(2) by (auto simp: runq_rep_def same_but_runq_eq)
  ultimately show ?thesis
    by (intro that [where h = "q_head s'" and t = "q_tail s'" and N = "qnodes s'"])
      (auto simp: runq_rep_def)
qed

lemma setcontext_eq:
  assumes "ctx_of s a = Some c" and "c \<noteq> Ctx_uninit"
  shows "setcontext (Some a) s = Inr (Switched a c, s)"
  using assms by (auto simp: setcontext_def ctx_of_def ctx_ptr_def split: option.splits)

lemma ctx_of_upd [simp]:
  "ctx_of (s\<lparr>sems := f\<rparr>) a = ctx_of s a"
  "ctx_of (s\<lparr>kths := K\<rparr>) a = ctx_of s a"
  "ctx_of (s\<lparr>q_head := h\<rparr>) a = ctx_of s a"
  "ctx_of (s\<lparr>q_tail := t\<rparr>) a = ctx_of s a"
  "ctx_of (s\<lparr>qnodes := N\<rparr>) a = ctx_of s a"
  "ctx_of (s\<lparr>mtxs := M\<rparr>) a = ctx_of s a"
  "ctx_of (s\<lparr>cnds := D\<rparr>) a = ctx_of s a"
  "ctx_of (s\<lparr>mypthread_count := n\<rparr>) a = ctx_of s a"
  by (simp_all add: ctx_of_def ctx_ptr_def cong: option.case_cong)

lemma ctx_ptr_upd [simp]:
  "ctx_ptr (s\<lparr>sems := f\<rparr>) a = ctx_ptr s a"
  "ctx_ptr (s\<lparr>kths := K\<rparr>) a = ctx_ptr s a"
  "ctx_ptr (s\<lparr>q_head := h\<rparr>) a = ctx_ptr s a"
  "ctx_ptr (s\<lparr>q_tail := t\<rparr>) a = ctx_ptr s a"
  "ctx_ptr (s\<lparr>qnodes := N\<rparr>) a = ctx_ptr s a"
  "ctx_ptr (s\<lparr>mtxs := M\<rparr>) a = ctx_ptr s a"
  "ctx_ptr (s\<lparr>cnds := D\<rparr>) a = ctx_ptr s a"
  "ctx_ptr (s\<lparr>ctxs := C\<rparr>) a = ctx_ptr s a"
  "ctx_ptr (s\<lparr>mypthread_count := n\<rparr>) a = ctx_ptr s a"
  by (simp_all add: ctx_ptr_def)

text \<open>
  The scheduler after the dequeue has answered \<open>x\<close>: in mode 0 it sets the context of \<open>x\<close>, in
  mode 1 it first saves the context of the thread that was running.
\<close>

abbreviation waited :: "lib \<Rightarrow> lib" where
  "waited s \<equiv> s\<lparr>sems := (sems s)(Mypthread_sem := 0)\<rparr>"

lemma scheduler_set_deq:
  assumes on: "on_kthread tid kth cur s" and free: "sems_free s" and cnt: "mypthread_count s \<noteq> 0"
    and d: "mypthread_dequeue_first_active (waited s) =
              Inr (Some x, (waited s)\<lparr>q_head := h, q_tail := t, qnodes := N\<rparr>)"
    and ctx: "ctx_of s x = Some c" "c \<noteq> Ctx_uninit"
  shows "mythread_scheduler (Some kth) 0 r s =
    Inr (Switched x c, s\<lparr>q_head := h, q_tail := t, qnodes := N, kths := run_on tid kth x (kths s)\<rparr>)"
  using on free cnt d ctx
  by (simp add: mythread_scheduler_def scheduler_pass_def sems_free_def on_kthread_def
      sem_wait_free sem_post_def Let_def fun_upd_idem setcontext_eq)

lemma scheduler_swap_deq:
  assumes on: "on_kthread tid kth cur s" and free: "sems_free s" and cnt: "mypthread_count s \<noteq> 0"
    and d: "mypthread_dequeue_first_active (waited s) =
              Inr (Some x, (waited s)\<lparr>q_head := h, q_tail := t, qnodes := N\<rparr>)"
    and cur: "ctx_ptr s cur = Some p" "cells (ctxs s) p = Some old"
    and ctx: "ctx_of (s\<lparr>ctxs := set_cell (ctxs s) p (Ctx_saved r)\<rparr>) x = Some c" "c \<noteq> Ctx_uninit"
  shows "mythread_scheduler (Some kth) 1 r s =
       Inr (Switched x c, s\<lparr>q_head := h, q_tail := t, qnodes := N, kths := run_on tid kth x (kths s),
                             ctxs := set_cell (ctxs s) p (Ctx_saved r)\<rparr>)"
proof -
  from cur(1) obtain tc where "thr s cur = Some tc" "th_ctx tc = Some p"
    by (auto simp: ctx_ptr_def split: option.splits)
  moreover have "setcontext (Some x) (s\<lparr>q_head := h, q_tail := t, qnodes := N,
      kths := run_on tid kth x (kths s), ctxs := set_cell (ctxs s) p (Ctx_saved r)\<rparr>) =
    Inr (Switched x c, s\<lparr>q_head := h, q_tail := t, qnodes := N, kths := run_on tid kth x (kths s),
      ctxs := set_cell (ctxs s) p (Ctx_saved r)\<rparr>)"
    using ctx by (intro setcontext_eq) (simp_all add: ctx_of_def ctx_ptr_def cong: option.case_cong)
  ultimately show ?thesis
    using on free cnt d cur(2)
    by (simp add: mythread_scheduler_def scheduler_pass_def sems_free_def
        on_kthread_def sem_wait_free sem_post_def Let_def fun_upd_idem swapcontext_def)
qed

text \<open>With the run queue as a list: the first active thread is picked, the others keep their order.\<close>

lemma scheduler_deq:
  assumes "runq s (as @ x # bs)" and "\<forall>y\<in>set as. \<not> active (thr s) (Some y)"
    and "active (thr s) (Some x)" and "as = [] \<or> bs \<noteq> []"
  obtains h t N where
    "mypthread_dequeue_first_active (waited s) =
       Inr (Some x, (waited s)\<lparr>q_head := h, q_tail := t, qnodes := N\<rparr>)"
    "runq (s\<lparr>q_head := h, q_tail := t, qnodes := N\<rparr>) (as @ bs)"
    "room N = Suc (room (qnodes s))"
proof -
  obtain h t N where d: "mypthread_dequeue_first_active (waited s) =
      Inr (Some x, (waited s)\<lparr>q_head := h, q_tail := t, qnodes := N\<rparr>)"
    "runq ((waited s)\<lparr>q_head := h, q_tail := t, qnodes := N\<rparr>) (as @ bs)"
    "room N = Suc (room (qnodes (waited s)))"
    by (rule deq_runq [of "waited s" as x bs]) (use assms in simp_all)
  from d(2) have "runq (s\<lparr>q_head := h, q_tail := t, qnodes := N\<rparr>) (as @ bs)"
    by (simp add: runq_iff run_queue_def)
  with d(1,3) show ?thesis by (intro that) simp_all
qed

lemma scheduler_set:
  assumes on: "on_kthread tid kth cur s" and free: "sems_free s" and cnt: "mypthread_count s \<noteq> 0"
    and q: "runq s (as @ x # bs)" and na: "\<forall>y\<in>set as. \<not> active (thr s) (Some y)"
    and act: "active (thr s) (Some x)" and pos: "as = [] \<or> bs \<noteq> []"
    and ctx: "ctx_of s x = Some c" "c \<noteq> Ctx_uninit"
  obtains h t N where
    "mythread_scheduler (Some kth) 0 r s =
       Inr (Switched x c, s\<lparr>q_head := h, q_tail := t, qnodes := N, kths := run_on tid kth x (kths s)\<rparr>)"
    "runq (s\<lparr>q_head := h, q_tail := t, qnodes := N\<rparr>) (as @ bs)"
    "room N = Suc (room (qnodes s))"
proof -
  obtain h t N where d: "mypthread_dequeue_first_active (waited s) =
      Inr (Some x, (waited s)\<lparr>q_head := h, q_tail := t, qnodes := N\<rparr>)"
    "runq (s\<lparr>q_head := h, q_tail := t, qnodes := N\<rparr>) (as @ bs)"
    "room N = Suc (room (qnodes s))"
    by (rule scheduler_deq [OF q na act pos])
  from scheduler_set_deq [OF on free cnt d(1) ctx] d(2,3) show ?thesis by (rule that)
qed

lemma scheduler_swap:
  assumes on: "on_kthread tid kth cur s" and free: "sems_free s" and cnt: "mypthread_count s \<noteq> 0"
    and q: "runq s (as @ x # bs)" and na: "\<forall>y\<in>set as. \<not> active (thr s) (Some y)"
    and act: "active (thr s) (Some x)" and pos: "as = [] \<or> bs \<noteq> []"
    and cur: "ctx_ptr s cur = Some p" "cells (ctxs s) p = Some old"
    and ctx: "ctx_of (s\<lparr>ctxs := set_cell (ctxs s) p (Ctx_saved r)\<rparr>) x = Some c" "c \<noteq> Ctx_uninit"
  obtains h t N where
    "mythread_scheduler (Some kth) 1 r s =
       Inr (Switched x c, s\<lparr>q_head := h, q_tail := t, qnodes := N, kths := run_on tid kth x (kths s),
                             ctxs := set_cell (ctxs s) p (Ctx_saved r)\<rparr>)"
    "runq (s\<lparr>q_head := h, q_tail := t, qnodes := N\<rparr>) (as @ bs)"
    "room N = Suc (room (qnodes s))"
proof -
  obtain h t N where d: "mypthread_dequeue_first_active (waited s) =
      Inr (Some x, (waited s)\<lparr>q_head := h, q_tail := t, qnodes := N\<rparr>)"
    "runq (s\<lparr>q_head := h, q_tail := t, qnodes := N\<rparr>) (as @ bs)"
    "room N = Suc (room (qnodes s))"
    by (rule scheduler_deq [OF q na act pos])
  from scheduler_swap_deq [OF on free cnt d(1) cur ctx] d(2,3) show ?thesis by (rule that)
qed

text \<open>With no active thread the kernel thread sleeps in the loop and changes nothing.\<close>

lemma scheduler_sleep:
  assumes on: "on_kthread tid kth cur s" and free: "sems_free s" and cnt: "mypthread_count s \<noteq> 0"
    and q: "runq s ts" and na: "\<forall>y\<in>set ts. \<not> active (thr s) (Some y)"
  shows "mythread_scheduler (Some kth) mode r s = Inr (Sleeping (Some kth) mode (Some cur) r, s)"
proof -
  let ?s1 = "s\<lparr>sems := (sems s)(Mypthread_sem := 0)\<rparr>"
  have "mypthread_dequeue_first_active ?s1 = Inr (None, ?s1)"
    using rq.deq_idle [of ?s1 ?s1 ts] q na by simp
  then show ?thesis
    using on free cnt
    by (simp add: mythread_scheduler_def scheduler_pass_def sems_free_def on_kthread_def
        sem_wait_free sem_post_def Let_def fun_upd_idem)
qed

end
