(* ===== verification/Mypthread_Coop.thy ===== *)
theory Mypthread_Coop
  imports Mypthread_Sched
begin

text \<open>
  The library on one kernel thread (policy \<open>ULONLY\<close>), where user threads hand the processor over
  themselves. \<open>coop tid kth s cur ts\<close> is the invariant of that setting: kernel thread \<open>kth\<close> is the
  only one and runs \<open>cur\<close>; the run queue holds \<open>ts\<close>, each with a context of its own to go on
  from; the thread counter is the number of these threads; no semaphore is held.
\<close>

definition resumable :: "lib \<Rightarrow> nat \<Rightarrow> bool" where
  "resumable s t = (case ctx_of s t of None \<Rightarrow> False | Some c \<Rightarrow> c \<noteq> Ctx_uninit)"

text \<open>What hands the processor over leaves the mutexes, the condition variables and the policy alone.\<close>

definition same_objects :: "lib \<Rightarrow> lib \<Rightarrow> bool" where
  "same_objects s s' \<longleftrightarrow> mtxs s' = mtxs s \<and> cnds s' = cnds s \<and> mypthread_policy s' = mypthread_policy s"

definition coop :: "int \<Rightarrow> nat \<Rightarrow> lib \<Rightarrow> nat \<Rightarrow> nat list \<Rightarrow> bool" where
  "coop tid kth s cur ts \<longleftrightarrow>
     (\<exists>a. kthread_list s [(a, Some kth)]) \<and>
     cells (kths s) kth = Some \<lparr>kth_id = tid, kth_th = Some cur\<rparr> \<and>
     sems_free s \<and> mypthread_count s = 1 + int (length ts) \<and>
     runq s ts \<and> distinct (cur # ts) \<and> heap_ok (ctxs s) \<and>
     inj_on (ctx_ptr s) (set (cur # ts)) \<and> ctx_of s cur \<noteq> None \<and>
     (\<forall>t\<in>set ts. resumable s t)"

lemma coopD:
  assumes "coop tid kth s cur ts"
  shows "cells (kths s) kth = Some \<lparr>kth_id = tid, kth_th = Some cur\<rparr>"
    and "sems_free s" and "mypthread_count s = 1 + int (length ts)" and "runq s ts"
    and "distinct (cur # ts)" and "heap_ok (ctxs s)" and "inj_on (ctx_ptr s) (set (cur # ts))"
    and "\<forall>t\<in>set ts. resumable s t"
  using assms by (auto simp: coop_def)

lemma coop_cur:
  assumes "coop tid kth s cur ts"
  obtains t p c where "thr s cur = Some t" "th_ctx t = Some p" "ctx_ptr s cur = Some p"
    "cells (ctxs s) p = Some c"
  using assms by (auto simp: coop_def ctx_of_def ctx_ptr_def split: option.splits)

lemma coop_on_kthread:
  assumes "coop tid kth s cur ts"
  shows "on_kthread tid kth cur s"
proof -
  from assms obtain a where k: "kthread_list s [(a, Some kth)]"
    and c: "cells (kths s) kth = Some \<lparr>kth_id = tid, kth_th = Some cur\<rparr>"
    by (auto simp: coop_def)
  have "mykthread_get tid s = Inr (Some kth)"
    using mykthread_get_spec [OF k] c by (simp add: kth_has_id_def)
  with c show ?thesis by (simp add: on_kthread_def)
qed

lemma coop_is_running:
  assumes "coop tid kth s cur ts" and "thr s cur = Some t"
  shows "mykthread_is_running i s = Inr (th_id t = i)"
proof -
  from assms(1) obtain a where k: "kthread_list s [(a, Some kth)]"
    and c: "cells (kths s) kth = Some \<lparr>kth_id = tid, kth_th = Some cur\<rparr>"
    by (auto simp: coop_def)
  show ?thesis
    using is_running_spec [OF k] c assms(2) by (simp add: kth_runs_def)
qed

lemma kthread_list_upd [simp]:
  "kthread_list (s\<lparr>thr := T\<rparr>) ks = kthread_list s ks"
  "kthread_list (s\<lparr>q_head := h\<rparr>) ks = kthread_list s ks"
  "kthread_list (s\<lparr>q_tail := t\<rparr>) ks = kthread_list s ks"
  "kthread_list (s\<lparr>qnodes := N\<rparr>) ks = kthread_list s ks"
  "kthread_list (s\<lparr>kths := K\<rparr>) ks = kthread_list s ks"
  by (simp_all add: kthread_list_def)

lemma kthread_list_lib_upd [simp]:
  "kthread_list (s\<lparr>ctxs := C\<rparr>) ks = kthread_list s ks"
  "kthread_list (s\<lparr>mtxs := M\<rparr>) ks = kthread_list s ks"
  "kthread_list (s\<lparr>cnds := D\<rparr>) ks = kthread_list s ks"
  "kthread_list (s\<lparr>sems := f\<rparr>) ks = kthread_list s ks"
  "kthread_list (s\<lparr>mypthread_count := n\<rparr>) ks = kthread_list s ks"
  "kthread_list (s\<lparr>mypthread_th_gen := n\<rparr>) ks = kthread_list s ks"
  by (simp_all add: kthread_list_def)

text \<open>A change to a control block that keeps its context pointer changes no context.\<close>

lemma ctx_ptr_thr:
  "\<lbrakk>thr s a = Some t; th_ctx t' = th_ctx t\<rbrakk> \<Longrightarrow> ctx_ptr (s\<lparr>thr := (thr s)(a \<mapsto> t')\<rparr>) x = ctx_ptr s x"
  by (simp add: ctx_ptr_def)

lemma sems_free_upd [simp]:
  "sems_free (s\<lparr>thr := T\<rparr>) = sems_free s"
  "sems_free (s\<lparr>q_head := h\<rparr>) = sems_free s"
  "sems_free (s\<lparr>q_tail := t\<rparr>) = sems_free s"
  "sems_free (s\<lparr>qnodes := N\<rparr>) = sems_free s"
  "sems_free (s\<lparr>kths := K\<rparr>) = sems_free s"
  by (simp_all add: sems_free_def)

section \<open>Parking the running thread\<close>

text \<open>
  The common part of \<open>mypthread_yield\<close> and of the waiting branches of \<open>mypthread_join\<close>: the
  running thread's control block is rewritten to \<open>tc'\<close>, the thread goes to the end of the run
  queue, and the scheduler swaps to the first active thread \<open>x\<close>.
\<close>

definition park_current :: "ptr \<Rightarrow> nat \<Rightarrow> mypthread_t \<Rightarrow> resume \<Rightarrow> lib \<Rightarrow> (outcome \<times> lib) res" where
  "park_current k cur tc r s =
     bind_res (sem_wait Mypthread_sem (s\<lparr>thr := (thr s)(cur \<mapsto> tc)\<rparr>)) (\<lambda>s1.
     bind_res (mypthread_enqueue (Some cur) s1) (\<lambda>s2.
     mythread_scheduler k 1 r (sem_post Mypthread_sem s2)))"

lemma yield_park:
  assumes "coop tid kth s cur ts" and "thr s cur = Some tc"
  shows "mypthread_yield tid s = park_current (Some kth) cur (tc\<lparr>th_state := PS_ACTIVE\<rparr>) Resume_yield s"
  using coop_on_kthread [OF assms(1)] assms(2)
  by (simp add: mypthread_yield_def park_current_def on_kthread_def)

lemma wait_park:
  assumes "coop tid kth s cur ts" and "thr s cur = Some tc"
  shows "wait_for_thread (Some kth) i s =
     park_current (Some kth) cur (tc\<lparr>th_state := PS_WAITING, dependent_th := i\<rparr>) Resume_join s"
  using coop_on_kthread [OF assms(1)] assms(2)
  by (simp add: wait_for_thread_def park_current_def on_kthread_def)

text \<open>
  The invariant after a switch that puts \<open>cur\<close> at the end of the run queue with context \<open>v\<close> and
  gives its kernel thread to \<open>x\<close>.
\<close>

lemma coop_switched:
  assumes co: "coop tid kth s cur ts" and ts: "ts = as @ x # bs"
    and p: "ctx_ptr s cur = Some p" "cells (ctxs s) p = Some old" and v: "v \<noteq> Ctx_uninit"
    and C: "ctxs s' = set_cell (ctxs s) p v" and ptr: "ctx_ptr s' = ctx_ptr s"
    and q: "runq s' (as @ bs @ [cur])" and K: "kths s' = run_on tid kth x (kths s)"
    and kl: "\<And>ks. kthread_list s' ks = kthread_list s ks"
    and same: "sems s' = sems s" "mypthread_count s' = mypthread_count s"
  shows "coop tid kth s' x (as @ bs @ [cur])"
    and "y \<in> set (cur # ts) \<Longrightarrow> ctx_of s' y = (if y = cur then Some v else ctx_of s y)"
proof -
  note co' = coopD [OF co]
  have ctx: "ctx_of s' y = (if y = cur then Some v else ctx_of s y)" if "y \<in> set (cur # ts)" for y
  proof -
    have "ctx_ptr s y = Some p \<longleftrightarrow> y = cur" using co'(7) that p(1) by (auto simp: inj_on_def)
    then show ?thesis using ptr C p(1) by (simp add: ctx_of_def split: option.split)
  qed
  show "coop tid kth s' x (as @ bs @ [cur])"
    unfolding coop_def
  proof (intro conjI ballI)
    show "\<exists>a. kthread_list s' [(a, Some kth)]" using co kl by (auto simp: coop_def)
    show "runq s' (as @ bs @ [cur])" by (rule q)
    show "heap_ok (ctxs s')" using co'(6) p(2) C by (auto simp: heap_ok_iff)
    have "set (x # as @ bs @ [cur]) = set (cur # ts)" using ts by auto
    then show "inj_on (ctx_ptr s') (set (x # as @ bs @ [cur]))" using co'(7) ptr by (simp only:)
    show "ctx_of s' x \<noteq> None"
      using ctx [of x] co'(8) ts by (auto simp: resumable_def split: option.splits)
    show "resumable s' y" if "y \<in> set (as @ bs @ [cur])" for y
      using ctx [of y] that co'(8) ts v by (auto simp: resumable_def)
  qed (use co' ts K same in \<open>auto simp: sems_free_def\<close>)
  show "y \<in> set (cur # ts) \<Longrightarrow> ctx_of s' y = (if y = cur then Some v else ctx_of s y)" by (rule ctx)
qed

lemma park_switch:
  assumes co: "coop tid kth s cur ts" and room: "0 < room (qnodes s)"
    and ts: "ts = as @ x # bs" and na: "\<forall>y\<in>set as. \<not> active (thr s) (Some y)"
    and act: "active (thr s) (Some x)" and tc: "thr s cur = Some tc" "th_ctx tc' = th_ctx tc"
  obtains c s' where
    "park_current (Some kth) cur tc' r s = Inr (Switched x c, s')"
    "coop tid kth s' x (as @ bs @ [cur])"
    "thr s' = (thr s)(cur \<mapsto> tc')" "room (qnodes s') = room (qnodes s)"
    "ctx_of s x = Some c" "ctx_of s' cur = Some (Ctx_saved r)"
    "\<And>y. y \<in> set ts \<Longrightarrow> ctx_of s' y = ctx_of s y"
    "mypthread_policy s' = mypthread_policy s" "same_objects s s'"
proof -
  let ?T = "(thr s)(cur \<mapsto> tc')"
  note co' = coopD [OF co]
  obtain p old where p: "ctx_ptr s cur = Some p" "cells (ctxs s) p = Some old" "th_ctx tc = Some p"
    using coop_cur [OF co] tc(1) by (metis option.inject)
  have dist: "cur \<noteq> x" "cur \<notin> set as" "cur \<notin> set bs" using co'(5) ts by auto
  have kn: "\<forall>t\<in>set ts. ?T t \<noteq> None" "?T cur \<noteq> None" using co'(4) by (auto simp: runq_iff)
  let ?sA = "s\<lparr>thr := ?T, sems := (sems s)(Mypthread_sem := 0)\<rparr>"
  have qA: "runq ?sA ts" using runq_thr [OF co'(4) kn(1)] by (simp only: runq_upd)
  have xA: "thr ?sA cur \<noteq> None" and rA: "0 < room (qnodes ?sA)" using room by simp_all
  obtain h t N where e: "mypthread_enqueue (Some cur) ?sA = Inr (?sA\<lparr>q_head := h, q_tail := t, qnodes := N\<rparr>)"
    "runq (?sA\<lparr>q_head := h, q_tail := t, qnodes := N\<rparr>) (ts @ [cur])" "Suc (room N) = room (qnodes ?sA)"
    by (rule enq_runq [OF qA xA rA])
  let ?s1 = "s\<lparr>thr := ?T, q_head := h, q_tail := t, qnodes := N\<rparr>"
  have s1: "park_current (Some kth) cur tc' r s = mythread_scheduler (Some kth) 1 r ?s1"
    using e(1) co'(2) by (simp add: park_current_def sem_wait_free sems_free_def sem_post_def fun_upd_idem)
  have ptr: "ctx_ptr (s\<lparr>thr := ?T\<rparr>) y = ctx_ptr s y" for y
    using ctx_ptr_thr [OF tc] by simp
  let ?C = "set_cell (ctxs s) p (Ctx_saved r)"
  from co'(8) ts obtain c where c: "ctx_of s x = Some c" "c \<noteq> Ctx_uninit"
    by (auto simp: resumable_def split: option.splits)
  have on1: "on_kthread tid kth cur ?s1"
    using coop_on_kthread [OF co] by (simp add: on_kthread_def)
  have q1: "runq ?s1 (as @ x # bs @ [cur])"
    using e(2) ts by (simp add: runq_iff run_queue_def)
  obtain h' t' N' where f:
    "mythread_scheduler (Some kth) 1 r ?s1 = Inr (Switched x c, ?s1\<lparr>q_head := h', q_tail := t',
       qnodes := N', kths := run_on tid kth x (kths ?s1), ctxs := set_cell (ctxs ?s1) p (Ctx_saved r)\<rparr>)"
    "runq (?s1\<lparr>q_head := h', q_tail := t', qnodes := N'\<rparr>) (as @ bs @ [cur])"
    "room N' = Suc (room (qnodes ?s1))"
  proof (rule scheduler_swap [OF on1 _ _ q1])
    have "ctx_ptr s x \<noteq> Some p" using co'(7) p(1) ts dist(1) by (auto simp: inj_on_def)
    then show "ctx_of (?s1\<lparr>ctxs := set_cell (ctxs ?s1) p (Ctx_saved r)\<rparr>) x = Some c"
      using ptr [of x] c(1) by (simp add: ctx_of_def ctx_ptr_def split: option.splits)
  qed (use co'(2,3) na act c(2) p dist ptr in \<open>auto simp: active_def\<close>)
  let ?s2 = "s\<lparr>thr := ?T, q_head := h', q_tail := t', qnodes := N',
               kths := run_on tid kth x (kths s), ctxs := ?C\<rparr>"
  have r: "park_current (Some kth) cur tc' r s = Inr (Switched x c, ?s2)"
    using s1 f(1) by simp
  have ptr2: "ctx_ptr ?s2 = ctx_ptr s" using ptr by (simp add: fun_eq_iff ctx_ptr_def)
  have "runq ?s2 (as @ bs @ [cur])" using f(2) by (simp add: runq_iff run_queue_def)
  note sw = coop_switched [OF co ts p(1,2) _ _ ptr2 this, of "Ctx_saved r"]
  have "coop tid kth ?s2 x (as @ bs @ [cur])" by (rule sw(1)) simp_all
  moreover have c2: "ctx_of ?s2 y = (if y = cur then Some (Ctx_saved r) else ctx_of s y)"
    if "y \<in> set (cur # ts)" for y
    by (rule sw(2)) (use that in simp_all)
  ultimately show ?thesis
    using r c(1) c2 [of cur] c2 e(3) f(3) co'(5) by (intro that [of c ?s2]) (auto simp: same_objects_def)
qed

section \<open>Yield, join, exit\<close>

lemma yield_switch:
  assumes co: "coop tid kth s cur ts" and room: "0 < room (qnodes s)"
    and ts: "ts = as @ x # bs" and na: "\<forall>y\<in>set as. \<not> active (thr s) (Some y)"
    and act: "active (thr s) (Some x)" and tc: "thr s cur = Some tc"
  obtains c s' where
    "mypthread_yield tid s = Inr (Switched x c, s')" "coop tid kth s' x (as @ bs @ [cur])"
    "thr s' = (thr s)(cur \<mapsto> tc\<lparr>th_state := PS_ACTIVE\<rparr>)"
    "room (qnodes s') = room (qnodes s)" "ctx_of s x = Some c"
    "ctx_of s' cur = Some (Ctx_saved Resume_yield)"
    "\<forall>y\<in>set ts. ctx_of s' y = ctx_of s y" "same_objects s s'"
proof -
  obtain c s' where "park_current (Some kth) cur (tc\<lparr>th_state := PS_ACTIVE\<rparr>) Resume_yield s =
      Inr (Switched x c, s')" "coop tid kth s' x (as @ bs @ [cur])"
    "thr s' = (thr s)(cur \<mapsto> tc\<lparr>th_state := PS_ACTIVE\<rparr>)" "room (qnodes s') = room (qnodes s)"
    "ctx_of s x = Some c" "ctx_of s' cur = Some (Ctx_saved Resume_yield)"
    "\<forall>y\<in>set ts. ctx_of s' y = ctx_of s y" "same_objects s s'"
    by (rule park_switch [OF co room ts na act tc, of "tc\<lparr>th_state := PS_ACTIVE\<rparr>" Resume_yield]) simp_all
  then show ?thesis using yield_park [OF co tc] by (intro that) simp_all
qed

lemma wait_switch:
  assumes co: "coop tid kth s cur ts" and room: "0 < room (qnodes s)"
    and ts: "ts = as @ x # bs" and na: "\<forall>y\<in>set as. \<not> active (thr s) (Some y)"
    and act: "active (thr s) (Some x)" and tc: "thr s cur = Some tc"
  obtains c s' where
    "wait_for_thread (Some kth) i s = Inr (Switched x c, s')" "coop tid kth s' x (as @ bs @ [cur])"
    "thr s' = (thr s)(cur \<mapsto> tc\<lparr>th_state := PS_WAITING, dependent_th := i\<rparr>)"
    "room (qnodes s') = room (qnodes s)" "ctx_of s x = Some c"
    "ctx_of s' cur = Some (Ctx_saved Resume_join)"
    "\<forall>y\<in>set ts. ctx_of s' y = ctx_of s y" "same_objects s s'"
proof -
  let ?t = "tc\<lparr>th_state := PS_WAITING, dependent_th := i\<rparr>"
  obtain c s' where "park_current (Some kth) cur ?t Resume_join s = Inr (Switched x c, s')"
    "coop tid kth s' x (as @ bs @ [cur])" "thr s' = (thr s)(cur \<mapsto> ?t)"
    "room (qnodes s') = room (qnodes s)"
    "ctx_of s x = Some c" "ctx_of s' cur = Some (Ctx_saved Resume_join)"
    "\<forall>y\<in>set ts. ctx_of s' y = ctx_of s y" "same_objects s s'"
    by (rule park_switch [OF co room ts na act tc, of ?t Resume_join]) simp_all
  then show ?thesis using wait_park [OF co tc] by (intro that) simp_all
qed

text \<open>Looking a thread up by its id among the threads of the run queue.\<close>

lemma get_runq:
  assumes "runq s ts"
  shows "mypthread_get i s = Inr (find (\<lambda>t. th_has_id (thr s) i (Some t)) ts)"
proof -
  from assms obtain xs where xs: "\<forall>t\<in>set ts. thr s t \<noteq> None" "run_queue s xs"
    "map snd xs = map Some ts" by (auto simp: runq_iff)
  have "map_option snd (find (\<lambda>x. th_has_id (thr s) i (snd x)) xs) =
      find (th_has_id (thr s) i) (map snd xs)" by (simp add: find_map)
  also have "\<dots> = map_option Some (find (\<lambda>t. th_has_id (thr s) i (Some t)) ts)"
    unfolding xs(3) by (simp add: find_map)
  finally show ?thesis
    using mypthread_get_run_chain [OF run_queue_chain [OF xs(2)] all_known_threads [OF xs(3,1)], of i]
    by (cases "find (\<lambda>x. th_has_id (thr s) i (snd x)) xs";
        cases "find (\<lambda>t. th_has_id (thr s) i (Some t)) ts") auto
qed

lemma ctx_ptr_wake [simp]:
  "ctx_ptr (s\<lparr>thr := wake P A T\<rparr>) y = ctx_ptr (s\<lparr>thr := T\<rparr>) y"
  by (auto simp: ctx_ptr_def wake_def split: option.splits)

lemma update_waiting_runq:
  assumes "runq s ts"
  shows "mypthread_update_waiting_threads i s =
     Inr (s\<lparr>thr := wake (\<lambda>t. dependent_th t = i) (Some ` set ts) (thr s)\<rparr>)"
proof -
  from assms obtain xs where xs: "\<forall>t\<in>set ts. thr s t \<noteq> None" "run_queue s xs"
    "map snd xs = map Some ts" by (auto simp: runq_iff)
  have "snd ` set xs = Some ` set ts" using arg_cong [OF xs(3), of set] by simp
  with update_waiting_run_chain [OF run_queue_chain [OF xs(2)] all_known_threads [OF xs(3,1)]]
  show ?thesis by simp
qed

text \<open>The control blocks after \<open>cur\<close> has exited: it is dead, and who waited for it is active.\<close>

definition exit_thr :: "tstore \<Rightarrow> nat \<Rightarrow> mypthread_t \<Rightarrow> nat list \<Rightarrow> tstore" where
  "exit_thr T cur tc ts =
     wake (\<lambda>t. dependent_th t = th_id tc) (Some ` set ts) (T(cur \<mapsto> tc\<lparr>th_state := PS_DEAD\<rparr>))"

abbreviation exited :: "lib \<Rightarrow> nat \<Rightarrow> mypthread_t \<Rightarrow> nat \<Rightarrow> nat list \<Rightarrow> lib" where
  "exited s cur tc p ts \<equiv>
     s\<lparr>mypthread_count := mypthread_count s - 1, thr := exit_thr (thr s) cur tc ts,
       ctxs := (ctxs s)\<lparr>cells := (cells (ctxs s))(p := None), room := Suc (room (ctxs s))\<rparr>\<rparr>"

lemma exit_scheduler:
  assumes co: "coop tid kth s cur ts" and tc: "thr s cur = Some tc" "th_ctx tc = Some p"
  shows "mypthread_exit tid s = mythread_scheduler (Some kth) 0 Resume_none (exited s cur tc p ts)"
proof -
  note co' = coopD [OF co]
  obtain c where c: "cells (ctxs s) p = Some c"
    using coop_cur [OF co] tc by (metis option.inject)
  let ?s2 = "s\<lparr>sems := (sems s)(Mypthread_sem := 0), mypthread_count := mypthread_count s - 1,
               thr := (thr s)(cur \<mapsto> tc\<lparr>th_state := PS_DEAD\<rparr>)\<rparr>"
  have "runq (s\<lparr>thr := (thr s)(cur \<mapsto> tc\<lparr>th_state := PS_DEAD\<rparr>)\<rparr>) ts"
    using co'(4) by (intro runq_thr) (auto simp: runq_iff)
  then have "runq ?s2 ts" by (simp add: runq_iff run_queue_def)
  from update_waiting_runq [OF this, of "th_id tc"]
  have "mypthread_update_waiting_threads (th_id tc) ?s2 =
      Inr (?s2\<lparr>thr := exit_thr (thr s) cur tc ts\<rparr>)" by (simp add: exit_thr_def)
  then show ?thesis
    using coop_on_kthread [OF co] co'(2) tc c
    by (simp add: mypthread_exit_def on_kthread_def sem_wait_free sems_free_def sem_post_def
        fun_upd_idem Let_def)
qed

lemma ctx_ptr_exited:
  assumes "thr s cur = Some tc"
  shows "ctx_ptr (exited s cur tc p ts) y = ctx_ptr s y"
  using assms by (auto simp: ctx_ptr_def exit_thr_def wake_def split: option.splits)

lemma exit_thr_other:
  assumes "\<forall>t\<in>set ts. T t \<noteq> None" and "cur \<notin> set ts" and "y \<in> set ts"
  shows "exit_thr T cur tc ts y \<noteq> None"
    and "active (exit_thr T cur tc ts) (Some y) \<longleftrightarrow>
           active T (Some y) \<or> dependent_th (the (T y)) = th_id tc"
  using assms by (auto simp: exit_thr_def wake_def active_def)

lemma exit_switch:
  assumes co: "coop tid kth s cur ts" and tc: "thr s cur = Some tc"
    and ts: "ts = as @ x # bs" and pos: "as = [] \<or> bs \<noteq> []"
    and na: "\<forall>y\<in>set as. \<not> active (exit_thr (thr s) cur tc ts) (Some y)"
    and act: "active (exit_thr (thr s) cur tc ts) (Some x)"
  obtains c s' where
    "mypthread_exit tid s = Inr (Switched x c, s')" "coop tid kth s' x (as @ bs)"
    "thr s' = exit_thr (thr s) cur tc ts" "room (qnodes s') = Suc (room (qnodes s))"
    "ctx_of s x = Some c" "mypthread_policy s' = mypthread_policy s"
    "\<forall>y\<in>set ts. ctx_of s' y = ctx_of s y" "same_objects s s'"
proof -
  note co' = coopD [OF co]
  obtain p c0 where p: "th_ctx tc = Some p" "ctx_ptr s cur = Some p" "cells (ctxs s) p = Some c0"
    using coop_cur [OF co] tc by (metis option.inject)
  let ?e = "exited s cur tc p ts"
  have dist: "cur \<notin> set ts" "x \<in> set ts" using co'(5) ts by auto
  have kn: "\<forall>t\<in>set ts. thr s t \<noteq> None" using co'(4) by (simp add: runq_iff)
  have ctx: "ctx_of ?e y = ctx_of s y" if "y \<in> set ts" for y
  proof -
    have "ctx_ptr s y \<noteq> Some p" using co'(7) that p(2) dist(1) by (auto simp: inj_on_def)
    then show ?thesis
      using ctx_ptr_exited [OF tc] by (auto simp: ctx_of_def split: option.split)
  qed
  from co'(8) dist(2) obtain c where c: "ctx_of s x = Some c" "c \<noteq> Ctx_uninit"
    by (auto simp: resumable_def split: option.splits)
  have on: "on_kthread tid kth cur ?e" and free: "sems_free ?e"
    using coop_on_kthread [OF co] co'(2) by (simp_all add: on_kthread_def sems_free_def)
  have cnt: "mypthread_count ?e \<noteq> 0" using co'(3) ts by simp
  have "runq (s\<lparr>thr := exit_thr (thr s) cur tc ts\<rparr>) ts"
    using exit_thr_other(1) [OF kn dist(1)] by (intro runq_thr [OF co'(4)]) auto
  then have q: "runq ?e (as @ x # bs)" by (simp add: runq_iff run_queue_def ts)
  have na': "\<forall>y\<in>set as. \<not> active (thr ?e) (Some y)" and act': "active (thr ?e) (Some x)"
    using na act by simp_all
  have cx: "ctx_of ?e x = Some c" using ctx [OF dist(2)] c(1) by (rule trans)
  obtain h t N where f:
    "mythread_scheduler (Some kth) 0 Resume_none ?e = Inr (Switched x c,
       ?e\<lparr>q_head := h, q_tail := t, qnodes := N, kths := run_on tid kth x (kths ?e)\<rparr>)"
    "runq (?e\<lparr>q_head := h, q_tail := t, qnodes := N\<rparr>) (as @ bs)" "room N = Suc (room (qnodes ?e))"
    by (rule scheduler_set [OF on free cnt q na' act' pos cx c(2)])
  let ?s' = "?e\<lparr>q_head := h, q_tail := t, qnodes := N, kths := run_on tid kth x (kths s)\<rparr>"
  have "coop tid kth ?s' x (as @ bs)"
    unfolding coop_def
  proof (intro conjI ballI)
    show "\<exists>a. kthread_list ?s' [(a, Some kth)]" using co by (auto simp: coop_def)
    show "runq ?s' (as @ bs)" using f(2) by (simp add: runq_iff run_queue_def)
    show "heap_ok (ctxs ?s')" using co'(6) by (auto simp: heap_ok_iff split: if_splits)
    have "ctx_ptr ?s' = ctx_ptr s" using ctx_ptr_exited [OF tc] by (simp add: fun_eq_iff)
    moreover have "inj_on (ctx_ptr s) (set (x # as @ bs))"
      by (rule inj_on_subset [OF co'(7)]) (use ts in auto)
    ultimately show "inj_on (ctx_ptr ?s') (set (x # as @ bs))" by (simp only:)
    show "ctx_of ?s' x \<noteq> None" using ctx [OF dist(2)] c by simp
    show "resumable ?s' y" if "y \<in> set (as @ bs)" for y
      using ctx [of y] that co'(8) ts by (auto simp: resumable_def)
  qed (use co' ts in \<open>auto simp: sems_free_def\<close>)
  then show ?thesis
    using exit_scheduler [OF co tc p(1)] f(1,3) c(1) ctx by (intro that [of c ?s']) (simp_all add: same_objects_def)
qed

text \<open>The last thread's \<open>mypthread_exit\<close> returns to its caller.\<close>

lemma exit_last:
  assumes co: "coop tid kth s cur []" and tc: "thr s cur = Some tc" "th_ctx tc = Some p"
  shows "mypthread_exit tid s = Inr (Returned 0, exited s cur tc p [])"
  using exit_scheduler [OF co tc] coopD(2,3) [OF co]
  by (simp add: mythread_scheduler_def sem_wait_free sems_free_def sem_post_def fun_upd_idem)

lemma join_found:
  assumes co: "coop tid kth s cur ts" and x: "find (\<lambda>t. th_has_id (thr s) i (Some t)) ts = Some x"
    and t: "thr s x = Some t"
  shows "mypthread_join tid i s =
     (if th_state t \<noteq> PS_DEAD then wait_for_thread (Some kth) i s else Inr (Returned 0, s))"
proof -
  have "runq (s\<lparr>sems := (sems s)(Mypthread_sem := 0)\<rparr>) ts" using coopD(4) [OF co] by simp
  from get_runq [OF this, of i] x
  have "mypthread_get i (s\<lparr>sems := (sems s)(Mypthread_sem := 0)\<rparr>) = Inr (Some x)" by simp
  then show ?thesis
    using coop_on_kthread [OF co] coopD(2) [OF co] t
    by (simp add: mypthread_join_def on_kthread_def sem_wait_free sems_free_def sem_post_def
        fun_upd_idem fun_upd_twist Let_def)
qed

lemma join_absent:
  assumes co: "coop tid kth s cur ts" and x: "find (\<lambda>t. th_has_id (thr s) i (Some t)) ts = None"
    and tc: "thr s cur = Some tc"
  shows "mypthread_join tid i s =
     (if th_id tc = i then wait_for_thread (Some kth) i s else Inr (Returned 0, s))"
proof -
  have "runq (s\<lparr>sems := (sems s)(Mypthread_sem := 0)\<rparr>) ts" using coopD(4) [OF co] by simp
  from get_runq [OF this, of i] x
  have "mypthread_get i (s\<lparr>sems := (sems s)(Mypthread_sem := 0)\<rparr>) = Inr None" by simp
  then show ?thesis
    using coop_on_kthread [OF co] coopD(2) [OF co] coop_is_running [OF co tc]
    by (simp add: mypthread_join_def on_kthread_def sem_wait_free sems_free_def sem_post_def
        fun_upd_idem fun_upd_twist Let_def)
qed

section \<open>Creation\<close>

lemma ctx_ptr_other:
  "y \<noteq> thread \<Longrightarrow> ctx_ptr (s\<lparr>thr := (thr s)(thread \<mapsto> t)\<rparr>) y = ctx_ptr s y"
  by (simp add: ctx_ptr_def)

lemma coop_ctx_below:
  assumes "coop tid kth s cur ts" and "y \<in> set (cur # ts)"
  obtains p c where "ctx_ptr s y = Some p" "cells (ctxs s) p = Some c" "p < fresh (ctxs s)"
proof -
  from assms have "ctx_of s y \<noteq> None" by (auto simp: coop_def resumable_def split: option.splits)
  then obtain p c where "ctx_ptr s y = Some p" "cells (ctxs s) p = Some c"
    by (auto simp: ctx_of_def split: option.splits)
  with heap_ok_less [OF coopD(6) [OF assms(1)]] show ?thesis by (intro that)
qed

lemma inj_on_extend:
  assumes "inj_on f A" and "\<forall>y\<in>A. g y = f y \<and> f y \<noteq> g z"
  shows "inj_on g (insert z A)"
  using assms by (force simp: inj_on_def)

lemma create_thread_coop:
  assumes co: "coop tid kth s cur ts" and new: "thread \<notin> set (cur # ts)"
    and t0: "thr s thread = Some t0"
    and room: "0 < room (qnodes s)" "0 < room (ctxs s)"
  obtains s' where
    "create_thread thread start_routine arg s = Inr s'" "coop tid kth s' cur (ts @ [thread])"
    "thr s' = (thr s)(thread \<mapsto> t0\<lparr>th_ctx := Some (fresh (ctxs s)), th_state := PS_ACTIVE,
                               th_id := mypthread_th_gen s + 1\<rparr>)"
    "mypthread_th_gen s' = mypthread_th_gen s + 1"
    "ctx_of s' thread = Some (Ctx_start start_routine arg)"
    "mypthread_policy s' = mypthread_policy s"
    "Suc (room (qnodes s')) = room (qnodes s)" "Suc (room (ctxs s')) = room (ctxs s)"
    "\<forall>y\<in>set (cur # ts). ctx_of s' y = ctx_of s y" "same_objects s s'"
proof -
  note co' = coopD [OF co]
  let ?p = "fresh (ctxs s)"
  let ?C = "(ctxs s)\<lparr>cells := (cells (ctxs s))(?p \<mapsto> Ctx_start start_routine arg),
                      fresh := Suc ?p, room := room (ctxs s) - 1\<rparr>"
  let ?T = "(thr s)(thread \<mapsto> t0\<lparr>th_ctx := Some ?p, th_state := PS_ACTIVE,
                                th_id := mypthread_th_gen s + 1\<rparr>)"
  let ?sA = "s\<lparr>ctxs := ?C, sems := (sems s)(Mypthread_sem := 0), thr := ?T,
               mypthread_th_gen := mypthread_th_gen s + 1, mypthread_count := mypthread_count s + 1\<rparr>"
  have "runq (s\<lparr>thr := ?T\<rparr>) ts" using co'(4) by (intro runq_thr) (auto simp: runq_iff)
  then have qA: "runq ?sA ts" by (simp add: runq_iff run_queue_def)
  have xA: "thr ?sA thread \<noteq> None" and rA: "0 < room (qnodes ?sA)" using room by simp_all
  obtain h t N where e:
    "mypthread_enqueue (Some thread) ?sA = Inr (?sA\<lparr>q_head := h, q_tail := t, qnodes := N\<rparr>)"
    "runq (?sA\<lparr>q_head := h, q_tail := t, qnodes := N\<rparr>) (ts @ [thread])"
    "Suc (room N) = room (qnodes ?sA)"
    by (rule enq_runq [OF qA xA rA])
  let ?s' = "s\<lparr>ctxs := ?C, thr := ?T, mypthread_th_gen := mypthread_th_gen s + 1,
               mypthread_count := mypthread_count s + 1, q_head := h, q_tail := t, qnodes := N\<rparr>"
  have r: "create_thread thread start_routine arg s = Inr ?s'"
    using room t0 e(1) co'(2)
    by (simp add: create_thread_def malloc_room sem_wait_free sems_free_def sem_post_def fun_upd_idem)
  have ptr: "ctx_ptr ?s' y = (if y = thread then Some ?p else ctx_ptr s y)" for y
    by (simp add: ctx_ptr_def)
  have ctx: "ctx_of ?s' y = ctx_of s y" if y: "y \<in> set (cur # ts)" for y
  proof -
    obtain q c where q: "ctx_ptr s y = Some q" "cells (ctxs s) q = Some c" "q < ?p"
      by (rule coop_ctx_below [OF co y])
    have "ctx_ptr ?s' y = Some q" using ptr [of y] q(1) new y by metis
    then show ?thesis unfolding ctx_of_def q(1) by (simp only: option.case) (simp add: q(2) less_imp_neq [OF q(3)])
  qed
  have ctx_new: "ctx_of ?s' thread = Some (Ctx_start start_routine arg)"
    using ptr [of thread] unfolding ctx_of_def by (simp only: option.case simp_thms if_True) simp
  have "coop tid kth ?s' cur (ts @ [thread])"
    unfolding coop_def
  proof (intro conjI ballI)
    show "\<exists>a. kthread_list ?s' [(a, Some kth)]" using co by (auto simp: coop_def kthread_list_def)
    show "runq ?s' (ts @ [thread])" using e(2) by (simp add: runq_iff run_queue_def)
    show "heap_ok (ctxs ?s')" using co'(6) by (auto simp: heap_ok_iff less_Suc_eq split: if_splits)
    show "inj_on (ctx_ptr ?s') (set (cur # ts @ [thread]))"
    proof -
      have "ctx_ptr s y \<noteq> Some ?p" if "y \<in> set (cur # ts)" for y
        by (rule coop_ctx_below [OF co that]) auto
      with ptr new have "\<forall>y\<in>set (cur # ts). ctx_ptr ?s' y = ctx_ptr s y \<and> ctx_ptr s y \<noteq> ctx_ptr ?s' thread"
        by metis
      from inj_on_extend [OF co'(7) this]
      have "inj_on (ctx_ptr ?s') (insert thread (set (cur # ts)))" .
      moreover have "insert thread (set (cur # ts)) = set (cur # ts @ [thread])" by auto
      ultimately show ?thesis by (simp only:)
    qed
    show "ctx_of ?s' cur \<noteq> None" using ctx [of cur] co by (simp add: coop_def)
    show "resumable ?s' y" if "y \<in> set (ts @ [thread])" for y
      using ctx [of y] ctx_new that co'(8) by (auto simp: resumable_def)
  qed (use co' new in \<open>auto simp: sems_free_def\<close>)
  then show ?thesis
    using r ctx_new ctx e(3) room by (intro that [of ?s']) (simp_all add: same_objects_def)
qed

lemma create_coop:
  assumes co: "coop tid kth s cur ts" and pol: "mypthread_policy s = ULONLY"
    and new: "thread \<notin> set (cur # ts)" and t0: "thr s thread = Some t0"
    and room: "0 < room (qnodes s)" "0 < room (ctxs s)"
  obtains s' where
    "mypthread_create tid env thread start_routine arg s = Inr (Returned 0, s')"
    "coop tid kth s' cur (ts @ [thread])"
    "thr s' = (thr s)(thread \<mapsto> t0\<lparr>th_ctx := Some (fresh (ctxs s)), th_state := PS_ACTIVE,
                               th_id := mypthread_th_gen s + 1\<rparr>)"
    "mypthread_th_gen s' = mypthread_th_gen s + 1"
    "ctx_of s' thread = Some (Ctx_start start_routine arg)"
    "mypthread_policy s' = ULONLY"
    "Suc (room (qnodes s')) = room (qnodes s)" "Suc (room (ctxs s')) = room (ctxs s)"
    "\<forall>y\<in>set (cur # ts). ctx_of s' y = ctx_of s y" "same_objects s s'"
proof -
  obtain s' where s': "create_thread thread start_routine arg s = Inr s'"
    "coop tid kth s' cur (ts @ [thread])"
    "thr s' = (thr s)(thread \<mapsto> t0\<lparr>th_ctx := Some (fresh (ctxs s)), th_state := PS_ACTIVE,
                               th_id := mypthread_th_gen s + 1\<rparr>)"
    "mypthread_th_gen s' = mypthread_th_gen s + 1"
    "ctx_of s' thread = Some (Ctx_start start_routine arg)"
    "mypthread_policy s' = mypthread_policy s"
    "Suc (room (qnodes s')) = room (qnodes s)" "Suc (room (ctxs s')) = room (ctxs s)"
    "\<forall>y\<in>set (cur # ts). ctx_of s' y = ctx_of s y" "same_objects s s'"
    by (rule create_thread_coop [OF co new t0 room])
  moreover have "mypthread_count s \<noteq> 0" using coopD(3) [OF co] by simp
  ultimately show ?thesis
    using pol by (intro that [of s'])
      (simp_all add: mypthread_create_def spawn_by_policy_def policy_defs)
qed

text \<open>The state before the first call: nothing registered, nothing queued.\<close>

definition at_start :: "lib \<Rightarrow> bool" where
  "at_start s \<longleftrightarrow>
     mypthread_count s = 0 \<and> runq s [] \<and> kthread_list s [] \<and> heap_ok (ctxs s) \<and>
     thr s main_thread \<noteq> None"

lemma register_main_coop:
  assumes st: "at_start s" and room: "0 < room (ctxs s)" "0 < room (kths s)" "0 < room (knodes s)"
  obtains s' where
    "register_main tid s = Inr s'" "coop tid (fresh (kths s)) s' main_thread []"
    "thr s' = (thr s)(main_thread \<mapsto> (the (thr s main_thread))\<lparr>th_id := mypthread_th_gen s + 1,
                 th_ctx := Some (fresh (ctxs s)), th_state := PS_RUNNING\<rparr>)"
    "mypthread_th_gen s' = mypthread_th_gen s + 1" "mypthread_policy s' = mypthread_policy s"
    "qnodes s' = qnodes s" "Suc (room (ctxs s')) = room (ctxs s)" "current_kthread_count s' = 1"
    "same_objects s s'"
proof -
  let ?p = "fresh (ctxs s)" and ?k = "fresh (kths s)"
  let ?C = "(ctxs s)\<lparr>cells := (cells (ctxs s))(?p \<mapsto> Ctx_uninit), fresh := Suc ?p,
                      room := room (ctxs s) - 1\<rparr>"
  let ?K = "(kths s)\<lparr>cells := (cells (kths s))(?k \<mapsto> \<lparr>kth_id = tid, kth_th = Some main_thread\<rparr>),
                      fresh := Suc ?k, room := room (kths s) - 1\<rparr>"
  from st obtain t0 where t0: "thr s main_thread = Some t0" by (auto simp: at_start_def)
  let ?T = "(thr s)(main_thread \<mapsto> t0\<lparr>th_id := mypthread_th_gen s + 1, th_ctx := Some ?p,
                                     th_state := PS_RUNNING\<rparr>)"
  let ?s4 = "s\<lparr>mypthread_th_gen := mypthread_th_gen s + 1, mypthread_count := 1, ctxs := ?C,
               thr := ?T, kths := ?K, sems := (\<lambda>_. 1)(Kthread_sem := 0), current_kthread_count := 1\<rparr>"
  from st have k4: "kthread_list ?s4 []" by (simp add: at_start_def kthread_list_def)
  have r4: "0 < room (knodes ?s4)" using room by simp
  obtain s5 where s5: "mykthread_add (Some ?k) ?s4 = Inr s5"
    "kthread_list s5 ([] @ [(fresh (knodes ?s4), Some ?k)])"
    "s5 = ?s4\<lparr>k_head := k_head s5, k_tail := k_tail s5,
               knodes := push_heap mkk (knodes ?s4) [] (Some ?k)\<rparr>"
    by (rule mykthread_add_rep [OF k4 r4])
  then obtain h t N where h: "s5 = ?s4\<lparr>k_head := h, k_tail := t, knodes := N\<rparr>" by blast
  let ?s' = "s\<lparr>mypthread_th_gen := mypthread_th_gen s + 1, mypthread_count := 1,
               ctxs := ?C, thr := ?T, kths := ?K, current_kthread_count := 1,
               k_head := h, k_tail := t, knodes := N, sems := (\<lambda>_. 1)\<rparr>"
  have "register_main tid s = Inr ?s'"
    using st room t0 s5(1) h
    by (simp add: register_main_def init_locks_def malloc_room at_start_def sem_wait_def sem_post_def
        Let_def fun_upd_idem)
  moreover have "coop tid ?k ?s' main_thread []"
    using s5(2) st h
    by (auto simp: coop_def kthread_list_def sems_free_def runq_iff run_queue_def at_start_def
        heap_ok_iff less_Suc_eq ctx_of_def ctx_ptr_def split: if_splits)
  ultimately show ?thesis using t0 room by (intro that [of ?s']) (simp_all add: same_objects_def)
qed

text \<open>The invariant does not speak of the mutexes.\<close>

lemma coop_mtxs: "coop tid kth (s\<lparr>mtxs := M\<rparr>) cur ts = coop tid kth s cur ts"
proof -
  have "ctx_ptr (s\<lparr>mtxs := M\<rparr>) = ctx_ptr s" by (simp add: fun_eq_iff)
  then show ?thesis by (simp only: coop_def) (simp add: sems_free_def resumable_def)
qed

end
