(* ===== verification/Mypthread_Steps.thy ===== *)
theory Mypthread_Steps
  imports Mypthread_Coop
begin

text \<open>
  Runs of a program on one kernel thread. A configuration is the library's state and the running
  thread; \<open>ul_step\<close> relates it to the one after a call of \<open>mypthread_create\<close>, \<open>mypthread_yield\<close> or
  \<open>mypthread_exit\<close>, in any order, and \<open>ul_reach\<close> holds of the configurations such calls lead to from
  the program's start. \<open>ul_inv\<close> is the invariant of these runs; \<open>yields\<close> lets the running threads
  yield one after the other.
\<close>

section \<open>Yielding among active threads\<close>

lemma yield_alone:
  assumes co: "coop tid kth s cur []" and room: "0 < room (qnodes s)" and tc: "thr s cur = Some tc"
  obtains s' where
    "mypthread_yield tid s = Inr (Switched cur (Ctx_saved Resume_yield), s')" "coop tid kth s' cur []"
    "thr s' = (thr s)(cur \<mapsto> tc\<lparr>th_state := PS_ACTIVE\<rparr>)" "room (qnodes s') = room (qnodes s)"
    "ctx_of s' cur = Some (Ctx_saved Resume_yield)" "mypthread_policy s' = mypthread_policy s"
proof -
  note co' = coopD [OF co]
  let ?tc = "tc\<lparr>th_state := PS_ACTIVE\<rparr>"
  let ?T = "(thr s)(cur \<mapsto> ?tc)"
  obtain p old where p: "ctx_ptr s cur = Some p" "cells (ctxs s) p = Some old" "th_ctx tc = Some p"
    using coop_cur [OF co] tc by (metis option.inject)
  let ?sA = "s\<lparr>thr := ?T, sems := (sems s)(Mypthread_sem := 0)\<rparr>"
  have qA: "runq ?sA []" using runq_thr [OF co'(4), of ?T] by (simp add: runq_upd)
  have xA: "thr ?sA cur \<noteq> None" and rA: "0 < room (qnodes ?sA)" using room by simp_all
  obtain h t N where e: "mypthread_enqueue (Some cur) ?sA = Inr (?sA\<lparr>q_head := h, q_tail := t, qnodes := N\<rparr>)"
    "runq (?sA\<lparr>q_head := h, q_tail := t, qnodes := N\<rparr>) ([] @ [cur])" "Suc (room N) = room (qnodes ?sA)"
    by (rule enq_runq [OF qA xA rA])
  let ?s1 = "s\<lparr>thr := ?T, q_head := h, q_tail := t, qnodes := N\<rparr>"
  have s1: "mypthread_yield tid s = mythread_scheduler (Some kth) 1 Resume_yield ?s1"
    using e(1) co'(2) yield_park [OF co tc]
    by (simp add: park_current_def sem_wait_free sems_free_def sem_post_def fun_upd_idem)
  have ptr: "ctx_ptr (s\<lparr>thr := ?T\<rparr>) y = ctx_ptr s y" for y
    using ctx_ptr_thr [OF tc, of ?tc] by simp
  have on: "on_kthread tid kth cur ?s1" and free: "sems_free ?s1" and cnt: "mypthread_count ?s1 \<noteq> 0"
    using coop_on_kthread [OF co] co'(2,3) by (simp_all add: on_kthread_def sems_free_def)
  have q1: "runq ?s1 ([] @ cur # [])" using e(2) by (simp add: runq_iff run_queue_def)
  have act: "active (thr ?s1) (Some cur)" and na: "\<forall>y\<in>set []. \<not> active (thr ?s1) (Some y)"
    by (simp_all add: active_def)
  have p1: "ctx_ptr ?s1 cur = Some p" "cells (ctxs ?s1) p = Some old" using ptr p by simp_all
  let ?C = "set_cell (ctxs s) p (Ctx_saved Resume_yield)"
  have cx: "ctx_of (?s1\<lparr>ctxs := set_cell (ctxs ?s1) p (Ctx_saved Resume_yield)\<rparr>) cur =
      Some (Ctx_saved Resume_yield)"
    using tc p by (simp add: ctx_of_def ctx_ptr_def)
  obtain h' t' N' where f:
    "mythread_scheduler (Some kth) 1 Resume_yield ?s1 = Inr (Switched cur (Ctx_saved Resume_yield),
       ?s1\<lparr>q_head := h', q_tail := t', qnodes := N', kths := run_on tid kth cur (kths ?s1),
           ctxs := set_cell (ctxs ?s1) p (Ctx_saved Resume_yield)\<rparr>)"
    "runq (?s1\<lparr>q_head := h', q_tail := t', qnodes := N'\<rparr>) ([] @ [])"
    "room N' = Suc (room (qnodes ?s1))"
    by (rule scheduler_swap [OF on free cnt q1 na act _ p1 cx]) simp_all
  let ?s2 = "s\<lparr>thr := ?T, q_head := h', q_tail := t', qnodes := N',
               kths := run_on tid kth cur (kths s), ctxs := ?C\<rparr>"
  have "runq ?s2 []" using f(2) by (simp add: runq_iff run_queue_def)
  moreover have c2: "ctx_of ?s2 cur = Some (Ctx_saved Resume_yield)"
    using tc p by (simp add: ctx_of_def ctx_ptr_def)
  ultimately have "coop tid kth ?s2 cur []"
    using co p(2) by (auto simp: coop_def sems_free_def heap_ok_iff)
  then show ?thesis
    using s1 f(1,3) e(3) c2 by (intro that [of ?s2]) simp_all
qed

text \<open>All threads of the queue active: the processor goes to its first thread, round the ring.\<close>

definition ul_inv :: "int \<Rightarrow> nat \<Rightarrow> lib \<Rightarrow> nat \<Rightarrow> nat list \<Rightarrow> bool" where
  "ul_inv tid kth s cur ts \<longleftrightarrow>
     coop tid kth s cur ts \<and> mypthread_policy s = ULONLY \<and>
     (\<forall>t\<in>set ts. active (thr s) (Some t)) \<and>
     (\<exists>t. thr s cur = Some t \<and> th_state t \<noteq> PS_DEAD)"

lemma ul_yield:
  assumes inv: "ul_inv tid kth s cur ts" and room: "0 < room (qnodes s)"
  obtains c s' where
    "mypthread_yield tid s = Inr (Switched (hd (ts @ [cur])) c, s')"
    "ul_inv tid kth s' (hd (ts @ [cur])) (tl (ts @ [cur]))" "room (qnodes s') = room (qnodes s)"
    "resumable s' (hd (ts @ [cur]))"
proof -
  from inv obtain tc where co: "coop tid kth s cur ts" and pol: "mypthread_policy s = ULONLY"
    and act: "\<forall>t\<in>set ts. active (thr s) (Some t)" and tc: "thr s cur = Some tc"
    by (auto simp: ul_inv_def)
  let ?T = "(thr s)(cur \<mapsto> tc\<lparr>th_state := PS_ACTIVE\<rparr>)"
  show ?thesis
  proof (cases ts)
    case Nil
    obtain s' where s': "mypthread_yield tid s = Inr (Switched cur (Ctx_saved Resume_yield), s')"
      "coop tid kth s' cur []" "thr s' = ?T" "room (qnodes s') = room (qnodes s)"
      "ctx_of s' cur = Some (Ctx_saved Resume_yield)" "mypthread_policy s' = mypthread_policy s"
      by (rule yield_alone [OF co [unfolded Nil] room tc])
    then have "ul_inv tid kth s' cur []" "resumable s' cur" using pol by (simp_all add: ul_inv_def resumable_def)
    with s' Nil show ?thesis by (intro that [of "Ctx_saved Resume_yield" s']) simp_all
  next
    case (Cons x xs)
    have ts: "ts = [] @ x # xs" and na: "\<forall>y\<in>set []. \<not> active (thr s) (Some y)"
      and ax: "active (thr s) (Some x)" using Cons act by simp_all
    obtain c s' where s': "park_current (Some kth) cur (tc\<lparr>th_state := PS_ACTIVE\<rparr>) Resume_yield s =
        Inr (Switched x c, s')" "coop tid kth s' x ([] @ xs @ [cur])" "thr s' = ?T"
      "room (qnodes s') = room (qnodes s)" "mypthread_policy s' = mypthread_policy s"
      "ctx_of s' x = ctx_of s x"
      by (rule park_switch [OF co room ts na ax tc, of "tc\<lparr>th_state := PS_ACTIVE\<rparr>" Resume_yield])
        (use Cons in simp_all)
    have "cur \<notin> set ts" using coopD(5) [OF co] by simp
    then have "\<forall>t\<in>set (xs @ [cur]). active (thr s') (Some t)" "active (thr s') (Some x)"
      using s'(3) act Cons by (auto simp: active_def)
    then have "ul_inv tid kth s' x (xs @ [cur])"
      using s'(2,5) pol by (auto simp: ul_inv_def active_def split: option.splits)
    moreover have "resumable s' x" using s'(6) coopD(8) [OF co] Cons by (simp add: resumable_def)
    ultimately show ?thesis
      using s'(1,4) Cons yield_park [OF co tc] by (intro that [of c s']) simp_all
  qed
qed

lemma ul_create:
  assumes inv: "ul_inv tid kth s cur ts" and new: "thread \<notin> set (cur # ts)" "thr s thread \<noteq> None"
    and room: "0 < room (qnodes s)" "0 < room (ctxs s)"
  obtains s' where
    "mypthread_create tid env thread start_routine arg s = Inr (Returned 0, s')"
    "ul_inv tid kth s' cur (ts @ [thread])"
proof -
  from inv obtain tc where co: "coop tid kth s cur ts" and pol: "mypthread_policy s = ULONLY"
    and act: "\<forall>t\<in>set ts. active (thr s) (Some t)" and tc: "thr s cur = Some tc" "th_state tc \<noteq> PS_DEAD"
    by (auto simp: ul_inv_def)
  from new obtain t0 where t0: "thr s thread = Some t0" by auto
  obtain s' where s': "mypthread_create tid env thread start_routine arg s = Inr (Returned 0, s')"
    "coop tid kth s' cur (ts @ [thread])"
    "thr s' = (thr s)(thread \<mapsto> t0\<lparr>th_ctx := Some (fresh (ctxs s)), th_state := PS_ACTIVE,
                               th_id := mypthread_th_gen s + 1\<rparr>)"
    "mypthread_th_gen s' = mypthread_th_gen s + 1"
    "ctx_of s' thread = Some (Ctx_start start_routine arg)"
    "mypthread_policy s' = ULONLY"
    "Suc (room (qnodes s')) = room (qnodes s)" "Suc (room (ctxs s')) = room (ctxs s)"
    by (rule create_coop [OF co pol new(1) t0 room])
  have "ul_inv tid kth s' cur (ts @ [thread])"
    using s'(2,3,6) act tc new(1) by (auto simp: ul_inv_def active_def)
  with s'(1) show ?thesis by (rule that)
qed

lemma ul_exit:
  assumes inv: "ul_inv tid kth s cur (x # xs)"
  obtains c s' where
    "mypthread_exit tid s = Inr (Switched x c, s')" "ul_inv tid kth s' x xs"
proof -
  from inv obtain tc where co: "coop tid kth s cur (x # xs)" and pol: "mypthread_policy s = ULONLY"
    and act: "\<forall>t\<in>set (x # xs). active (thr s) (Some t)" and tc: "thr s cur = Some tc"
    by (auto simp: ul_inv_def)
  have kn: "\<forall>t\<in>set (x # xs). thr s t \<noteq> None" using coopD(4) [OF co] by (simp add: runq_iff)
  have nc: "cur \<notin> set (x # xs)" using coopD(5) [OF co] by simp
  have act': "active (exit_thr (thr s) cur tc (x # xs)) (Some t)" if "t \<in> set (x # xs)" for t
    using exit_thr_other(2) [OF kn nc that] act that by blast
  have na: "\<forall>y\<in>set []. \<not> active (exit_thr (thr s) cur tc (x # xs)) (Some y)" by simp
  obtain c s' where s': "mypthread_exit tid s = Inr (Switched x c, s')" "coop tid kth s' x ([] @ xs)"
    "thr s' = exit_thr (thr s) cur tc (x # xs)" "room (qnodes s') = Suc (room (qnodes s))"
    "ctx_of s x = Some c" "mypthread_policy s' = mypthread_policy s"
    by (rule exit_switch [OF co tc _ _ na act' [of x]]) simp_all
  obtain tx where "thr s' x = Some tx" "th_state tx = PS_ACTIVE"
    using act' [of x] s'(3) by (auto simp: active_def split: option.splits)
  then have "ul_inv tid kth s' x xs"
    using s'(2,3,6) act' pol by (simp add: ul_inv_def)
  with s'(1) show ?thesis by (rule that)
qed

section \<open>Programs that create, yield and exit\<close>

text \<open>
  A control block the caller may pass to \<open>mypthread_create\<close>: one that has never been a thread, or
  whose thread is dead. The condition is the library's own (an \<open>mypthread_t\<close> must not be reused
  while its thread lives); nothing in the code checks it.
\<close>

definition free_block :: "lib \<Rightarrow> nat \<Rightarrow> bool" where
  "free_block s t =
     (case thr s t of None \<Rightarrow> False | Some b \<Rightarrow> th_ctx b = None \<or> th_state b = PS_DEAD)"

inductive ul_step :: "int \<Rightarrow> lib \<times> nat \<Rightarrow> lib \<times> nat \<Rightarrow> bool" for tid where
  step_create: "\<lbrakk>free_block s t; mypthread_create tid env t f a s = Inr (Returned 0, s')\<rbrakk>
    \<Longrightarrow> ul_step tid (s, cur) (s', cur)"
| step_yield: "mypthread_yield tid s = Inr (Switched x c, s') \<Longrightarrow> ul_step tid (s, cur) (s', x)"
| step_exit: "mypthread_exit tid s = Inr (Switched x c, s') \<Longrightarrow> ul_step tid (s, cur) (s', x)"

inductive_cases ul_stepE: "ul_step tid (s, cur) (s', cur')"

text \<open>
  A program starts by its first \<open>mypthread_create\<close>, called by the main thread, and goes on by steps.
\<close>

inductive ul_reach :: "int \<Rightarrow> lib \<Rightarrow> lib \<times> nat \<Rightarrow> bool" for tid s0 where
  reach_start: "\<lbrakk>t \<noteq> main_thread; thr s0 t \<noteq> None;
      mypthread_create tid env t f a s0 = Inr (Returned 0, s)\<rbrakk> \<Longrightarrow> ul_reach tid s0 (s, main_thread)"
| reach_step: "\<lbrakk>ul_reach tid s0 (s, cur); ul_step tid (s, cur) (s', cur')\<rbrakk>
    \<Longrightarrow> ul_reach tid s0 (s', cur')"

lemma ul_inv_not_free:
  assumes "ul_inv tid kth s cur ts" and "free_block s t"
  shows "t \<notin> set (cur # ts)" and "thr s t \<noteq> None"
proof -
  from assms(1) have co: "coop tid kth s cur ts" by (simp add: ul_inv_def)
  show "thr s t \<noteq> None" using assms(2) by (auto simp: free_block_def split: option.splits)
  show "t \<notin> set (cur # ts)"
  proof
    assume m: "t \<in> set (cur # ts)"
    obtain p c where "ctx_ptr s t = Some p" by (rule coop_ctx_below [OF co m])
    moreover have "\<exists>b. thr s t = Some b \<and> th_state b \<noteq> PS_DEAD"
      using m assms(1) by (auto simp: ul_inv_def active_def split: option.splits)
    ultimately show False using assms(2) by (auto simp: free_block_def ctx_ptr_def)
  qed
qed

text \<open>A call that needs memory and gets none stops the program: \<open>malloc\<close>'s NULL is dereferenced.\<close>

lemma yield_no_room:
  assumes "coop tid kth s cur ts" and "room (qnodes s) = 0"
  shows "mypthread_yield tid s = Inl NullDeref"
proof -
  obtain t where "thr s cur = Some t" using coop_cur [OF assms(1)] by metis
  then show ?thesis
    using coop_on_kthread [OF assms(1)] coopD(2) [OF assms(1)] assms(2)
    by (simp add: mypthread_yield_def on_kthread_def sem_wait_free sems_free_def enqueue_full)
qed

lemma create_thread_no_room:
  assumes "room (qnodes s) = 0 \<or> room (ctxs s) = 0" and "thr s t \<noteq> None"
    and "sems s Mypthread_sem = 1"
  shows "create_thread t f a s = Inl NullDeref"
  using assms
  by (cases "room (ctxs s) = 0")
    (auto simp: create_thread_def malloc_room sem_wait_free enqueue_full)

lemma create_room:
  assumes "ul_inv tid kth s cur ts" and "thr s t \<noteq> None"
    and "mypthread_create tid env t f a s = Inr r"
  shows "0 < room (qnodes s)" and "0 < room (ctxs s)"
proof -
  from assms(1) have co: "coop tid kth s cur ts" by (simp add: ul_inv_def)
  have "create_thread t f a s \<noteq> Inl NullDeref"
    using assms(3) coopD(3) [OF co] by (auto simp: mypthread_create_def)
  then have "\<not> (room (qnodes s) = 0 \<or> room (ctxs s) = 0)"
    using create_thread_no_room [OF _ assms(2), of f a] coopD(2) [OF co] unfolding sems_free_def by blast
  then show "0 < room (qnodes s)" "0 < room (ctxs s)" by (simp_all only: de_Morgan_disj neq0_conv)
qed

lemma ul_inv_step:
  assumes st: "ul_step tid (s, cur) (s', cur')" and inv: "ul_inv tid kth s cur ts"
  shows "\<exists>ts'. ul_inv tid kth s' cur' ts'"
  using st
proof (elim ul_stepE)
  fix t env f a
  assume c: "cur' = cur" "free_block s t" "mypthread_create tid env t f a s = Inr (Returned 0, s')"
  note n = ul_inv_not_free [OF inv c(2)]
  obtain s1 where "mypthread_create tid env t f a s = Inr (Returned 0, s1)"
    "ul_inv tid kth s1 cur (ts @ [t])"
    by (rule ul_create [OF inv n create_room [OF inv n(2) c(3)]])
  with c show ?thesis by auto
next
  fix c
  assume y: "mypthread_yield tid s = Inr (Switched cur' c, s')"
  have "coop tid kth s cur ts" using inv by (simp add: ul_inv_def)
  with y yield_no_room have r: "0 < room (qnodes s)" by fastforce
  show ?thesis by (rule ul_yield [OF inv r]) (use y in auto)
next
  fix c
  assume e: "mypthread_exit tid s = Inr (Switched cur' c, s')"
  show ?thesis
  proof (cases ts)
    case Nil
    with inv have co: "coop tid kth s cur []" by (simp add: ul_inv_def)
    obtain t p where "thr s cur = Some t" "th_ctx t = Some p" by (rule coop_cur [OF co])
    from exit_last [OF co this] e show ?thesis by simp
  next
    case (Cons x xs)
    show ?thesis by (rule ul_exit [OF inv [unfolded Cons]]) (use e in auto)
  qed
qed

lemma first_create_inv:
  assumes st: "at_start s0" and pol: "mypthread_policy s0 = ULONLY"
    and room: "0 < room (ctxs s0)" "0 < room (kths s0)" "0 < room (knodes s0)"
    and t: "t \<noteq> main_thread" "thr s0 t \<noteq> None"
    and c: "mypthread_create tid env t f a s0 = Inr (out, s)"
  shows "ul_inv tid (fresh (kths s0)) s main_thread [t]"
proof -
  obtain s1 where s1: "register_main tid s0 = Inr s1" "coop tid (fresh (kths s0)) s1 main_thread []"
    "thr s1 = (thr s0)(main_thread \<mapsto> (the (thr s0 main_thread))\<lparr>th_id := mypthread_th_gen s0 + 1,
                 th_ctx := Some (fresh (ctxs s0)), th_state := PS_RUNNING\<rparr>)"
    "mypthread_th_gen s1 = mypthread_th_gen s0 + 1" "mypthread_policy s1 = mypthread_policy s0"
    "qnodes s1 = qnodes s0" "Suc (room (ctxs s1)) = room (ctxs s0)" "current_kthread_count s1 = 1"
    by (rule register_main_coop [OF st room])
  have inv1: "ul_inv tid (fresh (kths s0)) s1 main_thread []"
    using s1(2,3,5) pol by (simp add: ul_inv_def)
  have "mypthread_count s0 = 0" "mypthread_count s1 \<noteq> 0"
    using st coopD(3) [OF s1(2)] by (simp_all add: at_start_def)
  with c s1(1) have c1: "mypthread_create tid env t f a s1 = Inr (out, s)"
    by (simp add: mypthread_create_def)
  have t1: "t \<notin> set [main_thread]" "thr s1 t \<noteq> None" using t s1(3) by auto
  obtain s2 where "mypthread_create tid env t f a s1 = Inr (Returned 0, s2)"
    "ul_inv tid (fresh (kths s0)) s2 main_thread ([] @ [t])"
    by (rule ul_create [OF inv1 t1 create_room [OF inv1 t1(2) c1]])
  with c1 show ?thesis by simp
qed

lemma register_room:
  assumes "register_main tid s = Inr s'"
  shows "0 < room (ctxs s)" and "0 < room (kths s)" and "0 < room (knodes s)"
  using assms
  by (auto simp: register_main_def init_locks_def malloc_def Let_def sem_wait_def mykthread_add_def
      create_mykthread_ll_node_def modify_th_def bind_res_Inr_iff split: if_splits)

lemma ul_reach_inv:
  assumes st: "at_start s0" and pol: "mypthread_policy s0 = ULONLY"
  shows "ul_reach tid s0 c \<Longrightarrow> \<exists>ts. ul_inv tid (fresh (kths s0)) (fst c) (snd c) ts"
proof (induction rule: ul_reach.induct)
  case (reach_start t env f a s)
  have "mypthread_count s0 = 0" using st by (simp add: at_start_def)
  with reach_start(3) obtain s1 where "register_main tid s0 = Inr s1"
    by (auto simp: mypthread_create_def bind_res_Inr_iff)
  from first_create_inv [OF st pol register_room [OF this] reach_start]
  show ?case by auto
next
  case (reach_step s cur s' cur')
  then show ?case using ul_inv_step [OF reach_step(2)] by auto
qed

section \<open>Taking turns\<close>

fun yields :: "int \<Rightarrow> nat \<Rightarrow> lib \<Rightarrow> (nat list \<times> lib) res" where
  "yields tid 0 s = Inr ([], s)"
| "yields tid (Suc n) s =
     bind_res (mypthread_yield tid s) (\<lambda>(out, s1).
     case out of
       Switched x c \<Rightarrow> bind_res (yields tid n s1) (\<lambda>(xs, s2). Inr (x # xs, s2))
     | _ \<Rightarrow> Inr ([], s1))"

lemma yields_ring:
  assumes "ul_inv tid kth s cur ts" and "0 < room (qnodes s)" and "ring = ts @ [cur]"
  shows "\<exists>s'. yields tid n s = Inr (map (\<lambda>i. ring ! (i mod length ring)) [0..<n], s') \<and>
    ul_inv tid kth s' (last (rotate n ring)) (butlast (rotate n ring)) \<and>
    room (qnodes s') = room (qnodes s)"
  using assms
proof (induction n arbitrary: s cur ts ring)
  case 0
  then show ?case by simp
next
  case (Suc n)
  obtain c s1 where s1: "mypthread_yield tid s = Inr (Switched (hd ring) c, s1)"
    "ul_inv tid kth s1 (hd ring) (tl ring)" "room (qnodes s1) = room (qnodes s)"
    using ul_yield [OF Suc.prems(1,2)] Suc.prems(3) by metis
  have ne: "ring \<noteq> []" using Suc.prems(3) by simp
  have r1: "rotate1 ring = tl ring @ [hd ring]" using ne by (cases ring) auto
  obtain s2 where s2:
    "yields tid n s1 = Inr (map (\<lambda>i. rotate1 ring ! (i mod length (rotate1 ring))) [0..<n], s2)"
    "ul_inv tid kth s2 (last (rotate n (rotate1 ring))) (butlast (rotate n (rotate1 ring)))"
    "room (qnodes s2) = room (qnodes s1)"
    using Suc.IH [OF s1(2) _ r1] s1(3) Suc.prems(2) by auto
  have "map (\<lambda>i. rotate1 ring ! (i mod length (rotate1 ring))) [0..<n] =
      map (\<lambda>i. ring ! (Suc i mod length ring)) [0..<n]"
    using ne by (simp add: nth_rotate1 mod_Suc_eq)
  moreover have "map (\<lambda>i. ring ! (i mod length ring)) [0..<Suc n] =
      hd ring # map (\<lambda>i. ring ! (Suc i mod length ring)) [0..<n]"
    using ne by (simp only: upt_conv_Cons map_Suc_upt [symmetric]) (simp add: hd_conv_nth)
  moreover have "rotate (Suc n) ring = rotate n (rotate1 ring)" by (simp add: rotate1_rotate_swap)
  ultimately show ?case using s1 s2 by auto
qed

section \<open>A stale tail\<close>

text \<open>
  Taking the last thread of two or more leaves the tail pointer at the released node, and every
  later enqueue into that queue writes to it.
\<close>

lemma deq_stale:
  assumes q: "runq s (as @ [x])" and ne: "as \<noteq> []"
    and na: "\<forall>y\<in>set as. \<not> active (thr s) (Some y)" and act: "active (thr s) (Some x)"
  obtains h N where
    "mypthread_dequeue_first_active s = Inr (Some x, s\<lparr>q_head := h, qnodes := N\<rparr>)"
    "\<forall>d s'. q_head s' = h \<and> q_tail s' = q_tail s \<and> qnodes s' = N \<longrightarrow> mypthread_enqueue d (s' :: lib) = Inl Dangling"
proof -
  obtain xs where r: "\<forall>t\<in>set (as @ [x]). thr s t \<noteq> None" "run_queue s xs"
    "map snd xs = map Some (as @ [x])" using q by (auto simp: runq_iff)
  obtain as' a where xs: "xs = as' @ [(a, Some x)]" "map snd as' = map Some as"
    using map_snd_split [of xs as x "[]"] r(3) by (metis list.map_disc_iff)
  have kn: "all_known (thr s) xs" by (rule all_known_threads [OF r(3,1)])
  have "snd ` set as' = Some ` set as" using arg_cong [OF xs(2), of set] by simp
  then have "\<forall>y\<in>set as'. \<not> active (thr s) (snd y)" using na by (metis imageE imageI)
  then have "first_active (thr s) xs = Some (as', (a, Some x), [])"
    using act xs(1) by (auto simp: split_first_Some)
  from dequeue_some [OF run_queue_chain [OF r(2)] kn this]
  have d: "mypthread_dequeue_first_active s = Inr (Some x, unlinked s as' (a, Some x) [])" by simp
  have ne': "as' \<noteq> []" using xs(2) ne by auto
  let ?u = "unlinked s as' (a, Some x) []"
  note st = stale_tail [OF r(2) [unfolded xs(1)] ne']
  have "mypthread_enqueue e s' = Inl Dangling"
    if "q_head s' = q_head ?u \<and> q_tail s' = q_tail s \<and> qnodes s' = qnodes ?u" for e and s' :: lib
  proof (rule enqueue_stale_tail [OF _ ne'])
    show "run_chain s' as'" using st(1) that by (simp add: run_chain_def)
    show "q_tail s' = Some (fst (a, Some x))" using st(2) that by simp
    show "cells (qnodes s') (fst (a, Some x)) = None" using st(3) that by simp
    show "fst (a, Some x) < fresh (qnodes s')" using st(4) that by simp
    show "0 < room (qnodes s')" using that by simp
  qed
  moreover have "?u = s\<lparr>q_head := q_head ?u, qnodes := qnodes ?u\<rparr>" by simp
  ultimately show ?thesis using d by (intro that [where h = "q_head ?u" and N = "qnodes ?u"]) (simp, blast)
qed

lemma yield_stale:
  assumes co: "coop tid kth s cur ts" and ne: "ts \<noteq> []" and room: "0 < room (qnodes s)"
    and na: "\<forall>y\<in>set ts. \<not> active (thr s) (Some y)"
  obtains s' where "mypthread_yield tid s = Inr (Switched cur (Ctx_saved Resume_yield), s')"
    "mypthread_yield tid s' = Inl Dangling"
proof -
  note co' = coopD [OF co]
  obtain tc p old where tc: "thr s cur = Some tc" and p: "ctx_ptr s cur = Some p"
    "cells (ctxs s) p = Some old" "th_ctx tc = Some p"
    using coop_cur [OF co] by metis
  let ?tc = "tc\<lparr>th_state := PS_ACTIVE\<rparr>"
  let ?T = "(thr s)(cur \<mapsto> ?tc)"
  have nc: "cur \<notin> set ts" using co'(5) by simp
  have kn: "\<forall>t\<in>set ts. ?T t \<noteq> None" using co'(4) by (auto simp: runq_iff)
  let ?sA = "s\<lparr>thr := ?T, sems := (sems s)(Mypthread_sem := 0)\<rparr>"
  have qA: "runq ?sA ts" using runq_thr [OF co'(4) kn] by (simp only: runq_upd)
  have xA: "thr ?sA cur \<noteq> None" and rA: "0 < room (qnodes ?sA)" using room by simp_all
  obtain h t N where e: "mypthread_enqueue (Some cur) ?sA = Inr (?sA\<lparr>q_head := h, q_tail := t, qnodes := N\<rparr>)"
    "runq (?sA\<lparr>q_head := h, q_tail := t, qnodes := N\<rparr>) (ts @ [cur])" "Suc (room N) = room (qnodes ?sA)"
    by (rule enq_runq [OF qA xA rA])
  let ?s1 = "s\<lparr>thr := ?T, q_head := h, q_tail := t, qnodes := N\<rparr>"
  have s1: "mypthread_yield tid s = mythread_scheduler (Some kth) 1 Resume_yield ?s1"
    using e(1) co'(2) yield_park [OF co tc]
    by (simp add: park_current_def sem_wait_free sems_free_def sem_post_def fun_upd_idem)
  have q1: "runq (waited ?s1) (ts @ [cur])" using e(2) by (simp add: runq_iff run_queue_def)
  have na1: "\<forall>y\<in>set ts. \<not> active (thr (waited ?s1)) (Some y)" and act1: "active (thr (waited ?s1)) (Some cur)"
    using na nc by (auto simp: active_def)
  obtain h' N' where d:
    "mypthread_dequeue_first_active (waited ?s1) = Inr (Some cur, (waited ?s1)\<lparr>q_head := h', qnodes := N'\<rparr>)"
    "\<forall>d s'. q_head s' = h' \<and> q_tail s' = q_tail (waited ?s1) \<and> qnodes s' = N' \<longrightarrow>
       mypthread_enqueue d (s' :: lib) = Inl Dangling"
    by (rule deq_stale [OF q1 ne na1 act1])
  have on: "on_kthread tid kth cur ?s1" and free: "sems_free ?s1" and cnt: "mypthread_count ?s1 \<noteq> 0"
    using coop_on_kthread [OF co] co'(2,3) by (simp_all add: on_kthread_def sems_free_def)
  have p1: "ctx_ptr ?s1 cur = Some p" "cells (ctxs ?s1) p = Some old"
    using p tc by (simp_all add: ctx_ptr_def)
  have cx: "ctx_of (?s1\<lparr>ctxs := set_cell (ctxs ?s1) p (Ctx_saved Resume_yield)\<rparr>) cur =
      Some (Ctx_saved Resume_yield)"
    using tc p by (simp add: ctx_of_def ctx_ptr_def)
  have d': "mypthread_dequeue_first_active (waited ?s1) =
      Inr (Some cur, (waited ?s1)\<lparr>q_head := h', q_tail := t, qnodes := N'\<rparr>)"
    using d(1) by simp
  let ?s2 = "s\<lparr>thr := ?T, q_head := h', q_tail := t, qnodes := N',
               kths := run_on tid kth cur (kths s), ctxs := set_cell (ctxs s) p (Ctx_saved Resume_yield)\<rparr>"
  have y: "mypthread_yield tid s = Inr (Switched cur (Ctx_saved Resume_yield), ?s2)"
    using s1 scheduler_swap_deq [OF on free cnt d' p1 cx] by simp
  have "mykthread_get tid ?s2 = Inr (Some kth)"
    using mykthread_get_run_on [OF co'(1), of tid tid cur] on
    by (simp add: on_kthread_def mykthread_get_def)
  then have "mypthread_yield tid ?s2 = Inl Dangling"
    using co'(2) d(2) by (simp add: mypthread_yield_def sem_wait_free sems_free_def)
  with y show ?thesis by (rule that)
qed

end
