(* ===== verification/Mypthread_Sync.thy ===== *)
theory Mypthread_Sync
  imports Mypthread_Coop
begin

text \<open>
  Mutexes and condition variables. Their waiters form a second list in the node heap of the run
  queue; \<open>two_lists s hp tp ts ws\<close> says that the run queue holds \<open>ts\<close> and the list from \<open>hp\<close> to
  \<open>tp\<close> holds \<open>ws\<close>, on nodes of their own. The first section follows both lists through the list
  primitives, the others give the outcome of the routines of \<open>mypthread.c\<close>.
\<close>

section \<open>A list of waiters\<close>

text \<open>
  The routines only follow the next pointers of a waiting list, and \<open>ll_free_one\<close> leaves the first
  node's previous pointer at the node it released, so that pointer may be anything.
\<close>

definition wait_rep :: "mypthread_queue_node heap \<Rightarrow> ptr \<Rightarrow> ptr \<Rightarrow> entries \<Rightarrow> bool" where
  "wait_rep N hp tp ns \<longleftrightarrow>
     (\<exists>p. dll mkq N p ns None) \<and> hp = first_addr ns None \<and> distinct (map fst ns) \<and>
     (ns \<noteq> [] \<longrightarrow> tp = Some (fst (last ns)))"

lemma wait_repE:
  assumes "wait_rep N hp tp ns"
  obtains p where "dll mkq N p ns None" "hp = first_addr ns None" "distinct (map fst ns)"
    "ns \<noteq> [] \<Longrightarrow> tp = Some (fst (last ns))"
  using assms by (auto simp: wait_rep_def)

lemma wait_rep_below: "wait_rep N hp tp ns \<Longrightarrow> heap_ok N \<Longrightarrow> x \<in> set ns \<Longrightarrow> fst x < fresh N"
  unfolding wait_rep_def by (meson dll_cells heap_ok_less)

lemma wait_rep_cong:
  assumes "wait_rep N hp tp ns" and "\<And>x. x \<in> set ns \<Longrightarrow> cells N' (fst x) = cells N (fst x)"
  shows "wait_rep N' hp tp ns"
  using assms dll_cong_cells [of ns N' N mkq] unfolding wait_rep_def by blast

lemma ll_add_wait:
  assumes rep: "wait_rep N hp tp ns" and ok: "heap_ok N" and room: "0 < room N"
  obtains h t N' where
    "ll_add data hp tp N = Inr (h, t, N')" "wait_rep N' h t (ns @ [(fresh N, data)])" "heap_ok N'"
    "\<forall>a. a \<notin> fst ` set ns \<longrightarrow> a \<noteq> fresh N \<longrightarrow> cells N' a = cells N a"
    "Suc (room N') = room N" "fresh N' = Suc (fresh N)"
proof (cases ns rule: rev_cases)
  case Nil
  let ?N = "N\<lparr>cells := (cells N)(fresh N \<mapsto> mkq None data None), fresh := Suc (fresh N), room := room N - 1\<rparr>"
  have "wait_rep ?N (Some (fresh N)) (Some (fresh N)) (ns @ [(fresh N, data)])"
    using Nil by (auto simp: wait_rep_def)
  moreover have "heap_ok ?N" using ok by (auto simp: heap_ok_iff less_Suc_eq split: if_splits)
  moreover have "ll_add data hp tp N = Inr (Some (fresh N), Some (fresh N), ?N)"
    using rep Nil room by (simp add: ll_add_def create_node_ok wait_rep_def)
  ultimately show ?thesis
    using room by (intro that [of "Some (fresh N)" "Some (fresh N)" ?N]) auto
next
  case (snoc ys y)
  obtain p where p: "dll mkq N p ns None" "hp = first_addr ns None" "distinct (map fst ns)"
    "tp = Some (fst (last ns))"
    by (rule wait_repE [OF rep]) (use snoc that in auto)
  have y: "cells N (fst y) = Some (mkq (last_addr p ys) (snd y) None)" "fst y \<notin> fst ` set ys"
    "tp = Some (fst y)" "dll mkq N p ys (Some (fst y))"
    using p snoc by auto
  have nf: "fresh N \<notin> fst ` set ns" using wait_rep_below [OF rep ok] by (metis image_iff less_irrefl)
  let ?N = "N\<lparr>cells := (cells N)(fst y \<mapsto> mkq (last_addr p ys) (snd y) (Some (fresh N)),
                               fresh N \<mapsto> mkq (Some (fst y)) data None),
              fresh := Suc (fresh N), room := room N - 1\<rparr>"
  have ne: "fst y \<noteq> fresh N" using nf snoc by auto
  have "cells ?N (fst x) = cells N (fst x)" if "x \<in> set ys" for x
    using that y(2) nf snoc by (auto simp: image_iff)
  from dll_cong_cells [of ys ?N N mkq p "Some (fst y)", OF this] y(4)
  have "dll mkq ?N p ys (Some (fst y))" by blast
  then have "wait_rep ?N hp (Some (fresh N)) (ns @ [(fresh N, data)])"
    using p nf snoc ne by (auto simp: wait_rep_def)
  moreover have "heap_ok ?N"
    using ok y(1) heap_ok_less [OF ok y(1)] by (auto simp: heap_ok_iff less_Suc_eq split: if_splits)
  moreover have "ll_add data hp tp N = Inr (hp, Some (fresh N), ?N)"
    using room y(1,3) ne p(2) snoc
    by (auto simp: ll_add_def create_node_ok fun_upd_twist split: option.split)
  ultimately show ?thesis using room snoc by (intro that [of hp "Some (fresh N)" ?N]) auto
qed

section \<open>Two lists in one heap\<close>

definition two_lists :: "'a qstate_scheme \<Rightarrow> ptr \<Rightarrow> ptr \<Rightarrow> nat list \<Rightarrow> nat list \<Rightarrow> bool" where
  "two_lists s hp tp ts ws \<longleftrightarrow>
     (\<exists>xs ns. run_queue s xs \<and> map snd xs = map Some ts \<and>
        wait_rep (qnodes s) hp tp ns \<and> map snd ns = map Some ws \<and>
        fst ` set xs \<inter> fst ` set ns = {}) \<and>
     (\<forall>t\<in>set ts \<union> set ws. thr s t \<noteq> None)"

lemma two_listsE:
  assumes "two_lists s hp tp ts ws"
  obtains xs ns where "heap_ok (qnodes s)" "queue_rep mkq (qnodes s) (q_head s) (q_tail s) xs"
    "map snd xs = map Some ts" "wait_rep (qnodes s) hp tp ns" "map snd ns = map Some ws"
    "fst ` set xs \<inter> fst ` set ns = {}" "\<forall>t\<in>set ts \<union> set ws. thr s t \<noteq> None"
  using assms by (auto simp: two_lists_def run_queue_def)

lemma two_listsI:
  "\<lbrakk>heap_ok (qnodes s); queue_rep mkq (qnodes s) (q_head s) (q_tail s) xs; map snd xs = map Some ts;
    wait_rep (qnodes s) hp tp ns; map snd ns = map Some ws; fst ` set xs \<inter> fst ` set ns = {};
    \<forall>t\<in>set ts \<union> set ws. thr s t \<noteq> None\<rbrakk>
   \<Longrightarrow> two_lists s hp tp ts ws"
  unfolding two_lists_def run_queue_def by blast

lemma two_lists_runq: "two_lists (s :: lib) hp tp ts ws \<Longrightarrow> runq s ts"
  by (auto simp: two_lists_def runq_iff)

lemma two_lists_cong:
  "\<lbrakk>two_lists s hp tp ts ws; qnodes s' = qnodes s; q_head s' = q_head s; q_tail s' = q_tail s;
    \<forall>t\<in>set ts \<union> set ws. thr s' t \<noteq> None\<rbrakk> \<Longrightarrow> two_lists s' hp tp ts ws"
  by (simp add: two_lists_def run_queue_def)

text \<open>The nodes of one list keep their contents when the other list changes.\<close>

lemma queue_rep_keep:
  "\<lbrakk>queue_rep mkq N hp tp xs; \<And>x. x \<in> set xs \<Longrightarrow> cells N' (fst x) = cells N (fst x)\<rbrakk>
   \<Longrightarrow> queue_rep mkq N' hp tp xs"
  using queue_rep_cong [of xs N' N mkq] by blast

lemma wait_add:
  assumes q: "two_lists s hp tp ts ws" and x: "thr s x \<noteq> None" and room: "0 < room (qnodes s)"
  obtains h t N where
    "ll_add (Some x) hp tp (qnodes s) = Inr (h, t, N)" "two_lists (s\<lparr>qnodes := N\<rparr>) h t ts (ws @ [x])"
    "Suc (room N) = room (qnodes s)"
proof -
  obtain xs ns where r: "heap_ok (qnodes s)" "queue_rep mkq (qnodes s) (q_head s) (q_tail s) xs"
    "map snd xs = map Some ts" "wait_rep (qnodes s) hp tp ns" "map snd ns = map Some ws"
    "fst ` set xs \<inter> fst ` set ns = {}" "\<forall>t\<in>set ts \<union> set ws. thr s t \<noteq> None"
    by (rule two_listsE [OF q])
  obtain h t N where a: "ll_add (Some x) hp tp (qnodes s) = Inr (h, t, N)"
    "wait_rep N h t (ns @ [(fresh (qnodes s), Some x)])" "heap_ok N"
    "\<forall>a. a \<notin> fst ` set ns \<longrightarrow> a \<noteq> fresh (qnodes s) \<longrightarrow> cells N a = cells (qnodes s) a"
    "Suc (room N) = room (qnodes s)" "fresh N = Suc (fresh (qnodes s))"
    by (rule ll_add_wait [OF r(4,1) room, of "Some x"])
  have nf: "fresh (qnodes s) \<notin> fst ` set xs" by (rule queue_rep_addr [OF r(2,1)])
  have "queue_rep mkq N (q_head s) (q_tail s) xs"
  proof (rule queue_rep_keep [OF r(2)])
    fix y assume "y \<in> set xs"
    then have "fst y \<in> fst ` set xs" by simp
    with r(6) nf have "fst y \<notin> fst ` set ns" "fst y \<noteq> fresh (qnodes s)" by (blast, metis)
    with a(4) show "cells N (fst y) = cells (qnodes s) (fst y)" by simp
  qed
  then have "two_lists (s\<lparr>qnodes := N\<rparr>) h t ts (ws @ [x])"
    using r(3,5,6,7) a(2,3) nf x
    by (intro two_listsI [where xs = xs and ns = "ns @ [(fresh (qnodes s), Some x)]"]) auto
  with a(1,5) show ?thesis by (intro that)
qed

lemma ll_free_wait:
  assumes rep: "wait_rep N hp tp ns" and ok: "heap_ok N" and kn: "all_known T ns"
  shows "ll_free hp tp N T = Inr (None, if ns = [] then tp else None,
     N\<lparr>cells := (cells N) |` (- fst ` set ns), room := room N + length ns\<rparr>,
     wake (\<lambda>_. True) (snd ` set ns) T)"
proof (cases ns)
  case Nil
  with rep show ?thesis by (simp add: ll_free_def wait_rep_def)
next
  case (Cons y ys)
  obtain p where p: "dll mkq N p ns None" "hp = first_addr ns None" "distinct (map fst ns)"
    by (rule wait_repE [OF rep])
  have "length ns < Suc (fresh N)" using dll_length_fresh [OF p(1) ok p(3)] by simp
  from ll_free_loop_spec [OF p(1,3) kn this] p(2) Cons show ?thesis by (simp add: ll_free_def)
qed

lemma wait_free:
  assumes q: "two_lists s hp tp ts ws"
  obtains t N where
    "ll_free hp tp (qnodes s) (thr s) = Inr (None, t, N, wake (\<lambda>_. True) (Some ` set ws) (thr s))"
    "two_lists (s\<lparr>qnodes := N, thr := wake (\<lambda>_. True) (Some ` set ws) (thr s)\<rparr>) None t ts []"
    "room N = room (qnodes s) + length ws"
proof -
  obtain xs ns where r: "heap_ok (qnodes s)" "queue_rep mkq (qnodes s) (q_head s) (q_tail s) xs"
    "map snd xs = map Some ts" "wait_rep (qnodes s) hp tp ns" "map snd ns = map Some ws"
    "fst ` set xs \<inter> fst ` set ns = {}" "\<forall>t\<in>set ts \<union> set ws. thr s t \<noteq> None"
    by (rule two_listsE [OF q])
  let ?N = "(qnodes s)\<lparr>cells := (cells (qnodes s)) |` (- fst ` set ns), room := room (qnodes s) + length ns\<rparr>"
  let ?T = "wake (\<lambda>_. True) (Some ` set ws) (thr s)"
  have len: "length ns = length ws" using arg_cong [OF r(5), of length] by simp
  have im: "snd ` set ns = Some ` set ws" using arg_cong [OF r(5), of set] by simp
  have kn: "all_known (thr s) ns" using r(5,7) by (intro all_known_threads) auto
  have "queue_rep mkq ?N (q_head s) (q_tail s) xs"
    by (rule queue_rep_keep [OF r(2)]) (use r(6) in \<open>auto simp: restrict_map_def\<close>)
  moreover have "heap_ok ?N" using r(1) by (auto simp: heap_ok_iff restrict_map_def split: if_splits)
  ultimately have "two_lists (s\<lparr>qnodes := ?N, thr := ?T\<rparr>) None (if ns = [] then tp else None) ts []"
    using r(3,7) by (intro two_listsI [where xs = xs and ns = "[]"]) (auto simp: wait_rep_def wake_def)
  with ll_free_wait [OF r(4,1) kn] len im show ?thesis by (intro that) auto
qed

lemma wait_free_one:
  assumes q: "two_lists s hp tp ts (w # ws)" and w: "thr s w = Some tw"
  obtains h N where
    "ll_free_one hp (qnodes s) (thr s) = Inr (h, N, (thr s)(w \<mapsto> tw\<lparr>th_state := PS_ACTIVE\<rparr>))"
    "two_lists (s\<lparr>qnodes := N, thr := (thr s)(w \<mapsto> tw\<lparr>th_state := PS_ACTIVE\<rparr>)\<rparr>) h tp ts ws"
    "room N = Suc (room (qnodes s))"
proof -
  obtain xs ns where r: "heap_ok (qnodes s)" "queue_rep mkq (qnodes s) (q_head s) (q_tail s) xs"
    "map snd xs = map Some ts" "wait_rep (qnodes s) hp tp ns" "map snd ns = map Some (w # ws)"
    "fst ` set xs \<inter> fst ` set ns = {}" "\<forall>t\<in>set ts \<union> set (w # ws). thr s t \<noteq> None"
    by (rule two_listsE [OF q])
  from r(5) obtain n ns' where ns: "ns = n # ns'" "snd n = Some w" "map snd ns' = map Some ws" by auto
  obtain p where p: "dll mkq (qnodes s) p ns None" "hp = first_addr ns None" "distinct (map fst ns)"
    "tp = Some (fst (last ns))"
    by (rule wait_repE [OF r(4)]) (use ns(1) that in auto)
  let ?N = "(qnodes s)\<lparr>cells := (cells (qnodes s))(fst n := None), room := Suc (room (qnodes s))\<rparr>"
  let ?T = "(thr s)(w \<mapsto> tw\<lparr>th_state := PS_ACTIVE\<rparr>)"
  have "fst y \<noteq> fst n" if "y \<in> set xs" for y
    using r(6) ns(1) that by (metis IntI emptyE image_eqI list.set_intros(1))
  then have "queue_rep mkq ?N (q_head s) (q_tail s) xs"
    by (intro queue_rep_keep [OF r(2)]) simp
  moreover have "heap_ok ?N" using r(1) by (auto simp: heap_ok_iff split: if_splits)
  moreover have "wait_rep ?N (first_addr ns' None) tp ns'" using p ns(1) by (auto simp: wait_rep_def)
  ultimately have "two_lists (s\<lparr>qnodes := ?N, thr := ?T\<rparr>) (first_addr ns' None) tp ts ws"
    using r(3,6,7) ns by (intro two_listsI [where xs = xs and ns = ns']) auto
  moreover have "ll_free_one hp (qnodes s) (thr s) = Inr (first_addr ns' None, ?N, ?T)"
    using p(1,2) ns(1,2) w by (simp add: ll_free_one_def)
  ultimately show ?thesis by (intro that) auto
qed

lemma wait_enq:
  assumes q: "two_lists s hp tp ts ws" and x: "thr s x \<noteq> None" and room: "0 < room (qnodes s)"
  obtains h t N where
    "mypthread_enqueue (Some x) s = Inr (s\<lparr>q_head := h, q_tail := t, qnodes := N\<rparr>)"
    "two_lists (s\<lparr>q_head := h, q_tail := t, qnodes := N\<rparr>) hp tp (ts @ [x]) ws"
    "Suc (room N) = room (qnodes s)"
proof -
  obtain xs ns where r: "heap_ok (qnodes s)" "queue_rep mkq (qnodes s) (q_head s) (q_tail s) xs"
    "map snd xs = map Some ts" "wait_rep (qnodes s) hp tp ns" "map snd ns = map Some ws"
    "fst ` set xs \<inter> fst ` set ns = {}" "\<forall>t\<in>set ts \<union> set ws. thr s t \<noteq> None"
    by (rule two_listsE [OF q])
  have rq: "run_queue s xs" using r(1,2) by (simp add: run_queue_def)
  have nf: "fresh (qnodes s) \<notin> fst ` set ns"
    using wait_rep_below [OF r(4,1)] by (metis image_iff less_irrefl)
  have w: "wait_rep (push_heap mkq (qnodes s) xs (Some x)) hp tp ns"
  proof (rule wait_rep_cong [OF r(4)])
    fix y assume "y \<in> set ns"
    then have "fst y \<in> fst ` set ns" by simp
    with r(6) nf show "cells (push_heap mkq (qnodes s) xs (Some x)) (fst y) = cells (qnodes s) (fst y)"
      by (intro push_heap_frame) (blast, metis)
  qed
  have "two_lists (enqueued s xs (Some x)) hp tp (ts @ [x]) ws"
    using run_queue_enqueued [OF rq, of "Some x"] w r(3,5,6,7) nf x
    by (intro two_listsI [where xs = "xs @ [(fresh (qnodes s), Some x)]" and ns = ns])
      (auto simp: run_queue_def)
  with enqueue_eq [OF rq room, of "Some x"] room show ?thesis by (intro that) auto
qed

lemma wait_deq:
  assumes q: "two_lists s hp tp (as @ x # bs) ws" and na: "\<forall>y\<in>set as. \<not> active (thr s) (Some y)"
    and act: "active (thr s) (Some x)" and pos: "as = [] \<or> bs \<noteq> []"
  obtains h t N where
    "mypthread_dequeue_first_active s = Inr (Some x, s\<lparr>q_head := h, q_tail := t, qnodes := N\<rparr>)"
    "two_lists (s\<lparr>q_head := h, q_tail := t, qnodes := N\<rparr>) hp tp (as @ bs) ws"
    "room N = Suc (room (qnodes s))"
proof -
  obtain xs ns where r: "heap_ok (qnodes s)" "queue_rep mkq (qnodes s) (q_head s) (q_tail s) xs"
    "map snd xs = map Some (as @ x # bs)" "wait_rep (qnodes s) hp tp ns" "map snd ns = map Some ws"
    "fst ` set xs \<inter> fst ` set ns = {}" "\<forall>t\<in>set (as @ x # bs) \<union> set ws. thr s t \<noteq> None"
    by (rule two_listsE [OF q])
  obtain as' a bs' where xs: "xs = as' @ (a, Some x) # bs'" "map snd as' = map Some as"
    "map snd bs' = map Some bs"
    by (rule map_snd_split [OF r(3)])
  have rq: "run_queue s (as' @ (a, Some x) # bs')" using r(1,2) xs(1) by (simp add: run_queue_def)
  have kn: "all_known (thr s) (as' @ (a, Some x) # bs')"
    using all_known_threads [OF r(3)] r(7) xs(1) by auto
  have "snd ` set as' = Some ` set as" using arg_cong [OF xs(2), of set] by simp
  with na have "\<forall>y\<in>set as'. \<not> active (thr s) (snd y)" by (metis imageE imageI)
  with act have "first_active (thr s) (as' @ (a, Some x) # bs') = Some (as', (a, Some x), bs')"
    by (auto simp: split_first_Some)
  from dequeue_some [OF run_queue_chain [OF rq] kn this]
  have d: "mypthread_dequeue_first_active s = Inr (Some x, unlinked s as' (a, Some x) bs')" by simp
  let ?s' = "unlinked s as' (a, Some x) bs'"
  have "as' = [] \<or> bs' \<noteq> []" using pos xs(2,3) by auto
  from run_queue_unlinked [OF rq this] have q': "run_queue ?s' (as' @ bs')" .
  have "wait_rep (qnodes ?s') hp tp ns"
  proof (rule wait_rep_cong [OF r(4)])
    fix y assume "y \<in> set ns"
    then have "fst y \<in> fst ` set ns" by simp
    with r(6) have "fst y \<notin> fst ` set (as' @ (a, Some x) # bs')" unfolding xs(1) by blast
    from unlinked_out [OF this] show "cells (qnodes ?s') (fst y) = cells (qnodes s) (fst y)" by simp
  qed
  then have "two_lists ?s' hp tp (as @ bs) ws"
    using q' r(5,6,7) xs
    by (intro two_listsI [where xs = "as' @ bs'" and ns = ns]) (auto simp: run_queue_def)
  with d show ?thesis
    by (intro that [where h = "q_head ?s'" and t = "q_tail ?s'" and N = "qnodes ?s'"]) simp_all
qed

section \<open>Mutexes\<close>

text \<open>
  \<open>mutex_rep s m l ts ws\<close>: the lock bit of mutex \<open>m\<close> is \<open>l\<close>, its blocked list holds \<open>ws\<close>, and the
  run queue holds \<open>ts\<close>. \<open>cond_rep\<close> is the same for a condition variable.
\<close>

definition mutex_rep :: "lib \<Rightarrow> nat \<Rightarrow> bool \<Rightarrow> nat list \<Rightarrow> nat list \<Rightarrow> bool" where
  "mutex_rep s m l ts ws \<longleftrightarrow>
     (\<exists>x. mtxs s m = Some x \<and> mtx_lock x = l \<and>
          two_lists s (blocked_q_head x) (blocked_q_tail x) ts ws)"

definition cond_rep :: "lib \<Rightarrow> nat \<Rightarrow> nat list \<Rightarrow> nat list \<Rightarrow> bool" where
  "cond_rep s c ts ws \<longleftrightarrow>
     (\<exists>x. cnds s c = Some x \<and> two_lists s (cond_q_head x) (cond_q_tail x) ts ws)"

lemma mutex_lock_free:
  assumes "sems_free s" and "mtxs s m = Some x" and "\<not> mtx_lock x"
  shows "mypthread_mutex_lock tid m s = Inr (Returned 0, s\<lparr>mtxs := (mtxs s)(m \<mapsto> x\<lparr>mtx_lock := True\<rparr>)\<rparr>)"
    and "mypthread_mutex_trylock m s = Inr (Returned 0, s\<lparr>mtxs := (mtxs s)(m \<mapsto> x\<lparr>mtx_lock := True\<rparr>)\<rparr>)"
  using assms
  by (simp_all add: mypthread_mutex_lock_def mypthread_mutex_trylock_def load_mtx_def sem_wait_free
      sems_free_def sem_post_def fun_upd_idem)

lemma mutex_unlock_wakes:
  assumes free: "sems_free s" and m: "mutex_rep s m l ts ws"
  obtains s' where
    "mypthread_mutex_unlock m s = Inr (Returned 0, s')" "mutex_rep s' m False ts []"
    "thr s' = wake (\<lambda>_. True) (Some ` set ws) (thr s)"
    "room (qnodes s') = room (qnodes s) + length ws" "sems s' = sems s"
    "\<forall>m'. m' \<noteq> m \<longrightarrow> mtxs s' m' = mtxs s m'"
proof -
  from m obtain x where x: "mtxs s m = Some x"
    "two_lists s (blocked_q_head x) (blocked_q_tail x) ts ws" by (auto simp: mutex_rep_def)
  let ?T = "wake (\<lambda>_. True) (Some ` set ws) (thr s)"
  obtain t N where f: "ll_free (blocked_q_head x) (blocked_q_tail x) (qnodes s) (thr s) =
      Inr (None, t, N, ?T)" "two_lists (s\<lparr>qnodes := N, thr := ?T\<rparr>) None t ts []"
    "room N = room (qnodes s) + length ws"
    by (rule wait_free [OF x(2)])
  let ?s' = "s\<lparr>qnodes := N, thr := ?T, mtxs := (mtxs s)(m \<mapsto>
               \<lparr>mtx_lock = False, blocked_q_head = None, blocked_q_tail = t\<rparr>)\<rparr>"
  have "two_lists ?s' None t ts []" by (rule two_lists_cong [OF f(2)]) (use f(2) in \<open>auto simp: two_lists_def\<close>)
  moreover have "mypthread_mutex_unlock m s = Inr (Returned 0, ?s')"
    using free x(1) f(1)
    by (simp add: mypthread_mutex_unlock_def load_mtx_def sem_wait_free sems_free_def sem_post_def
        fun_upd_idem)
  ultimately show ?thesis using f(3) by (intro that [of ?s']) (simp_all add: mutex_rep_def)
qed

text \<open>
  A thread that finds the mutex held: it is blocked, stands at the end of the blocked list and of
  the run queue, its context is made anew to start in \<open>mypthread_mutex_lock\<close>, and the first
  active thread runs.
\<close>

lemma mutex_lock_blocks:
  assumes co: "coop tid kth s cur ts" and m: "mutex_rep s m True ts ws"
    and room: "1 < room (qnodes s)" and cont: "resumable s cur"
    and ts: "ts = as @ x # bs" and na: "\<forall>y\<in>set as. \<not> active (thr s) (Some y)"
    and act: "active (thr s) (Some x)" and tc: "thr s cur = Some tc"
  obtains c s' where
    "mypthread_mutex_lock tid m s = Inr (Switched x c, s')" "coop tid kth s' x (as @ bs @ [cur])"
    "mutex_rep s' m True (as @ bs @ [cur]) (ws @ [cur])"
    "thr s' = (thr s)(cur \<mapsto> tc\<lparr>th_state := PS_BLOCKED\<rparr>)"
    "ctx_of s x = Some c" "ctx_of s' cur = Some (Ctx_lock m)"
proof -
  note co' = coopD [OF co]
  let ?tc = "tc\<lparr>th_state := PS_BLOCKED\<rparr>"
  let ?T = "(thr s)(cur \<mapsto> ?tc)"
  from m obtain mx where mx: "mtxs s m = Some mx" "mtx_lock mx"
    "two_lists s (blocked_q_head mx) (blocked_q_tail mx) ts ws" by (auto simp: mutex_rep_def)
  obtain p old where p: "ctx_ptr s cur = Some p" "cells (ctxs s) p = Some old" "th_ctx tc = Some p"
    using coop_cur [OF co] tc by (metis option.inject)
  have old: "old \<noteq> Ctx_uninit" using cont p by (auto simp: resumable_def ctx_of_def)
  have dist: "cur \<noteq> x" "cur \<notin> set as" using co'(5) ts by auto
  let ?sA = "s\<lparr>thr := ?T\<rparr>"
  have tA: "two_lists ?sA (blocked_q_head mx) (blocked_q_tail mx) ts ws"
    by (rule two_lists_cong [OF mx(3)]) (use mx(3) in \<open>auto simp: two_lists_def\<close>)
  have kA: "thr ?sA cur \<noteq> None" and rA: "0 < room (qnodes ?sA)" using room by simp_all
  obtain h t N1 where e1: "ll_add (Some cur) (blocked_q_head mx) (blocked_q_tail mx) (qnodes ?sA) = Inr (h, t, N1)"
    "two_lists (?sA\<lparr>qnodes := N1\<rparr>) h t ts (ws @ [cur])" "Suc (room N1) = room (qnodes ?sA)"
    by (rule wait_add [OF tA kA rA])
  let ?C = "set_cell (ctxs s) p (Ctx_lock m)"
  let ?M = "(mtxs s)(m \<mapsto> mx\<lparr>blocked_q_head := h, blocked_q_tail := t\<rparr>)"
  let ?sB = "s\<lparr>thr := ?T, qnodes := N1, ctxs := ?C, mtxs := ?M,
               sems := (sems s)(Mutex_sem := 0, Mypthread_sem := 0)\<rparr>"
  have tB: "two_lists ?sB h t ts (ws @ [cur])"
    by (rule two_lists_cong [OF e1(2)]) (use e1(2) in \<open>auto simp: two_lists_def\<close>)
  have kB: "thr ?sB cur \<noteq> None" and rB: "0 < room (qnodes ?sB)" using room e1(3) by simp_all
  obtain h2 t2 N2 where e2: "mypthread_enqueue (Some cur) ?sB = Inr (?sB\<lparr>q_head := h2, q_tail := t2, qnodes := N2\<rparr>)"
    "two_lists (?sB\<lparr>q_head := h2, q_tail := t2, qnodes := N2\<rparr>) h t (ts @ [cur]) (ws @ [cur])"
    "Suc (room N2) = room (qnodes ?sB)"
    by (rule wait_enq [OF tB kB rB])
  let ?s1 = "s\<lparr>thr := ?T, ctxs := ?C, mtxs := ?M, q_head := h2, q_tail := t2, qnodes := N2\<rparr>"
  have lock: "mypthread_mutex_lock tid m s = mythread_scheduler (Some kth) 0 Resume_none ?s1"
    using mx(1,2) coop_on_kthread [OF co] co'(2) tc p(2,3) old e1(1) e2(1)
    by (simp add: mypthread_mutex_lock_def load_mtx_def on_kthread_def makecontext_def sem_wait_free
        sems_free_def sem_post_def fun_upd_idem fun_upd_twist Let_def)
  have ptr: "ctx_ptr (s\<lparr>thr := ?T\<rparr>) y = ctx_ptr s y" for y using ctx_ptr_thr [OF tc, of ?tc] by simp
  from co'(8) ts obtain c where c: "ctx_of s x = Some c" "c \<noteq> Ctx_uninit"
    by (auto simp: resumable_def split: option.splits)
  have "ctx_ptr s x \<noteq> Some p" using co'(7) p(1) ts dist(1) by (auto simp: inj_on_def)
  then have cx: "ctx_of ?s1 x = Some c"
    using ptr [of x] c(1) by (simp add: ctx_of_def ctx_ptr_def split: option.splits)
  have on: "on_kthread tid kth cur ?s1" and free: "sems_free ?s1" and cnt: "mypthread_count ?s1 \<noteq> 0"
    using coop_on_kthread [OF co] co'(2,3) by (simp_all add: on_kthread_def sems_free_def)
  have "two_lists (waited ?s1) h t (as @ x # bs @ [cur]) (ws @ [cur])"
    by (rule two_lists_cong [OF e2(2) [unfolded ts append_assoc append_Cons]])
      (use e2(2) in \<open>auto simp: two_lists_def ts\<close>)
  then obtain h3 t3 N3 where d: "mypthread_dequeue_first_active (waited ?s1) =
      Inr (Some x, (waited ?s1)\<lparr>q_head := h3, q_tail := t3, qnodes := N3\<rparr>)"
    "two_lists ((waited ?s1)\<lparr>q_head := h3, q_tail := t3, qnodes := N3\<rparr>) h t (as @ bs @ [cur]) (ws @ [cur])"
    by (rule wait_deq) (use na act dist in \<open>auto simp: active_def\<close>)
  let ?s2 = "s\<lparr>thr := ?T, ctxs := ?C, mtxs := ?M, q_head := h3, q_tail := t3, qnodes := N3,
               kths := run_on tid kth x (kths s)\<rparr>"
  have r: "mypthread_mutex_lock tid m s = Inr (Switched x c, ?s2)"
    using lock scheduler_set_deq [OF on free cnt d(1) cx c(2)] by simp
  have t2: "two_lists ?s2 h t (as @ bs @ [cur]) (ws @ [cur])"
    by (rule two_lists_cong [OF d(2)]) (use d(2) in \<open>auto simp: two_lists_def\<close>)
  have ptr2: "ctx_ptr ?s2 = ctx_ptr s" using ptr by (simp add: fun_eq_iff ctx_ptr_def)
  note sw = coop_switched [OF co ts p(1,2) _ _ ptr2 two_lists_runq [OF t2], of "Ctx_lock m"]
  have "coop tid kth ?s2 x (as @ bs @ [cur])" by (rule sw(1)) simp_all
  moreover have c2: "ctx_of ?s2 cur = Some (Ctx_lock m)" by (rule trans [OF sw(2)]) simp_all
  moreover have "mutex_rep ?s2 m True (as @ bs @ [cur]) (ws @ [cur])"
    using t2 mx(2) by (simp add: mutex_rep_def)
  ultimately show ?thesis
    using r c(1) c2 by (intro that [of c ?s2]) simp_all
qed

section \<open>Signals\<close>

lemma cond_broadcast_wakes:
  assumes free: "sems_free s" and c: "cond_rep s c ts ws"
  obtains s' where
    "mypthread_cond_broadcast c s = Inr (Returned 0, s')" "cond_rep s' c ts []"
    "thr s' = wake (\<lambda>_. True) (Some ` set ws) (thr s)"
    "room (qnodes s') = room (qnodes s) + length ws" "sems s' = sems s"
proof -
  from c obtain x where x: "cnds s c = Some x"
    "two_lists s (cond_q_head x) (cond_q_tail x) ts ws" by (auto simp: cond_rep_def)
  let ?T = "wake (\<lambda>_. True) (Some ` set ws) (thr s)"
  obtain t N where f: "ll_free (cond_q_head x) (cond_q_tail x) (qnodes s) (thr s) =
      Inr (None, t, N, ?T)" "two_lists (s\<lparr>qnodes := N, thr := ?T\<rparr>) None t ts []"
    "room N = room (qnodes s) + length ws"
    by (rule wait_free [OF x(2)])
  let ?s' = "s\<lparr>qnodes := N, thr := ?T, cnds := (cnds s)(c \<mapsto> \<lparr>cond_q_head = None, cond_q_tail = t\<rparr>)\<rparr>"
  have "two_lists ?s' None t ts []" by (rule two_lists_cong [OF f(2)]) (use f(2) in \<open>auto simp: two_lists_def\<close>)
  moreover have "mypthread_cond_broadcast c s = Inr (Returned 0, ?s')"
    using free x(1) f(1)
    by (simp add: mypthread_cond_broadcast_def load_cnd_def sem_wait_free sems_free_def sem_post_def
        fun_upd_idem fun_upd_twist)
  ultimately show ?thesis using f(3) by (intro that [of ?s']) (simp_all add: cond_rep_def)
qed

lemma cond_signal_eq:
  assumes free: "sems_free s" and x: "cnds s c = Some x" "two_lists s (cond_q_head x) (cond_q_tail x) ts (w # ws)"
    and w: "thr s w = Some tw"
  obtains h N where
    "mypthread_cond_signal c s = Inr (Returned 0, s\<lparr>qnodes := N, thr := (thr s)(w \<mapsto> tw\<lparr>th_state := PS_ACTIVE\<rparr>),
       cnds := (cnds s)(c \<mapsto> x\<lparr>cond_q_head := h\<rparr>)\<rparr>)"
    "two_lists (s\<lparr>qnodes := N, thr := (thr s)(w \<mapsto> tw\<lparr>th_state := PS_ACTIVE\<rparr>),
       cnds := (cnds s)(c \<mapsto> x\<lparr>cond_q_head := h\<rparr>)\<rparr>) h (cond_q_tail x) ts ws"
    "room N = Suc (room (qnodes s))"
proof -
  let ?T = "(thr s)(w \<mapsto> tw\<lparr>th_state := PS_ACTIVE\<rparr>)"
  obtain h N where f: "ll_free_one (cond_q_head x) (qnodes s) (thr s) = Inr (h, N, ?T)"
    "two_lists (s\<lparr>qnodes := N, thr := ?T\<rparr>) h (cond_q_tail x) ts ws"
    "room N = Suc (room (qnodes s))"
    by (rule wait_free_one [OF x(2) w])
  let ?s' = "s\<lparr>qnodes := N, thr := ?T, cnds := (cnds s)(c \<mapsto> x\<lparr>cond_q_head := h\<rparr>)\<rparr>"
  have "two_lists ?s' h (cond_q_tail x) ts ws"
    by (rule two_lists_cong [OF f(2)]) (use f(2) in \<open>auto simp: two_lists_def\<close>)
  moreover have "mypthread_cond_signal c s = Inr (Returned 0, ?s')"
    using free x(1) f(1)
    by (simp add: mypthread_cond_signal_def load_cnd_def sem_wait_free sems_free_def sem_post_def
        fun_upd_idem fun_upd_twist)
  ultimately show ?thesis using f(3) by (intro that)
qed

lemma cond_signal_wakes:
  assumes free: "sems_free s" and c: "cond_rep s c ts (w # ws)" and w: "thr s w = Some tw"
  obtains s' where
    "mypthread_cond_signal c s = Inr (Returned 0, s')" "cond_rep s' c ts ws"
    "thr s' = (thr s)(w \<mapsto> tw\<lparr>th_state := PS_ACTIVE\<rparr>)"
    "room (qnodes s') = Suc (room (qnodes s))" "sems s' = sems s"
proof -
  from c obtain x where x: "cnds s c = Some x"
    "two_lists s (cond_q_head x) (cond_q_tail x) ts (w # ws)" by (auto simp: cond_rep_def)
  show ?thesis by (rule cond_signal_eq [OF free x w]) (auto simp: cond_rep_def intro: that)
qed

lemma cond_signal_nobody:
  assumes free: "sems_free s" and c: "cond_rep s c ts []"
  shows "mypthread_cond_signal c s = Inr (Returned 0, s)"
proof -
  from c obtain x where "cnds s c = Some x" "cond_q_head x = None"
    by (auto simp: cond_rep_def two_lists_def wait_rep_def)
  then show ?thesis
    using free
    by (simp add: mypthread_cond_signal_def load_cnd_def ll_free_one_def sem_wait_free sems_free_def
        sem_post_def fun_upd_idem fun_upd_twist)
qed

text \<open>
  A signal wakes the first waiter and changes nothing else a thread can see; the running thread
  and the order of the run queue stay.
\<close>

lemma signal_coop:
  assumes co: "coop tid kth s cur ts" and c: "cond_rep s cv ts (w # ws)"
  obtains s' tw where
    "mypthread_cond_signal cv s = Inr (Returned 0, s')" "coop tid kth s' cur ts" "cond_rep s' cv ts ws"
    "thr s w = Some tw" "thr s' = (thr s)(w \<mapsto> tw\<lparr>th_state := PS_ACTIVE\<rparr>)"
    "room (qnodes s') = Suc (room (qnodes s))" "mtxs s' = mtxs s" "\<forall>y. ctx_of s' y = ctx_of s y"
proof -
  from c obtain x where x: "cnds s cv = Some x"
    "two_lists s (cond_q_head x) (cond_q_tail x) ts (w # ws)" by (auto simp: cond_rep_def)
  then obtain tw where tw: "thr s w = Some tw" by (auto simp: two_lists_def)
  let ?s' = "\<lambda>h N. s\<lparr>qnodes := N, thr := (thr s)(w \<mapsto> tw\<lparr>th_state := PS_ACTIVE\<rparr>),
      cnds := (cnds s)(cv \<mapsto> x\<lparr>cond_q_head := h\<rparr>)\<rparr>"
  obtain h N where f: "mypthread_cond_signal cv s = Inr (Returned 0, ?s' h N)"
    "two_lists (?s' h N) h (cond_q_tail x) ts ws" "room N = Suc (room (qnodes s))"
    by (rule cond_signal_eq [OF coopD(2) [OF co] x tw])
  have ptr: "ctx_ptr (?s' h N) y = ctx_ptr s y" for y using tw by (simp add: ctx_ptr_def)
  then have ctx: "ctx_of (?s' h N) y = ctx_of s y" for y by (simp add: ctx_of_def split: option.split)
  have "ctx_ptr (?s' h N) = ctx_ptr s" using ptr by (rule ext)
  then have "coop tid kth (?s' h N) cur ts"
    using co two_lists_runq [OF f(2)] ctx by (simp only: coop_def) (simp add: resumable_def sems_free_def)
  with f tw ctx show ?thesis by (intro that [of "?s' h N" tw]) (simp_all add: cond_rep_def)
qed

section \<open>Parking while others wait\<close>

text \<open>
  The scheduler swaps from \<open>cur\<close>, which has just been put at the end of the run queue, to the first
  active thread \<open>x\<close>. The waiters of a second list stay as they are.
\<close>

lemma swap_waiting:
  assumes co: "coop tid kth s cur ts" and ts: "ts = as @ x # bs"
    and na: "\<forall>y\<in>set as. \<not> active (thr s) (Some y)" and act: "active (thr s) (Some x)"
    and tc: "thr s cur = Some tc" "th_ctx tc' = th_ctx tc"
    and s1: "s1 = s\<lparr>mtxs := M, thr := (thr s)(cur \<mapsto> tc'), cnds := D, q_head := h, q_tail := t, qnodes := N\<rparr>"
    and q: "two_lists s1 hp tp (ts @ [cur]) ws"
  obtains c s' where
    "mythread_scheduler (Some kth) 1 r s1 = Inr (Switched x c, s')" "coop tid kth s' x (as @ bs @ [cur])"
    "two_lists s' hp tp (as @ bs @ [cur]) ws" "thr s' = (thr s)(cur \<mapsto> tc')" "mtxs s' = M" "cnds s' = D"
    "room (qnodes s') = Suc (room N)" "ctx_of s x = Some c" "ctx_of s' cur = Some (Ctx_saved r)"
    "\<forall>y\<in>set ts. ctx_of s' y = ctx_of s y"
proof -
  note co' = coopD [OF co]
  obtain p old where p: "ctx_ptr s cur = Some p" "cells (ctxs s) p = Some old"
    using coop_cur [OF co] by metis
  have dist: "cur \<noteq> x" "cur \<notin> set as" using co'(5) ts by auto
  have ptr: "ctx_ptr (s\<lparr>thr := (thr s)(cur \<mapsto> tc')\<rparr>) y = ctx_ptr s y" for y using ctx_ptr_thr [OF tc] by simp
  from co'(8) ts obtain c where c: "ctx_of s x = Some c" "c \<noteq> Ctx_uninit"
    by (auto simp: resumable_def split: option.splits)
  have "ctx_ptr s x \<noteq> Some p" using co'(7) p(1) ts dist(1) by (auto simp: inj_on_def)
  then have cx: "ctx_of (s1\<lparr>ctxs := set_cell (ctxs s1) p (Ctx_saved r)\<rparr>) x = Some c"
    using ptr [of x] c(1) by (simp add: s1 ctx_of_def ctx_ptr_def split: option.splits)
  have on: "on_kthread tid kth cur s1" and free: "sems_free s1" and cnt: "mypthread_count s1 \<noteq> 0"
    using coop_on_kthread [OF co] co'(2,3) by (simp_all add: s1 on_kthread_def sems_free_def)
  have p1: "ctx_ptr s1 cur = Some p" "cells (ctxs s1) p = Some old"
    using p ptr [of cur] by (simp_all add: s1 ctx_ptr_def)
  have qw: "two_lists (waited s1) hp tp (as @ x # bs @ [cur]) ws"
    by (rule two_lists_cong [OF q [unfolded ts append_assoc append_Cons]])
      (use q in \<open>auto simp: two_lists_def ts\<close>)
  obtain h3 t3 N3 where d: "mypthread_dequeue_first_active (waited s1) =
      Inr (Some x, (waited s1)\<lparr>q_head := h3, q_tail := t3, qnodes := N3\<rparr>)"
    "two_lists ((waited s1)\<lparr>q_head := h3, q_tail := t3, qnodes := N3\<rparr>) hp tp (as @ bs @ [cur]) ws"
    "room N3 = Suc (room (qnodes (waited s1)))"
    by (rule wait_deq [OF qw]) (use na act dist in \<open>auto simp: s1 active_def\<close>)
  let ?s2 = "s1\<lparr>q_head := h3, q_tail := t3, qnodes := N3,
               kths := run_on tid kth x (kths s1), ctxs := set_cell (ctxs s1) p (Ctx_saved r)\<rparr>"
  have sch: "mythread_scheduler (Some kth) 1 r s1 = Inr (Switched x c, ?s2)"
    by (rule scheduler_swap_deq [OF on free cnt d(1) p1 cx c(2)])
  have t2: "two_lists ?s2 hp tp (as @ bs @ [cur]) ws"
    by (rule two_lists_cong [OF d(2)]) (use d(2) in \<open>auto simp: two_lists_def\<close>)
  have ptr2: "ctx_ptr ?s2 = ctx_ptr s" using ptr by (simp add: s1 fun_eq_iff ctx_ptr_def)
  have "coop tid kth ?s2 x (as @ bs @ [cur])"
    by (rule coop_switched(1) [OF co ts p _ _ ptr2 two_lists_runq [OF t2], of "Ctx_saved r"]) (simp_all add: s1)
  moreover have "ctx_of ?s2 y = (if y = cur then Some (Ctx_saved r) else ctx_of s y)" if "y \<in> set (cur # ts)" for y
    by (rule coop_switched(2) [OF co ts p _ _ ptr2 two_lists_runq [OF t2], of "Ctx_saved r"])
      (use that in \<open>simp_all add: s1\<close>)
  ultimately show ?thesis
    using sch t2 c(1) d(3) co'(5) by (intro that [of c ?s2]) (auto simp: s1)
qed

text \<open>
  Waiting on a condition, with nobody blocked on the mutex: it is released, the caller is blocked,
  stands at the end of the condition's list and of the run queue, and the first active thread runs.
  The caller's context is saved inside \<open>mypthread_cond_wait\<close>, so it goes on by locking the mutex.
\<close>

lemma cond_wait_blocks:
  assumes co: "coop tid kth s cur ts" and c: "cond_rep s cv ts ws"
    and m: "mtxs s m = Some mx" "blocked_q_head mx = None" and room: "1 < room (qnodes s)"
    and ts: "ts = as @ x # bs" and na: "\<forall>y\<in>set as. \<not> active (thr s) (Some y)"
    and act: "active (thr s) (Some x)" and tc: "thr s cur = Some tc"
  obtains c s' where
    "mypthread_cond_wait tid cv m s = Inr (Switched x c, s')" "coop tid kth s' x (as @ bs @ [cur])"
    "cond_rep s' cv (as @ bs @ [cur]) (ws @ [cur])"
    "thr s' = (thr s)(cur \<mapsto> tc\<lparr>th_state := PS_BLOCKED\<rparr>)"
    "mtxs s' = (mtxs s)(m \<mapsto> mx\<lparr>mtx_lock := False\<rparr>)"
    "ctx_of s x = Some c" "ctx_of s' cur = Some (Ctx_saved (Resume_cond_wait m))"
    "\<forall>y\<in>set ts. ctx_of s' y = ctx_of s y" "Suc (room (qnodes s')) = room (qnodes s)"
proof -
  note co' = coopD [OF co]
  let ?tc = "tc\<lparr>th_state := PS_BLOCKED\<rparr>"
  let ?T = "(thr s)(cur \<mapsto> ?tc)"
  let ?M = "(mtxs s)(m \<mapsto> mx\<lparr>mtx_lock := False\<rparr>)"
  from c obtain cx where cx: "cnds s cv = Some cx"
    "two_lists s (cond_q_head cx) (cond_q_tail cx) ts ws" by (auto simp: cond_rep_def)
  let ?sA = "s\<lparr>thr := ?T\<rparr>"
  have tA: "two_lists ?sA (cond_q_head cx) (cond_q_tail cx) ts ws"
    by (rule two_lists_cong [OF cx(2)]) (use cx(2) in \<open>auto simp: two_lists_def\<close>)
  have kA: "thr ?sA cur \<noteq> None" and rA: "0 < room (qnodes ?sA)" using room by simp_all
  obtain h t N1 where e1: "ll_add (Some cur) (cond_q_head cx) (cond_q_tail cx) (qnodes ?sA) = Inr (h, t, N1)"
    "two_lists (?sA\<lparr>qnodes := N1\<rparr>) h t ts (ws @ [cur])" "Suc (room N1) = room (qnodes ?sA)"
    by (rule wait_add [OF tA kA rA])
  let ?D = "(cnds s)(cv \<mapsto> \<lparr>cond_q_head = h, cond_q_tail = t\<rparr>)"
  let ?sB = "s\<lparr>mtxs := ?M, thr := ?T, qnodes := N1, cnds := ?D,
               sems := (sems s)(Cond_sem := 0, Mypthread_sem := 0)\<rparr>"
  have tB: "two_lists ?sB h t ts (ws @ [cur])"
    by (rule two_lists_cong [OF e1(2)]) (use e1(2) in \<open>auto simp: two_lists_def\<close>)
  have kB: "thr ?sB cur \<noteq> None" and rB: "0 < room (qnodes ?sB)" using room e1(3) by simp_all
  obtain h2 t2 N2 where e2: "mypthread_enqueue (Some cur) ?sB = Inr (?sB\<lparr>q_head := h2, q_tail := t2, qnodes := N2\<rparr>)"
    "two_lists (?sB\<lparr>q_head := h2, q_tail := t2, qnodes := N2\<rparr>) h t (ts @ [cur]) (ws @ [cur])"
    "Suc (room N2) = room (qnodes ?sB)"
    by (rule wait_enq [OF tB kB rB])
  let ?s1 = "s\<lparr>mtxs := ?M, thr := ?T, cnds := ?D, q_head := h2, q_tail := t2, qnodes := N2\<rparr>"
  have t1: "two_lists ?s1 h t (ts @ [cur]) (ws @ [cur])"
    by (rule two_lists_cong [OF e2(2)]) (use e2(2) in \<open>auto simp: two_lists_def\<close>)
  obtain c s' where s': "mythread_scheduler (Some kth) 1 (Resume_cond_wait m) ?s1 = Inr (Switched x c, s')"
    "coop tid kth s' x (as @ bs @ [cur])" "two_lists s' h t (as @ bs @ [cur]) (ws @ [cur])" "thr s' = ?T"
    "mtxs s' = ?M" "cnds s' = ?D" "room (qnodes s') = Suc (room N2)" "ctx_of s x = Some c"
    "ctx_of s' cur = Some (Ctx_saved (Resume_cond_wait m))" "\<forall>y\<in>set ts. ctx_of s' y = ctx_of s y"
    by (rule swap_waiting [OF co ts na act tc _ refl t1, where r = "Resume_cond_wait m"]) simp_all
  have unl: "mypthread_mutex_unlock m (s\<lparr>sems := (sems s)(Cond_sem := 0)\<rparr>) =
      Inr (Returned 0, s\<lparr>mtxs := ?M, sems := (sems s)(Cond_sem := 0)\<rparr>)"
    using m co'(2)
    by (cases mx) (simp add: mypthread_mutex_unlock_def load_mtx_def ll_free_def sem_wait_free sems_free_def
        sem_post_def fun_upd_idem fun_upd_twist)
  have "mypthread_cond_wait tid cv m s = Inr (Switched x c, s')"
    using coop_on_kthread [OF co] co'(2) tc cx(1) e1(1) e2(1) unl s'(1)
    by (simp add: mypthread_cond_wait_def load_cnd_def on_kthread_def sem_wait_free
        sems_free_def sem_post_def fun_upd_idem fun_upd_twist Let_def)
  moreover have "cond_rep s' cv (as @ bs @ [cur]) (ws @ [cur])" using s'(3,6) by (simp add: cond_rep_def)
  ultimately show ?thesis using s' e1(3) e2(3) by (intro that [of c s']) simp_all
qed

text \<open>A yield does not touch the waiters of a condition variable.\<close>

lemma yield_waiting:
  assumes co: "coop tid kth s cur ts" and c: "cond_rep s cv ts ws" and room: "0 < room (qnodes s)"
    and ts: "ts = as @ x # bs" and na: "\<forall>y\<in>set as. \<not> active (thr s) (Some y)"
    and act: "active (thr s) (Some x)" and tc: "thr s cur = Some tc"
  obtains c s' where
    "mypthread_yield tid s = Inr (Switched x c, s')" "coop tid kth s' x (as @ bs @ [cur])"
    "cond_rep s' cv (as @ bs @ [cur]) ws" "thr s' = (thr s)(cur \<mapsto> tc\<lparr>th_state := PS_ACTIVE\<rparr>)"
    "mtxs s' = mtxs s" "room (qnodes s') = room (qnodes s)" "ctx_of s x = Some c"
    "ctx_of s' cur = Some (Ctx_saved Resume_yield)" "\<forall>y\<in>set ts. ctx_of s' y = ctx_of s y"
proof -
  let ?T = "(thr s)(cur \<mapsto> tc\<lparr>th_state := PS_ACTIVE\<rparr>)"
  from c obtain cx where cx: "cnds s cv = Some cx"
    "two_lists s (cond_q_head cx) (cond_q_tail cx) ts ws" by (auto simp: cond_rep_def)
  let ?sA = "s\<lparr>thr := ?T, sems := (sems s)(Mypthread_sem := 0)\<rparr>"
  have tA: "two_lists ?sA (cond_q_head cx) (cond_q_tail cx) ts ws"
    by (rule two_lists_cong [OF cx(2)]) (use cx(2) in \<open>auto simp: two_lists_def\<close>)
  have kA: "thr ?sA cur \<noteq> None" and rA: "0 < room (qnodes ?sA)" using room by simp_all
  obtain h t N where e: "mypthread_enqueue (Some cur) ?sA = Inr (?sA\<lparr>q_head := h, q_tail := t, qnodes := N\<rparr>)"
    "two_lists (?sA\<lparr>q_head := h, q_tail := t, qnodes := N\<rparr>) (cond_q_head cx) (cond_q_tail cx) (ts @ [cur]) ws"
    "Suc (room N) = room (qnodes ?sA)"
    by (rule wait_enq [OF tA kA rA])
  let ?s1 = "s\<lparr>mtxs := mtxs s, thr := ?T, cnds := cnds s, q_head := h, q_tail := t, qnodes := N\<rparr>"
  have t1: "two_lists ?s1 (cond_q_head cx) (cond_q_tail cx) (ts @ [cur]) ws"
    by (rule two_lists_cong [OF e(2)]) (use e(2) in \<open>auto simp: two_lists_def\<close>)
  obtain c s' where s': "mythread_scheduler (Some kth) 1 Resume_yield ?s1 = Inr (Switched x c, s')"
    "coop tid kth s' x (as @ bs @ [cur])" "two_lists s' (cond_q_head cx) (cond_q_tail cx) (as @ bs @ [cur]) ws"
    "thr s' = ?T" "mtxs s' = mtxs s" "cnds s' = cnds s" "room (qnodes s') = Suc (room N)" "ctx_of s x = Some c"
    "ctx_of s' cur = Some (Ctx_saved Resume_yield)" "\<forall>y\<in>set ts. ctx_of s' y = ctx_of s y"
    by (rule swap_waiting [OF co ts na act tc _ refl t1, where r = Resume_yield]) simp_all
  have "mypthread_yield tid s = mythread_scheduler (Some kth) 1 Resume_yield ?s1"
    using e(1) coopD(2) [OF co] yield_park [OF co tc]
    by (simp add: park_current_def sem_wait_free sems_free_def sem_post_def fun_upd_idem)
  moreover have "cond_rep s' cv (as @ bs @ [cur]) ws" using s'(3,6) cx(1) by (simp add: cond_rep_def)
  ultimately show ?thesis using s' e(3) by (intro that [of c s']) simp_all
qed

section \<open>A mutex nobody waits for\<close>

definition mutex_free :: "lib \<Rightarrow> nat \<Rightarrow> bool" where
  "mutex_free s m = (case mtxs s m of
       None \<Rightarrow> False | Some x \<Rightarrow> \<not> mtx_lock x \<and> blocked_q_head x = None)"

lemma unlock_unwaited:
  assumes "sems_free s" and "mtxs s m = Some x" and "blocked_q_head x = None"
  shows "mypthread_mutex_unlock m s = Inr (Returned 0, s\<lparr>mtxs := (mtxs s)(m \<mapsto> x\<lparr>mtx_lock := False\<rparr>)\<rparr>)"
  using assms
  by (cases x) (simp add: mypthread_mutex_unlock_def load_mtx_def ll_free_def sem_wait_free
      sems_free_def sem_post_def fun_upd_idem)

lemma sems_free_mtxs [simp]: "sems_free (s\<lparr>mtxs := M\<rparr>) = sems_free s"
  by (simp add: sems_free_def)

lemma mutex_freeE:
  assumes "mutex_free s m"
  obtains x where "mtxs s m = Some x" "\<not> mtx_lock x" "blocked_q_head x = None"
    "x\<lparr>mtx_lock := False\<rparr> = x"
  using assms by (auto simp: mutex_free_def split: option.splits)

lemma two_lists_mtxs [simp]: "two_lists (s\<lparr>mtxs := M\<rparr>) h t ts ws = two_lists s h t ts ws"
  by (simp add: two_lists_def run_queue_def)

lemma cond_rep_mtxs [simp]: "cond_rep (s\<lparr>mtxs := M\<rparr>) c ts ws = cond_rep s c ts ws"
  by (simp add: cond_rep_def)

end
