(* ===== verification/Mypthread_Frame.thy ===== *)
theory Mypthread_Frame
  imports Mypthread
begin

text \<open>
  What every routine of \<open>mypthread.c\<close> leaves alone, in any state, well formed or not: a call that
  gets to its end (by returning, by switching or by going to sleep in the scheduler) has given
  back each semaphore it took.
\<close>

named_theorems sem_frame "calls after which the semaphores are as before"

lemma sem_wait_Inr_iff [res_simps]:
  "sem_wait n s = Inr s' \<longleftrightarrow> sems s n \<noteq> 0 \<and> s' = s\<lparr>sems := (sems s)(n := sems s n - 1)\<rparr>"
  by (auto simp: sem_wait_def)

lemma sem_back [simp]: "0 < f n \<Longrightarrow> f(n := Suc (f n - Suc 0)) = (f :: 'a \<Rightarrow> nat)"
  by (simp add: fun_eq_iff)

lemma enqueue_frame [sem_frame]:
  "mypthread_enqueue d s = Inr s' \<Longrightarrow> \<exists>h t N. s' = s\<lparr>q_head := h, q_tail := t, qnodes := N\<rparr>"
  by (auto simp: mypthread_enqueue_def bind_res_Inr_iff)

lemma unlink_frame:
  "unlink_node d s = Inr (x, s') \<Longrightarrow> \<exists>h N. s' = s\<lparr>q_head := h, qnodes := N\<rparr>"
  by (auto simp: unlink_node_def bind_res_Inr_iff Let_def)

lemma dequeue_frame [sem_frame]:
  "mypthread_dequeue_first_active s = Inr (x, s') \<Longrightarrow> \<exists>h N. s' = s\<lparr>q_head := h, qnodes := N\<rparr>"
proof -
  assume d: "mypthread_dequeue_first_active s = Inr (x, s')"
  show ?thesis
  proof (cases "find_active_loop (Suc (fresh (qnodes s))) (qnodes s) (thr s) (q_head s) = Inr None")
    case True
    with d have "s' = s\<lparr>q_head := q_head s, qnodes := qnodes s\<rparr>"
      by (simp add: mypthread_dequeue_first_active_def)
    then show ?thesis by blast
  next
    case False
    with d obtain del where "unlink_node del s = Inr (x, s')"
      by (auto simp: mypthread_dequeue_first_active_def bind_res_Inr_iff split: if_splits)
    then show ?thesis by (rule unlink_frame)
  qed
qed

lemma update_waiting_frame [sem_frame]:
  "mypthread_update_waiting_threads i s = Inr s' \<Longrightarrow> \<exists>T. s' = s\<lparr>thr := T\<rparr>"
  by (auto simp: mypthread_update_waiting_threads_def bind_res_Inr_iff)

lemma setcontext_frame: "setcontext t s = Inr (out, s') \<Longrightarrow> s' = s \<and> (\<exists>x c. out = Switched x c)"
  by (auto simp: setcontext_def bind_res_Inr_iff split: if_splits)

lemma swapcontext_frame:
  "swapcontext l t r s = Inr (out, s') \<Longrightarrow> (\<exists>C. s' = s\<lparr>ctxs := C\<rparr>) \<and> (\<exists>x c. out = Switched x c)"
  by (auto simp: swapcontext_def bind_res_Inr_iff dest!: setcontext_frame)

lemma switch_frame:
  assumes "(if mode = 0 then setcontext t s else swapcontext l t r s) = Inr (out, s')"
  shows "sems s' = sems s \<and> mtxs s' = mtxs s \<and> (\<forall>v. out \<noteq> Returned v)"
proof (cases "mode = 0")
  case True
  with assms setcontext_frame [of t s out s'] show ?thesis by auto
next
  case False
  with assms swapcontext_frame [of l t r s out s'] show ?thesis by auto
qed

lemma sem_round: "sem_wait n s = Inr s1 \<Longrightarrow> sems s2 = sems s1 \<Longrightarrow> sems (sem_post n s2) = sems s"
  by (auto simp: sem_wait_Inr_iff sem_post_def)

lemma sem_wait_mtxs: "sem_wait n s = Inr s1 \<Longrightarrow> mtxs s1 = mtxs s"
  by (auto simp: sem_wait_Inr_iff)

lemma sem_post_mtxs [simp]: "mtxs (sem_post n s) = mtxs s"
  by (simp add: sem_post_def)

lemma scheduler_pass_sems:
  assumes "scheduler_pass k mode l r s = Inr (out, s')"
  shows "sems s' = sems s \<and> mtxs s' = mtxs s \<and> (\<forall>v. out \<noteq> Returned v)"
proof -
  let ?go = "\<lambda>(x, s2). let s3 = sem_post Mypthread_sem s2 in
      if x \<noteq> None then
        bind_res (sem_wait Kthread_sem s3) (\<lambda>s4.
        bind_res (modify (kths s4) k (\<lambda>k. k\<lparr>kth_th := x\<rparr>)) (\<lambda>K.
        let s5 = sem_post Kthread_sem (s4\<lparr>kths := K\<rparr>) in
        if mode = 0 then setcontext x s5 else swapcontext l x r s5))
      else Inr (Sleeping k mode l r, s3)"
  from assms obtain s1 where w: "sem_wait Mypthread_sem s = Inr s1"
    and 1: "bind_res (mypthread_dequeue_first_active s1) ?go = Inr (out, s')"
    unfolding scheduler_pass_def by (rule bind_res_InrE)
  from 1 obtain x s2 where d: "mypthread_dequeue_first_active s1 = Inr (x, s2)"
    and 2: "?go (x, s2) = Inr (out, s')"
    by (elim bind_res_InrE) auto
  let ?s3 = "sem_post Mypthread_sem s2"
  from dequeue_frame [OF d] have "sems s2 = sems s1" "mtxs s2 = mtxs s1" by auto
  with w have s3: "sems ?s3 = sems s" "mtxs ?s3 = mtxs s"
    by (simp_all add: sem_round sem_wait_mtxs)
  show ?thesis
  proof (cases x)
    case None
    with 2 s3 show ?thesis by auto
  next
    case (Some a)
    with 2 obtain s4 K where s4: "sem_wait Kthread_sem ?s3 = Inr s4"
      and 3: "(if mode = 0 then setcontext x (sem_post Kthread_sem (s4\<lparr>kths := K\<rparr>))
        else swapcontext l x r (sem_post Kthread_sem (s4\<lparr>kths := K\<rparr>))) = Inr (out, s')"
      by (auto simp: bind_res_Inr_iff Let_def)
    from switch_frame [OF 3] s3 s4 show ?thesis by (simp add: sem_round sem_wait_mtxs)
  qed
qed

lemma scheduler_sems:
  assumes "mythread_scheduler k mode r s = Inr (out, s')"
  shows "sems s' = sems s \<and> mtxs s' = mtxs s \<and> ((\<exists>v. out = Returned v) \<longrightarrow> mypthread_count s = 0)"
  using assms
  by (auto simp: mythread_scheduler_def bind_res_Inr_iff res_simps Let_def sem_post_def
      split: if_splits dest!: scheduler_pass_sems)

lemma yield_sems: "mypthread_yield tid s = Inr (out, s') \<Longrightarrow> sems s' = sems s \<and> mtxs s' = mtxs s"
  by (auto simp: mypthread_yield_def bind_res_Inr_iff res_simps sem_post_def
      dest!: enqueue_frame scheduler_sems)

lemma wait_for_thread_sems: "wait_for_thread k i s = Inr (out, s') \<Longrightarrow> sems s' = sems s"
  by (auto simp: wait_for_thread_def bind_res_Inr_iff res_simps sem_post_def
      dest!: enqueue_frame scheduler_sems)

lemma join_sems: "mypthread_join tid i s = Inr (out, s') \<Longrightarrow> sems s' = sems s"
  by (auto simp: mypthread_join_def bind_res_Inr_iff res_simps sem_post_def Let_def fun_upd_twist
      split: if_splits dest!: wait_for_thread_sems)

lemma exit_sems: "mypthread_exit tid s = Inr (out, s') \<Longrightarrow> sems s' = sems s"
  by (auto simp: mypthread_exit_def bind_res_Inr_iff res_simps sem_post_def Let_def
      dest!: update_waiting_frame scheduler_sems)

lemma unlock_sems: "mypthread_mutex_unlock m s = Inr (out, s') \<Longrightarrow> sems s' = sems s \<and> out = Returned 0"
  by (auto simp: mypthread_mutex_unlock_def bind_res_Inr_iff res_simps sem_post_def)

lemma lock_sems: "mypthread_mutex_lock tid m s = Inr (out, s') \<Longrightarrow> sems s' = sems s"
  by (auto simp: mypthread_mutex_lock_def bind_res_Inr_iff res_simps sem_post_def Let_def fun_upd_twist
      split: if_splits dest!: enqueue_frame scheduler_sems)

lemma trylock_sems:
  "mypthread_mutex_trylock m s = Inr (out, s') \<Longrightarrow> out \<noteq> Returned EBUSY \<Longrightarrow> sems s' = sems s"
  by (auto simp: mypthread_mutex_trylock_def bind_res_Inr_iff res_simps sem_post_def split: if_splits)

lemma destroy_sems:
  "mypthread_mutex_destroy m s = Inr (out, s') \<Longrightarrow> sems s' = sems s"
  "mypthread_cond_destroy c s = Inr (out, s') \<Longrightarrow> sems s' = sems s"
  by (auto simp: mypthread_mutex_destroy_def mypthread_mutex_init_def mypthread_cond_destroy_def
      mypthread_cond_init_def bind_res_Inr_iff res_simps sem_post_def)

lemma cond_sems:
  "mypthread_cond_broadcast c s = Inr (out, s') \<Longrightarrow> sems s' = sems s"
  "mypthread_cond_signal c s = Inr (out, s') \<Longrightarrow> sems s' = sems s"
  by (auto simp: mypthread_cond_broadcast_def mypthread_cond_signal_def bind_res_Inr_iff res_simps
      sem_post_def fun_upd_twist)

lemma cond_wait_sems: "mypthread_cond_wait tid c m s = Inr (out, s') \<Longrightarrow> sems s' = sems s"
  by (auto simp: mypthread_cond_wait_def bind_res_Inr_iff sem_wait_Inr_iff sem_post_def fun_upd_twist
      split: outcome.splits dest!: enqueue_frame scheduler_sems unlock_sems lock_sems)
    (metis outcome.exhaust)

text \<open>A lock that returns found the mutex free, and leaves it held.\<close>

lemma lock_returned:
  assumes r: "mypthread_mutex_lock tid m s = Inr (Returned v, s')" and cnt: "mypthread_count s \<noteq> 0"
  shows "\<exists>x. mtxs s m = Some x \<and> \<not> mtx_lock x \<and> s' = s\<lparr>mtxs := (mtxs s)(m \<mapsto> x\<lparr>mtx_lock := True\<rparr>)\<rparr>"
proof -
  from r have "load_mtx m s \<noteq> Inl Dangling"
    by (auto simp: mypthread_mutex_lock_def bind_res_Inr_iff sem_wait_Inr_iff load_mtx_def split: option.splits)
  then obtain x where x: "mtxs s m = Some x" by (auto simp: load_mtx_def split: option.splits)
  show ?thesis
  proof (cases "mtx_lock x")
    case True
    with r x cnt have False
      by (auto simp: mypthread_mutex_lock_def bind_res_Inr_iff sem_wait_Inr_iff load_mtx_def sem_post_def
          Let_def dest!: enqueue_frame scheduler_sems)
    then show ?thesis ..
  next
    case False
    with r x show ?thesis
      by (auto simp: mypthread_mutex_lock_def bind_res_Inr_iff sem_wait_Inr_iff load_mtx_def sem_post_def)
  qed
qed

end
