(* ===== verification/Mypthread_Demo.thy ===== *)
theory Mypthread_Demo
  imports Mypthread_Steps Mypthread_Sync Mypthread_Frame
begin

text \<open>
  A small program in which the properties are tried: the main thread of a process that has just
  started creates the threads 1 and 2 (start routines 101 and 102).
\<close>

definition after :: "(outcome list \<times> lib) res \<Rightarrow> lib" where
  "after r = (case r of Inl _ \<Rightarrow> program_start 0 0 | Inr (_, s) \<Rightarrow> s)"

definition create_two :: "(lib \<Rightarrow> (outcome \<times> lib) res) list" where
  "create_two = [mypthread_create 7 Clone_ok 1 101 5, mypthread_create 7 Clone_ok 2 102 6]"

definition demo :: lib where
  "demo = after (run_calls create_two (program_start 50 5))"

lemma at_start_program: "0 < n \<Longrightarrow> at_start (program_start r n)"
  by (auto simp: at_start_def program_start_def no_cells_def runq_iff run_queue_def kthread_list_def
      queue_rep_def heap_ok_def main_thread_def)

definition demo_one :: lib where
  "demo_one = after (run_calls [mypthread_create 7 Clone_ok 1 101 5] (program_start 50 5))"

lemma demo_one_run:
  "run_calls [mypthread_create 7 Clone_ok 1 101 5] (program_start 50 5) = Inr ([Returned 0], demo_one)"
proof -
  have "(case run_calls [mypthread_create 7 Clone_ok 1 101 5] (program_start 50 5) of
      Inl _ \<Rightarrow> False | Inr (os, s) \<Rightarrow> os = [Returned 0])" by code_simp
  then show ?thesis by (auto simp: demo_one_def after_def split: sum.splits)
qed

lemma demo_one_inv: "ul_inv 7 0 demo_one main_thread [1]"
proof -
  let ?s0 = "program_start 50 5"
  have st: "at_start ?s0" by (rule at_start_program) simp
  have pol: "mypthread_policy ?s0 = ULONLY" and room: "0 < room (ctxs ?s0)" "0 < room (kths ?s0)"
    "0 < room (knodes ?s0)" and t1: "1 \<noteq> main_thread" "thr ?s0 1 \<noteq> None" and k: "fresh (kths ?s0) = 0"
    by (simp_all add: program_start_def no_cells_def ULONLY_def main_thread_def)
  from demo_one_run have "mypthread_create 7 Clone_ok 1 101 5 ?s0 = Inr (Returned 0, demo_one)"
    by (auto simp: bind_res_Inr_iff)
  from first_create_inv [OF st pol room t1 this] k show ?thesis by simp
qed

lemma demo_one_facts:
  "0 < room (qnodes demo_one)" "free_block demo_one 2"
  "map_option (\<lambda>t. (th_id t, th_state t)) (thr demo_one main_thread) = Some (1, PS_RUNNING)"
  "map_option (\<lambda>t. (th_id t, th_state t)) (thr demo_one 1) = Some (2, PS_ACTIVE)"
  by code_simp+

lemma demo_run: "mypthread_create 7 Clone_ok 2 102 6 demo_one = Inr (Returned 0, demo)"
proof -
  have "(case run_calls create_two (program_start 50 5) of Inl _ \<Rightarrow> False | Inr (os, s) \<Rightarrow> True)"
    by code_simp
  then obtain os where "run_calls create_two (program_start 50 5) = Inr (os, demo)"
    by (auto simp: demo_def after_def split: sum.splits)
  with demo_one_run obtain o2 where c: "mypthread_create 7 Clone_ok 2 102 6 demo_one = Inr (o2, demo)"
    by (auto simp: create_two_def bind_res_Inr_iff)
  then show ?thesis by (auto simp: mypthread_create_def bind_res_Inr_iff)
qed

lemma demo_inv: "ul_inv 7 0 demo main_thread [1, 2]"
proof -
  note n = ul_inv_not_free [OF demo_one_inv demo_one_facts(2)]
  obtain s' where "mypthread_create 7 Clone_ok 2 102 6 demo_one = Inr (Returned 0, s')"
    "ul_inv 7 0 s' main_thread ([1] @ [2])"
    by (rule ul_create [OF demo_one_inv n create_room [OF demo_one_inv n(2) demo_run]])
  with demo_run show ?thesis by simp
qed

text \<open>The main thread alone, as it registers itself.\<close>

definition demo_alone :: lib where
  "demo_alone = (case register_main 7 (program_start 50 5) of Inl _ \<Rightarrow> program_start 0 0 | Inr s \<Rightarrow> s)"

lemma demo_alone_coop:
  "coop 7 0 demo_alone main_thread []"
  "map_option th_id (thr demo_alone main_thread) = Some 1" "0 < room (qnodes demo_alone)"
proof -
  let ?s0 = "program_start 50 5"
  have st: "at_start ?s0" by (rule at_start_program) simp
  have room: "0 < room (ctxs ?s0)" "0 < room (kths ?s0)" "0 < room (knodes ?s0)"
    by (simp_all add: program_start_def no_cells_def)
  obtain s1 where s1: "register_main 7 ?s0 = Inr s1" "coop 7 (fresh (kths ?s0)) s1 main_thread []"
    "thr s1 = (thr ?s0)(main_thread \<mapsto> (the (thr ?s0 main_thread))\<lparr>th_id := mypthread_th_gen ?s0 + 1,
                 th_ctx := Some (fresh (ctxs ?s0)), th_state := PS_RUNNING\<rparr>)"
    "mypthread_th_gen s1 = mypthread_th_gen ?s0 + 1" "mypthread_policy s1 = mypthread_policy ?s0"
    "qnodes s1 = qnodes ?s0" "Suc (room (ctxs s1)) = room (ctxs ?s0)" "current_kthread_count s1 = 1"
    by (rule register_main_coop [OF st room])
  then have "demo_alone = s1" by (simp add: demo_alone_def)
  with s1(2,3,6) show "coop 7 0 demo_alone main_thread []"
    "map_option th_id (thr demo_alone main_thread) = Some 1" "0 < room (qnodes demo_alone)"
    by (simp_all add: program_start_def no_cells_def)
qed

lemma demo_coop: "coop 7 0 demo main_thread [1, 2]"
  using demo_inv by (simp add: ul_inv_def)

lemma demo_room: "room (qnodes demo) = 48" "room (ctxs demo) = 47"
  by code_simp+

lemma demo_blocks:
  "map_option th_id (thr demo 0) = Some 1" "map_option th_id (thr demo 1) = Some 2"
  "map_option th_id (thr demo 2) = Some 3" "map_option th_state (thr demo 1) = Some PS_ACTIVE"
  "map_option th_state (thr demo 2) = Some PS_ACTIVE" "map_option th_state (thr demo 0) = Some PS_RUNNING"
  "map_option dependent_th (thr demo 1) = Some 0" "map_option dependent_th (thr demo 2) = Some 0"
  "thr demo 3 \<noteq> None" "free_block demo 3"
  by code_simp+

end
