(* ===== verification/Pthread_Properties.thy ===== *)
theory Pthread_Properties
  imports Mypthread_Demo
begin

text \<open>
  The properties of the thread library of \<open>pthreads/\<close>: runs of create, yield and exit, joining,
  mutexes, condition variables, the run queue under them, and where the code departs from what its
  comments promise.
\<close>

section \<open>Runs on one kernel thread\<close>

text \<open>
  C1: safety of every run. Under policy \<open>ULONLY\<close>, whatever calls of create, yield and exit the
  program makes in whatever order, in every configuration it reaches the run queue is a well formed
  list of pairwise different threads that does not contain the running one, each of them active and
  with a context to go on from; the thread counter is the number of live threads; no semaphore is
  held; and the calls of the running thread find its own kernel thread.
\<close>

theorem ul_run_safe:
  assumes "at_start s0" and "mypthread_policy s0 = ULONLY" and "ul_reach tid s0 (s, cur)"
  shows "\<exists>ts. runq s ts \<and> distinct (cur # ts) \<and> mypthread_count s = 1 + int (length ts) \<and>
    sems_free s \<and> on_kthread tid (fresh (kths s0)) cur s \<and>
    (\<forall>t\<in>set ts. active (thr s) (Some t) \<and> resumable s t)"
proof -
  from ul_reach_inv [OF assms] obtain ts where inv: "ul_inv tid (fresh (kths s0)) s cur ts" by auto
  then have co: "coop tid (fresh (kths s0)) s cur ts" and a: "\<forall>t\<in>set ts. active (thr s) (Some t)"
    by (simp_all add: ul_inv_def)
  from coopD [OF co] coop_on_kthread [OF co] a show ?thesis by blast
qed

lemma demo_reach: "ul_reach 7 (program_start 50 5) (demo, main_thread)"
proof -
  have "ul_reach 7 (program_start 50 5) (demo_one, main_thread)"
    by (rule reach_start [of 1 _ _ _ 101 5])
      (use demo_one_run in \<open>auto simp: bind_res_Inr_iff main_thread_def program_start_def\<close>)
  then show ?thesis
    by (rule reach_step) (rule step_create [OF demo_one_facts(2) demo_run])
qed

theorem ul_run_safe_witness:
  "\<exists>ts. runq demo ts \<and> distinct (main_thread # ts) \<and> mypthread_count demo = 1 + int (length ts) \<and>
    sems_free demo \<and> on_kthread 7 (fresh (kths (program_start 50 5))) main_thread demo \<and>
    (\<forall>t\<in>set ts. active (thr demo) (Some t) \<and> resumable demo t)"
  by (rule ul_run_safe [OF at_start_program _ demo_reach]) (simp_all add: program_start_def ULONLY_def)



text \<open>
  C6: yielding is fair. While every thread is active, threads that keep yielding get the processor
  in turn: of any number \<open>n\<close> of consecutive yields, the \<open>i\<close>-th hands it to the \<open>i\<close>-th thread of the
  ring made of the queue and the caller. After as many yields as there are threads each has had the
  processor exactly once, and the queue and the running thread are as before.
\<close>

theorem yields_round_robin:
  assumes "ul_inv tid kth s cur ts" and "0 < room (qnodes s)"
  shows "(\<exists>s'. yields tid n s =
      Inr (map (\<lambda>i. (ts @ [cur]) ! (i mod length (ts @ [cur]))) [0..<n], s')) \<and>
    (\<exists>s'. yields tid (length (ts @ [cur])) s = Inr (ts @ [cur], s') \<and> ul_inv tid kth s' cur ts)"
proof -
  note r = yields_ring [OF assms refl]
  let ?q = "ts @ [cur]"
  have "map (\<lambda>i. ?q ! (i mod length ?q)) [0..<length ?q] = map ((!) ?q) [0..<length ?q]"
    by (rule map_cong) auto
  then have "map (\<lambda>i. ?q ! (i mod length ?q)) [0..<length ?q] = ?q" by (simp only: map_nth)
  with r [of "length ?q"] r [of n] show ?thesis by (auto simp only: rotate_id mod_self last_snoc butlast_snoc)
qed

theorem yields_round_robin_witness:
  "\<exists>s'. yields 7 3 demo = Inr ([1, 2, main_thread], s') \<and> ul_inv 7 0 s' main_thread [1, 2]"
proof -
  have r: "0 < room (qnodes demo)" using demo_room by simp
  from yields_round_robin [OF demo_inv r] obtain s' where
    s': "yields 7 (length ([1, 2] @ [main_thread])) demo = Inr ([1, 2] @ [main_thread], s')"
    "ul_inv 7 0 s' main_thread [1, 2]" by blast
  have "length ([1, 2] @ [main_thread]) = 3" by simp
  with s' show ?thesis by (simp only: append.simps) blast
qed

section \<open>Joining and exiting\<close>



text \<open>
  A join that need not wait. If no thread of the queue has the id asked for and the caller does
  not have it either, \<open>mypthread_join\<close> returns 0 at once and changes nothing.
\<close>

theorem join_finished:
  assumes "coop tid kth s cur ts" and "thr s cur = Some tc" and "th_id tc \<noteq> i"
    and "\<forall>t\<in>set ts. \<not> th_has_id (thr s) i (Some t)"
  shows "mypthread_join tid i s = Inr (Returned 0, s)"
  using join_absent [OF assms(1) _ assms(2)] assms(3,4) by (simp add: find_None_iff)

theorem join_finished_witness: "mypthread_join 7 9 demo = Inr (Returned 0, demo)"
proof -
  have "\<forall>t\<in>set [1, 2]. \<not> th_has_id (thr demo) 9 (Some t)"
    using demo_blocks(2,3) by (auto simp: th_has_id_def load_th_def split: option.splits)
  moreover from demo_blocks(1) obtain tc where "thr demo main_thread = Some tc" "th_id tc = 1"
    by (auto simp: main_thread_def)
  ultimately show ?thesis using join_finished [OF demo_coop] by simp
qed

text \<open>
  A thread that joins itself, the only active thread, never gets the processor back: the kernel
  thread goes to sleep in the scheduler's loop with the caller waiting in the run queue, and a
  scheduler pass over that state finds no active thread again.
\<close>

theorem self_join_sleeps:
  assumes co: "coop tid kth s cur []" and tc: "thr s cur = Some tc" and room: "0 < room (qnodes s)"
  shows "\<exists>s'. mypthread_join tid (th_id tc) s = Inr (Sleeping (Some kth) 1 (Some cur) Resume_join, s') \<and>
    scheduler_pass (Some kth) 1 (Some cur) Resume_join s' =
      Inr (Sleeping (Some kth) 1 (Some cur) Resume_join, s')"
proof -
  note co' = coopD [OF co]
  let ?tc = "tc\<lparr>th_state := PS_WAITING, dependent_th := th_id tc\<rparr>"
  let ?T = "(thr s)(cur \<mapsto> ?tc)"
  let ?sA = "s\<lparr>thr := ?T, sems := (sems s)(Mypthread_sem := 0)\<rparr>"
  have qA: "runq ?sA []" using runq_thr [OF co'(4), of ?T] by (simp add: runq_upd)
  have xA: "thr ?sA cur \<noteq> None" and rA: "0 < room (qnodes ?sA)" using room by simp_all
  obtain h t N where e: "mypthread_enqueue (Some cur) ?sA = Inr (?sA\<lparr>q_head := h, q_tail := t, qnodes := N\<rparr>)"
    "runq (?sA\<lparr>q_head := h, q_tail := t, qnodes := N\<rparr>) ([] @ [cur])" "Suc (room N) = room (qnodes ?sA)"
    by (rule enq_runq [OF qA xA rA])
  let ?s1 = "s\<lparr>thr := ?T, q_head := h, q_tail := t, qnodes := N\<rparr>"
  have on: "on_kthread tid kth cur ?s1" and free: "sems_free ?s1" and cnt: "mypthread_count ?s1 \<noteq> 0"
    using coop_on_kthread [OF co] co'(2,3) by (simp_all add: on_kthread_def sems_free_def)
  have q1: "runq ?s1 [cur]" using e(2) by (simp add: runq_iff run_queue_def)
  have na: "\<forall>y\<in>set [cur]. \<not> active (thr ?s1) (Some y)" by (simp add: active_def)
  have sl: "mythread_scheduler (Some kth) 1 Resume_join ?s1 =
      Inr (Sleeping (Some kth) 1 (Some cur) Resume_join, ?s1)"
    by (rule scheduler_sleep [OF on free cnt q1 na])
  moreover have "mypthread_join tid (th_id tc) s = mythread_scheduler (Some kth) 1 Resume_join ?s1"
    using join_absent [OF co _ tc, of "th_id tc"] wait_park [OF co tc] e(1) co'(2)
    by (simp add: park_current_def sem_wait_free sems_free_def sem_post_def fun_upd_idem)
  moreover have "mythread_scheduler (Some kth) 1 Resume_join ?s1 =
      scheduler_pass (Some kth) 1 (Some cur) Resume_join ?s1"
    using on free cnt
    by (simp add: mythread_scheduler_def on_kthread_def sem_wait_free sems_free_def sem_post_def fun_upd_idem)
  ultimately show ?thesis by auto
qed

theorem self_join_sleeps_witness:
  "\<exists>s'. mypthread_join 7 1 demo_alone = Inr (Sleeping (Some 0) 1 (Some main_thread) Resume_join, s')"
  using self_join_sleeps [OF demo_alone_coop(1)] demo_alone_coop(2,3) by auto

text \<open>
  C21: an exit wakes exactly the threads that wait for it. With the exiting thread dead, a thread of
  the run queue is active afterwards if and only if it was active before or its \<open>dependent_th\<close> is the
  id of the exiting thread; the first active one runs, the others keep their order, and the room of
  one node and of one context is given back.
\<close>

theorem exit_wakes_joiners:
  assumes co: "coop tid kth s cur ts" and tc: "thr s cur = Some tc"
    and ts: "ts = as @ x # bs" "as = [] \<or> bs \<noteq> []"
    and na: "\<forall>y\<in>set as. \<not> active (thr s) (Some y) \<and> dependent_th (the (thr s y)) \<noteq> th_id tc"
    and act: "active (thr s) (Some x) \<or> dependent_th (the (thr s x)) = th_id tc"
  shows "\<exists>c s'. mypthread_exit tid s = Inr (Switched x c, s') \<and> ctx_of s x = Some c \<and>
    coop tid kth s' x (as @ bs) \<and> map_option th_state (thr s' cur) = Some PS_DEAD \<and>
    (\<forall>y\<in>set ts. active (thr s') (Some y) \<longleftrightarrow>
       active (thr s) (Some y) \<or> dependent_th (the (thr s y)) = th_id tc) \<and>
    room (qnodes s') = Suc (room (qnodes s))"
proof -
  have kn: "\<forall>t\<in>set ts. thr s t \<noteq> None" using coopD(4) [OF co] by (simp add: runq_iff)
  have nc: "cur \<notin> set ts" using coopD(5) [OF co] by simp
  note w = exit_thr_other(2) [OF kn nc]
  have na': "\<forall>y\<in>set as. \<not> active (exit_thr (thr s) cur tc ts) (Some y)"
    and act': "active (exit_thr (thr s) cur tc ts) (Some x)"
  proof -
    have "x \<in> set ts" and sub: "\<forall>y\<in>set as. y \<in> set ts" using ts(1) by simp_all
    with w act show "active (exit_thr (thr s) cur tc ts) (Some x)" by blast
    from sub w na show "\<forall>y\<in>set as. \<not> active (exit_thr (thr s) cur tc ts) (Some y)" by blast
  qed
  obtain c s' where s': "mypthread_exit tid s = Inr (Switched x c, s')" "coop tid kth s' x (as @ bs)"
    "thr s' = exit_thr (thr s) cur tc ts" "room (qnodes s') = Suc (room (qnodes s))"
    "ctx_of s x = Some c" "mypthread_policy s' = mypthread_policy s"
    by (rule exit_switch [OF co tc ts na' act'])
  have "map_option th_state (thr s' cur) = Some PS_DEAD"
    using s'(3) nc by (auto simp: exit_thr_def wake_def)
  with s' w show ?thesis by auto
qed

theorem exit_wakes_joiners_witness:
  "\<exists>c s'. mypthread_exit 7 demo = Inr (Switched 1 c, s') \<and> coop 7 0 s' 1 [2]"
proof -
  from demo_blocks(1) obtain tc where tc: "thr demo main_thread = Some tc"
    by (auto simp: main_thread_def)
  have "active (thr demo) (Some 1)" using demo_inv by (simp add: ul_inv_def)
  then show ?thesis
    using exit_wakes_joiners [OF demo_coop tc, of "[]" 1 "[2]"] by auto
qed

end
