(* ===== verification/Sync_Properties.thy ===== *)
theory Sync_Properties
  imports Mypthread_Demo
begin

text \<open>
  The properties of mutexes, condition variables, semaphores and kernel threads in
  \<open>pthreads/mypthread.c\<close>, and of the run queue and the CPU information they rest on.
\<close>

section \<open>Mutual exclusion\<close>


lemma demo_mutex: "mtxs demo 1 = Some \<lparr>mtx_lock = False, blocked_q_head = None, blocked_q_tail = None\<rparr>"
  "cnds demo 1 = Some \<lparr>cond_q_head = None, cond_q_tail = None\<rparr>"
  by code_simp+

definition demo_locked :: lib where
  "demo_locked = demo\<lparr>mtxs := (mtxs demo)(1 \<mapsto>
     \<lparr>mtx_lock = True, blocked_q_head = None, blocked_q_tail = None\<rparr>)\<rparr>"

lemma demo_lock: "mypthread_mutex_lock 7 1 demo = Inr (Returned 0, demo_locked)"
  using mutex_lock_free(1) [of demo 1, OF _ demo_mutex(1)] coopD(2) [OF demo_coop]
  by (simp add: demo_locked_def)


text \<open>
  C22: a lock that has to wait. On one kernel thread, a thread that has been switched from before and
  finds the mutex held is blocked, becomes the last waiter of the mutex and the last thread of the
  run queue, and the first active thread gets the processor. But its saved point of return is gone:
  its context is now one that starts in \<open>mypthread_mutex_lock\<close> with no caller, although the comment
  says that it will ask for the lock again when it is dequeued and then go on.
\<close>

theorem mutex_lock_waits:
  assumes "coop tid kth s cur ts" and "mutex_rep s m True ts ws" and "1 < room (qnodes s)"
    and "resumable s cur" and "ts = as @ x # bs" and "\<forall>y\<in>set as. \<not> active (thr s) (Some y)"
    and "active (thr s) (Some x)"
  shows "\<exists>c s'. mypthread_mutex_lock tid m s = Inr (Switched x c, s') \<and>
    coop tid kth s' x (as @ bs @ [cur]) \<and> mutex_rep s' m True (as @ bs @ [cur]) (ws @ [cur]) \<and>
    map_option th_state (thr s' cur) = Some PS_BLOCKED \<and> \<not> active (thr s') (Some cur) \<and>
    ctx_of s x = Some c \<and> ctx_of s' cur = Some (Ctx_lock m)"
proof -
  obtain tc where tc: "thr s cur = Some tc" using coop_cur [OF assms(1)] by metis
  obtain c s' where "mypthread_mutex_lock tid m s = Inr (Switched x c, s')"
    "coop tid kth s' x (as @ bs @ [cur])" "mutex_rep s' m True (as @ bs @ [cur]) (ws @ [cur])"
    "thr s' = (thr s)(cur \<mapsto> tc\<lparr>th_state := PS_BLOCKED\<rparr>)"
    "ctx_of s x = Some c" "ctx_of s' cur = Some (Ctx_lock m)"
    by (rule mutex_lock_blocks [OF assms tc])
  then show ?thesis by auto
qed

lemma two_lists_none: "runq s ts \<Longrightarrow> two_lists s None tp ts []"
  by (auto simp: two_lists_def runq_iff wait_rep_def)

lemma demo_locked_inv: "ul_inv 7 0 demo_locked main_thread [1, 2]"
  using demo_inv by (simp add: ul_inv_def demo_locked_def coop_mtxs)

text \<open>Thread 1 runs and the main thread holds mutex 1.\<close>

lemma demo_contended:
  obtains c s1 where "mypthread_yield 7 demo_locked = Inr (Switched 1 c, s1)"
    "ul_inv 7 0 s1 1 [2, main_thread]" "mutex_rep s1 1 True [2, main_thread] []"
    "resumable s1 1" "room (qnodes s1) = 48"
proof -
  have r: "room (qnodes demo_locked) = 48" using demo_room by (simp add: demo_locked_def)
  then have "0 < room (qnodes demo_locked)" by simp
  then obtain c s1 where y: "mypthread_yield 7 demo_locked = Inr (Switched 1 c, s1)"
    "ul_inv 7 0 s1 1 [2, main_thread]" "room (qnodes s1) = 48" "resumable s1 1"
    using ul_yield [OF demo_locked_inv] r by (metis append.simps(2) append_Nil list.sel(1,3))
  have "mtxs s1 1 = Some \<lparr>mtx_lock = True, blocked_q_head = None, blocked_q_tail = None\<rparr>"
    using yield_sems [OF y(1)] by (simp add: demo_locked_def)
  moreover have "coop 7 0 s1 1 [2, main_thread]" using y(2) by (simp add: ul_inv_def)
  ultimately have "mutex_rep s1 1 True [2, main_thread] []"
    using two_lists_none coopD(4) by (simp add: mutex_rep_def)
  with y show ?thesis by (intro that)
qed

theorem mutex_lock_waits_witness:
  "\<exists>s1 c s2. mypthread_mutex_lock 7 1 s1 = Inr (Switched 2 c, s2) \<and>
    mutex_rep s2 1 True [main_thread, 1] [1] \<and> ctx_of s2 1 = Some (Ctx_lock 1)"
proof -
  obtain c s1 where s1: "ul_inv 7 0 s1 1 [2, main_thread]" "mutex_rep s1 1 True [2, main_thread] []"
    "resumable s1 1" "room (qnodes s1) = 48"
    by (rule demo_contended)
  then have co: "coop 7 0 s1 1 [2, main_thread]" and a: "active (thr s1) (Some 2)"
    and r: "1 < room (qnodes s1)" by (simp_all add: ul_inv_def)
  from mutex_lock_waits [OF co s1(2) r s1(3), of "[]" 2 "[main_thread]"] a show ?thesis by auto
qed

text \<open>
  Releasing a mutex makes it free and empties its blocked list: every waiter, and no other
  thread, becomes active, and the memory of the list's nodes is given back.
\<close>

theorem mutex_unlock_wakes_all:
  assumes "sems_free s" and "mutex_rep s m l ts ws"
  shows "\<exists>s'. mypthread_mutex_unlock m s = Inr (Returned 0, s') \<and> mutex_rep s' m False ts [] \<and>
    (\<forall>t\<in>set ws. active (thr s') (Some t)) \<and> (\<forall>t. t \<notin> set ws \<longrightarrow> thr s' t = thr s t) \<and>
    room (qnodes s') = room (qnodes s) + length ws \<and> sems_free s'"
proof -
  obtain s' where s': "mypthread_mutex_unlock m s = Inr (Returned 0, s')" "mutex_rep s' m False ts []"
    "thr s' = wake (\<lambda>_. True) (Some ` set ws) (thr s)"
    "room (qnodes s') = room (qnodes s) + length ws" "sems s' = sems s"
    "\<forall>m'. m' \<noteq> m \<longrightarrow> mtxs s' m' = mtxs s m'"
    by (rule mutex_unlock_wakes [OF assms])
  have "\<forall>t\<in>set ws. thr s t \<noteq> None" using assms(2) by (auto simp: mutex_rep_def two_lists_def)
  then have "\<forall>t\<in>set ws. active (thr s') (Some t)" using s'(3) by (auto simp: active_def wake_def)
  moreover have "\<forall>t. t \<notin> set ws \<longrightarrow> thr s' t = thr s t" using s'(3) by (auto simp: wake_def)
  ultimately show ?thesis using s' assms(1) by (auto simp: sems_free_def)
qed

theorem mutex_unlock_wakes_all_witness:
  "\<exists>s2 s3. mutex_rep s2 1 True [main_thread, 1] [1] \<and>
    mypthread_mutex_unlock 1 s2 = Inr (Returned 0, s3) \<and> mutex_rep s3 1 False [main_thread, 1] [] \<and>
    active (thr s3) (Some 1)"
proof -
  obtain c s1 where s1: "ul_inv 7 0 s1 1 [2, main_thread]" "mutex_rep s1 1 True [2, main_thread] []"
    "resumable s1 1" "room (qnodes s1) = 48"
    by (rule demo_contended)
  then have co: "coop 7 0 s1 1 [2, main_thread]" and r: "1 < room (qnodes s1)"
    and ts: "[2, main_thread] = [] @ 2 # [main_thread]"
    and na: "\<forall>y\<in>set []. \<not> active (thr s1) (Some y)" and a: "active (thr s1) (Some 2)"
    by (simp_all add: ul_inv_def)
  obtain tc where tc: "thr s1 1 = Some tc" using coop_cur [OF co] by metis
  obtain c2 s2 where s2: "mypthread_mutex_lock 7 1 s1 = Inr (Switched 2 c2, s2)"
    "coop 7 0 s2 2 ([] @ [main_thread] @ [1])" "mutex_rep s2 1 True ([] @ [main_thread] @ [1]) ([] @ [1])"
    "thr s2 = (thr s1)(1 \<mapsto> tc\<lparr>th_state := PS_BLOCKED\<rparr>)"
    "ctx_of s1 2 = Some c2" "ctx_of s2 1 = Some (Ctx_lock 1)"
    by (rule mutex_lock_blocks [OF co s1(2) r s1(3) ts na a tc])
  from mutex_unlock_wakes_all [OF coopD(2) [OF s2(2)] s2(3)] s2(3) show ?thesis by auto
qed

text \<open>
  C35: a \<open>mypthread_mutex_trylock\<close> on a held mutex answers \<open>EBUSY\<close> without giving \<open>mutex_sem\<close> back.
  From then on every operation on every mutex blocks its kernel thread for ever, the release of the
  held mutex included.
\<close>

theorem trylock_busy_blocks_all:
  assumes "sems s Mutex_sem = 1" and "mtxs s m = Some x" and "mtx_lock x"
  shows "\<exists>s'. mypthread_mutex_trylock m s = Inr (Returned EBUSY, s') \<and>
    (\<forall>m2 tid. mypthread_mutex_lock tid m2 s' = Inl (SemBlocked Mutex_sem) \<and>
       mypthread_mutex_trylock m2 s' = Inl (SemBlocked Mutex_sem) \<and>
       mypthread_mutex_unlock m2 s' = Inl (SemBlocked Mutex_sem) \<and>
       mypthread_mutex_destroy m2 s' = Inl (SemBlocked Mutex_sem))"
proof -
  let ?s' = "s\<lparr>sems := (sems s)(Mutex_sem := 0)\<rparr>"
  have "mypthread_mutex_trylock m s = Inr (Returned EBUSY, ?s')"
    using assms by (simp add: mypthread_mutex_trylock_def sem_wait_def load_mtx_def)
  moreover have "\<forall>m2 tid. mypthread_mutex_lock tid m2 ?s' = Inl (SemBlocked Mutex_sem) \<and>
       mypthread_mutex_trylock m2 ?s' = Inl (SemBlocked Mutex_sem) \<and>
       mypthread_mutex_unlock m2 ?s' = Inl (SemBlocked Mutex_sem) \<and>
       mypthread_mutex_destroy m2 ?s' = Inl (SemBlocked Mutex_sem)"
    by (simp add: mypthread_mutex_lock_def mypthread_mutex_trylock_def mypthread_mutex_unlock_def
        mypthread_mutex_destroy_def sem_wait_def)
  ultimately show ?thesis by blast
qed

theorem trylock_busy_blocks_all_witness:
  "\<exists>s'. mypthread_mutex_trylock 1 demo_locked = Inr (Returned EBUSY, s') \<and>
    mypthread_mutex_unlock 1 s' = Inl (SemBlocked Mutex_sem)"
proof -
  have "sems demo_locked Mutex_sem = 1"
    using coopD(2) [OF demo_coop] by (simp add: sems_free_def demo_locked_def)
  from trylock_busy_blocks_all [OF this, of 1] show ?thesis by (auto simp: demo_locked_def)
qed

section \<open>Condition variables\<close>


text \<open>The main thread of the small program waits on condition 1 with mutex 1.\<close>

lemma demo_waiting:
  obtains c s1 where "mypthread_cond_wait 7 1 1 demo_locked = Inr (Switched 1 c, s1)"
    "coop 7 0 s1 1 [2, main_thread]" "cond_rep s1 1 [2, main_thread] [main_thread]"
    "sems_free s1"
proof -
  have co: "coop 7 0 demo_locked main_thread [1, 2]" using demo_locked_inv by (simp add: ul_inv_def)
  have "two_lists demo_locked None None [1, 2] []" by (rule two_lists_none [OF coopD(4) [OF co]])
  then have c: "cond_rep demo_locked 1 [1, 2] []"
    using demo_mutex(2) by (simp add: cond_rep_def demo_locked_def)
  have m: "mtxs demo_locked 1 = Some \<lparr>mtx_lock = True, blocked_q_head = None, blocked_q_tail = None\<rparr>"
    and r: "1 < room (qnodes demo_locked)" and ts: "[1, 2] = [] @ 1 # [2]"
    and na: "\<forall>y\<in>set []. \<not> active (thr demo_locked) (Some y)" and a: "active (thr demo_locked) (Some 1)"
    using demo_room demo_locked_inv by (simp_all add: demo_locked_def ul_inv_def)
  obtain tc where tc: "thr demo_locked main_thread = Some tc" using coop_cur [OF co] by metis
  obtain c s' where s': "mypthread_cond_wait 7 1 1 demo_locked = Inr (Switched 1 c, s')"
    "coop 7 0 s' 1 ([] @ [2] @ [main_thread])"
    "cond_rep s' 1 ([] @ [2] @ [main_thread]) ([] @ [main_thread])"
    "thr s' = (thr demo_locked)(main_thread \<mapsto> tc\<lparr>th_state := PS_BLOCKED\<rparr>)"
    "mtxs s' = (mtxs demo_locked)(1 \<mapsto> \<lparr>mtx_lock = True, blocked_q_head = None, blocked_q_tail = None\<rparr>\<lparr>mtx_lock := False\<rparr>)"
    "ctx_of demo_locked 1 = Some c" "ctx_of s' main_thread = Some (Ctx_saved (Resume_cond_wait 1))"
    by (rule cond_wait_blocks [OF co c m _ r ts na a tc]) simp_all
  then show ?thesis using coopD(2) [OF s'(2)] by (intro that [of c s']) simp_all
qed


text \<open>
  A signal wakes the first waiter only: it becomes active, no other thread changes, the other
  waiters stay in their order; and a signal to a condition without waiters changes nothing at all.
\<close>

theorem cond_signal_first:
  assumes "sems_free s" and "cond_rep s c ts ws"
  shows "case ws of
      [] \<Rightarrow> mypthread_cond_signal c s = Inr (Returned 0, s)
    | w # ws' \<Rightarrow> (\<exists>s'. mypthread_cond_signal c s = Inr (Returned 0, s') \<and> cond_rep s' c ts ws' \<and>
        active (thr s') (Some w) \<and> (\<forall>t. t \<noteq> w \<longrightarrow> thr s' t = thr s t) \<and> sems_free s' \<and>
        room (qnodes s') = Suc (room (qnodes s)))"
proof (cases ws)
  case Nil
  with assms show ?thesis by (simp add: cond_signal_nobody)
next
  case (Cons w ws')
  with assms(2) obtain tw where tw: "thr s w = Some tw"
    by (auto simp: cond_rep_def two_lists_def)
  obtain s' where "mypthread_cond_signal c s = Inr (Returned 0, s')" "cond_rep s' c ts ws'"
    "thr s' = (thr s)(w \<mapsto> tw\<lparr>th_state := PS_ACTIVE\<rparr>)"
    "room (qnodes s') = Suc (room (qnodes s))" "sems s' = sems s"
    by (rule cond_signal_wakes [OF assms(1) assms(2) [unfolded Cons] tw])
  with Cons assms(1) show ?thesis by (auto simp: sems_free_def)
qed

theorem cond_signal_first_witness:
  "\<exists>s1 s2. cond_rep s1 1 [2, main_thread] [main_thread] \<and>
    mypthread_cond_signal 1 s1 = Inr (Returned 0, s2) \<and> active (thr s2) (Some main_thread) \<and>
    mypthread_cond_signal 1 demo = Inr (Returned 0, demo)"
proof -
  obtain c s1 where s1: "cond_rep s1 1 [2, main_thread] [main_thread]" "sems_free s1"
    by (rule demo_waiting)
  have "two_lists demo None None [1, 2] []" by (rule two_lists_none [OF coopD(4) [OF demo_coop]])
  then have "cond_rep demo 1 [1, 2] []" using demo_mutex(2) by (simp add: cond_rep_def)
  from cond_signal_first [OF coopD(2) [OF demo_coop] this] cond_signal_first [OF s1(2,1)] s1(1)
  show ?thesis by auto
qed

text \<open>
  A broadcast wakes every waiter and no other thread, and leaves the condition without waiters.
\<close>

theorem cond_broadcast_all:
  assumes "sems_free s" and "cond_rep s c ts ws"
  shows "\<exists>s'. mypthread_cond_broadcast c s = Inr (Returned 0, s') \<and> cond_rep s' c ts [] \<and>
    (\<forall>t\<in>set ws. active (thr s') (Some t)) \<and> (\<forall>t. t \<notin> set ws \<longrightarrow> thr s' t = thr s t) \<and>
    room (qnodes s') = room (qnodes s) + length ws \<and> sems_free s'"
proof -
  obtain s' where s': "mypthread_cond_broadcast c s = Inr (Returned 0, s')" "cond_rep s' c ts []"
    "thr s' = wake (\<lambda>_. True) (Some ` set ws) (thr s)"
    "room (qnodes s') = room (qnodes s) + length ws" "sems s' = sems s"
    by (rule cond_broadcast_wakes [OF assms])
  have "\<forall>t\<in>set ws. thr s t \<noteq> None" using assms(2) by (auto simp: cond_rep_def two_lists_def)
  then have "\<forall>t\<in>set ws. active (thr s') (Some t)" using s'(3) by (auto simp: active_def wake_def)
  moreover have "\<forall>t. t \<notin> set ws \<longrightarrow> thr s' t = thr s t" using s'(3) by (auto simp: wake_def)
  ultimately show ?thesis using s' assms(1) by (auto simp: sems_free_def)
qed

theorem cond_broadcast_all_witness:
  "\<exists>s1 s2. cond_rep s1 1 [2, main_thread] [main_thread] \<and>
    mypthread_cond_broadcast 1 s1 = Inr (Returned 0, s2) \<and> active (thr s2) (Some main_thread)"
proof -
  obtain c s1 where s1: "cond_rep s1 1 [2, main_thread] [main_thread]" "sems_free s1"
    by (rule demo_waiting)
  from cond_broadcast_all [OF s1(2,1)] s1(1) show ?thesis by auto
qed

section \<open>Semaphores and kernel threads\<close>





text \<open>
  A kernel thread that was cloned and has found no thread to run is listed with no user thread;
  a \<open>mypthread_join\<close> of a thread that is neither queued nor running then dereferences the NULL
  pointer: \<open>mykthread_is_running\<close> reads \<open>kth->th->th_id\<close> of every kernel thread before it.
\<close>

theorem idle_kthread_null_deref:
  assumes "kthread_list s (ks @ (a, Some k) # ks')" and "cells (kths s) k = Some \<lparr>kth_id = j, kth_th = None\<rparr>"
    and "\<forall>x\<in>set ks. \<exists>b kt t. snd x = Some b \<and> cells (kths s) b = Some kt \<and>
           load_th (thr s) (kth_th kt) = Inr t \<and> th_id t \<noteq> i"
  shows "mykthread_is_running i s = Inl NullDeref"
proof -
  have walk: "is_running_loop fuel (knodes s) (kths s) (thr s) i (first_addr (ks @ (a, Some k) # ks') None) =
      Inl NullDeref"
    if "dll mkk (knodes s) p (ks @ (a, Some k) # ks') None" "length ks < fuel"
      "\<forall>x\<in>set ks. \<exists>b kt t. snd x = Some b \<and> cells (kths s) b = Some kt \<and>
         load_th (thr s) (kth_th kt) = Inr t \<and> th_id t \<noteq> i" for fuel p
    using that
  proof (induction ks arbitrary: fuel p)
    case Nil
    then obtain n where "fuel = Suc n" by (cases fuel) auto
    with Nil assms(2) show ?case by simp
  next
    case (Cons x ks)
    then obtain n where n: "fuel = Suc n" "length ks < n" by (cases fuel) auto
    from Cons.prems(3) obtain b kt t where "snd x = Some b" "cells (kths s) b = Some kt"
      "load_th (thr s) (kth_th kt) = Inr t" "th_id t \<noteq> i" by auto
    moreover have "is_running_loop n (knodes s) (kths s) (thr s) i
        (first_addr (ks @ (a, Some k) # ks') None) = Inl NullDeref"
      by (rule Cons.IH [of "Some (fst x)" n]) (use Cons.prems(1,3) n(2) in simp_all)
    ultimately show ?case using Cons.prems(1) n(1) by simp
  qed
  from assms(1) have d: "dll mkk (knodes s) None (ks @ (a, Some k) # ks') None"
    "k_head s = first_addr (ks @ (a, Some k) # ks') None" "heap_ok (knodes s)"
    "distinct (map fst (ks @ (a, Some k) # ks'))"
    by (simp_all add: kthread_list_def queue_rep_def chain_rep_def)
  have "length ks < Suc (fresh (knodes s))" using dll_length_fresh [OF d(1,3,4)] by simp
  from walk [OF d(1) this assms(3)] d(2) show ?thesis by (simp add: mykthread_is_running_def)
qed

theorem idle_kthread_null_deref_witness:
  "\<exists>s2. mykthread_add (Some 1)
      (demo_alone\<lparr>kths := set_cell (kths demo_alone) 1 \<lparr>kth_id = 8, kth_th = None\<rparr>\<rparr>) = Inr s2 \<and>
    mykthread_is_running 9 s2 = Inl NullDeref"
proof -
  let ?s1 = "demo_alone\<lparr>kths := set_cell (kths demo_alone) 1 \<lparr>kth_id = 8, kth_th = None\<rparr>\<rparr>"
  from demo_alone_coop(1) obtain a where k: "kthread_list demo_alone [(a, Some 0)]"
    "cells (kths demo_alone) 0 = Some \<lparr>kth_id = 7, kth_th = Some main_thread\<rparr>"
    by (auto simp: coop_def)
  have k1: "kthread_list ?s1 [(a, Some 0)]" using k(1) by simp
  have r1: "0 < room (knodes ?s1)" by code_simp
  obtain s2 where s2: "mykthread_add (Some 1) ?s1 = Inr s2"
    "kthread_list s2 ([(a, Some 0)] @ [(fresh (knodes ?s1), Some 1)])"
    "s2 = ?s1\<lparr>k_head := k_head s2, k_tail := k_tail s2,
            knodes := push_heap mkk (knodes ?s1) [(a, Some 0)] (Some 1)\<rparr>"
    by (rule mykthread_add_rep [OF k1 r1])
  have "kths s2 = kths ?s1" "thr s2 = thr demo_alone" by (subst s2(3), simp)+
  moreover from demo_alone_coop(2) obtain t where "thr demo_alone main_thread = Some t" "th_id t = 1"
    by auto
  ultimately have "mykthread_is_running 9 s2 = Inl NullDeref"
    using k(2) s2(2) by (intro idle_kthread_null_deref [where ks = "[(a, Some 0)]" and ks' = "[]"
        and k = 1 and j = 8]) simp_all
  with s2(1) show ?thesis by blast
qed

section \<open>The run queue\<close>



text \<open>
  But when the thread taken out is the last of two or more, \<open>mypthread_q_tail\<close> keeps pointing
  at the released node, and the next \<open>mypthread_enqueue\<close> writes to that node: a use after free.
\<close>

theorem dequeue_last_then_enqueue_faults:
  assumes "runq s (as @ [x])" and "as \<noteq> []"
    and "\<forall>y\<in>set as. \<not> active (thr s) (Some y)" and "active (thr s) (Some x)"
  shows "\<exists>s'. mypthread_dequeue_first_active s = Inr (Some x, s') \<and>
    (\<forall>y. mypthread_enqueue (Some y) s' = Inl Dangling)"
proof -
  obtain h N where d:
    "mypthread_dequeue_first_active s = Inr (Some x, s\<lparr>q_head := h, qnodes := N\<rparr>)"
    "\<forall>d s'. q_head s' = h \<and> q_tail s' = q_tail s \<and> qnodes s' = N \<longrightarrow>
       mypthread_enqueue d (s' :: lib) = Inl Dangling"
    by (rule deq_stale [OF assms])
  then show ?thesis by simp
qed

theorem dequeue_last_then_enqueue_faults_witness:
  "\<exists>(s :: lib) s'. mypthread_dequeue_first_active s = Inr (Some 2, s') \<and> mypthread_enqueue (Some 1) s' = Inl Dangling"
proof -
  let ?T = "(thr demo)(1 \<mapsto> (the (thr demo 1))\<lparr>th_state := PS_WAITING\<rparr>)"
  let ?s = "demo\<lparr>thr := ?T\<rparr>"
  have "\<forall>t\<in>set [1, 2]. ?T t \<noteq> None" using coopD(4) [OF demo_coop] by (auto simp: runq_iff)
  with coopD(4) [OF demo_coop] have "runq ?s ([1] @ [2])" by (intro runq_thr) auto
  moreover have "active ?T (Some 2)" using demo_inv by (simp add: active_def ul_inv_def)
  ultimately have "\<exists>s'. mypthread_dequeue_first_active ?s = Inr (Some 2, s') \<and>
      (\<forall>y. mypthread_enqueue (Some y) s' = Inl Dangling)"
    by (intro dequeue_last_then_enqueue_faults [of ?s "[1]" 2]) (simp_all add: active_def)
  then show ?thesis by blast
qed

text \<open>
  The fault in a program. If every other thread waits, the running thread's first yield comes
  back to it at once, and its second one is a use after free. A main thread that joins its only
  thread, which then yields twice, gets there.
\<close>

theorem second_yield_faults:
  assumes "coop tid kth s cur ts" and "ts \<noteq> []" and "0 < room (qnodes s)"
    and "\<forall>y\<in>set ts. \<not> active (thr s) (Some y)"
  shows "\<exists>s'. mypthread_yield tid s = Inr (Switched cur (Ctx_saved Resume_yield), s') \<and>
    mypthread_yield tid s' = Inl Dangling"
  by (rule yield_stale [OF assms]) blast

theorem second_yield_faults_witness:
  "\<exists>c s1 s2. mypthread_join 7 2 demo_one = Inr (Switched 1 c, s1) \<and>
    mypthread_yield 7 s1 = Inr (Switched 1 (Ctx_saved Resume_yield), s2) \<and>
    mypthread_yield 7 s2 = Inl Dangling"
proof -
  have co: "coop 7 0 demo_one main_thread [1]" using demo_one_inv by (simp add: ul_inv_def)
  from demo_one_facts obtain tc tx where t: "thr demo_one main_thread = Some tc"
    "thr demo_one 1 = Some tx" "th_id tx = 2" "th_state tx = PS_ACTIVE" by auto
  have ts: "[1] = [] @ 1 # []" and na: "\<forall>y\<in>set []. \<not> active (thr demo_one) (Some y)"
    and ax: "active (thr demo_one) (Some 1)" using t by simp_all
  obtain c s1 where w: "wait_for_thread (Some 0) 2 demo_one = Inr (Switched 1 c, s1)"
    "coop 7 0 s1 1 ([] @ [] @ [main_thread])"
    "thr s1 = (thr demo_one)(main_thread \<mapsto> tc\<lparr>th_state := PS_WAITING, dependent_th := 2\<rparr>)"
    "room (qnodes s1) = room (qnodes demo_one)" "ctx_of demo_one 1 = Some c"
    "ctx_of s1 main_thread = Some (Ctx_saved Resume_join)"
    by (rule wait_switch [OF co demo_one_facts(1) ts na ax t(1)])
  have f: "find (\<lambda>t. th_has_id (thr demo_one) 2 (Some t)) [1] = Some 1"
    using t by (simp add: th_has_id_def)
  have "mypthread_join 7 2 demo_one = Inr (Switched 1 c, s1)"
    using join_found [OF co f t(2)] t(4) w(1) by simp
  moreover have "\<exists>s'. mypthread_yield 7 s1 = Inr (Switched 1 (Ctx_saved Resume_yield), s') \<and>
      mypthread_yield 7 s' = Inl Dangling"
    by (rule second_yield_faults [of 7 0 s1 1 "[main_thread]"])
      (use w demo_one_facts(1) in \<open>simp_all add: active_def\<close>)
  ultimately show ?thesis by blast
qed

section \<open>CPU information\<close>

text \<open>
  \<open>get_cpu_cores\<close> and \<open>get_hyperthreads\<close> read one character of the command's output, because
  \<open>fgets\<close> is given room for a digit and the terminator: the answer is that digit, or 0, whatever
  follows. A machine with 16 cores is taken for one with 1.
\<close>

theorem cpu_info_one_digit:
  "get_cpu_cores (Some (c # out)) junk = (if isdigit c then digit_val c else 0) \<and>
   get_hyperthreads (Some (c # out)) junk = (if isdigit c then digit_val c else 0) \<and>
   get_cpu_cores (Some (c # out)) junk \<le> 9 \<and> get_cpu_cores (Some ''16'') junk = 1"
proof -
  have "get_cpu_cores (Some (d # rest)) junk = (if isdigit d then digit_val d else 0)" for d rest
    by (simp add: get_cpu_cores_def read_small_number_def fgets_one atoi_one)
  moreover have "get_hyperthreads (Some (c # out)) junk = (if isdigit c then digit_val c else 0)"
    by (simp add: get_hyperthreads_def read_small_number_def fgets_one atoi_one)
  moreover have "isdigit (CHR ''1'')" "digit_val (CHR ''1'') = 1"
    by (simp_all add: isdigit_def digit_val_def)
  ultimately show ?thesis using digit_val_range [of c] by simp
qed

end
