(* ===== verification/Mtsort.thy ===== *)
theory Mtsort
  imports Mypthread_Demo "HOL-Library.Multiset"
begin

text \<open>
  \<open>pthreads/mtsort.c\<close>, the test program that sorts a list with one thread per neighbouring pair.
  \<open>fnsort\<close> is the loop of such a thread, \<open>fncheck\<close> that of the thread that looks whether the list
  is sorted. A pass of a loop runs from its test up to the yield that ends it, or up to the library
  call that gives the processor away before. The list and the flag \<open>quitting\<close> are shared; the
  mutexes stand at consecutive addresses. What is printed is not part of the model.
\<close>

section \<open>State and arguments\<close>

record sorter =
  nums :: "int list"
  quitting :: bool

text \<open>\<open>num_at\<close> is the offset of \<open>num\<close> in the shared list, \<open>mtx_at\<close> the address of the mutex \<open>mtx\<close>.\<close>

record pthrarg =
  num_at :: nat
  arg_size :: nat
  mtx_at :: nat

definition LISTSIZE :: int where "LISTSIZE = 32"

section \<open>The sorting threads\<close>

definition order_pair :: "nat \<Rightarrow> int list \<Rightarrow> int list res" where
  "order_pair i num =
     (if Suc i < length num
      then Inr (if num ! Suc i < num ! i then num[i := num ! Suc i, Suc i := num ! i] else num)
      else Inl BufferOverflow)"

definition fnsort_pass :: "int \<Rightarrow> pthrarg \<Rightarrow> sorter \<Rightarrow> lib \<Rightarrow> (outcome \<times> sorter \<times> lib) res" where
  "fnsort_pass tid pargs st s =
     bind_res (mypthread_mutex_lock tid (mtx_at pargs) s) (\<lambda>(locked, s1).
     case locked of
       Returned _ \<Rightarrow>
         bind_res (mypthread_mutex_trylock (Suc (mtx_at pargs)) s1) (\<lambda>(tried, s2).
         if tried \<noteq> Returned 0 then
           bind_res (mypthread_mutex_unlock (mtx_at pargs) s2) (\<lambda>(_, s3).
           bind_res (mypthread_yield tid s3) (\<lambda>(out, s4). Inr (out, st, s4)))
         else
           bind_res (order_pair (num_at pargs) (nums st)) (\<lambda>num.
           bind_res (mypthread_mutex_unlock (mtx_at pargs) s2) (\<lambda>(_, s3).
           bind_res (mypthread_mutex_unlock (Suc (mtx_at pargs)) s3) (\<lambda>(_, s4).
           bind_res (mypthread_yield tid s4) (\<lambda>(out, s5). Inr (out, st\<lparr>nums := num\<rparr>, s5))))))
     | _ \<Rightarrow> Inr (locked, st, s1))"

definition fnsort :: "int \<Rightarrow> pthrarg \<Rightarrow> sorter \<Rightarrow> lib \<Rightarrow> (outcome \<times> sorter \<times> lib) res" where
  "fnsort tid pargs st s =
     (if \<not> quitting st then fnsort_pass tid pargs st s
      else bind_res (mypthread_exit tid s) (\<lambda>(out, s1). Inr (out, st, s1)))"

section \<open>The checking thread\<close>

fun lock_all :: "int \<Rightarrow> nat \<Rightarrow> nat \<Rightarrow> lib \<Rightarrow> (outcome \<times> lib) res" where
  "lock_all tid mtx 0 s = Inr (Returned 0, s)"
| "lock_all tid mtx (Suc n) s =
     bind_res (mypthread_mutex_lock tid mtx s) (\<lambda>(locked, s1).
     case locked of
       Returned _ \<Rightarrow> lock_all tid (Suc mtx) n s1
     | _ \<Rightarrow> Inr (locked, s1))"

fun unlock_all :: "nat \<Rightarrow> nat \<Rightarrow> lib \<Rightarrow> lib res" where
  "unlock_all mtx 0 s = Inr s"
| "unlock_all mtx (Suc n) s =
     bind_res (mypthread_mutex_unlock mtx s) (\<lambda>(_, s1). unlock_all (Suc mtx) n s1)"

text \<open>The loop of the check: \<open>n\<close> more pairs from position \<open>i\<close>, until one is out of order.\<close>

fun check_loop :: "int list \<Rightarrow> nat \<Rightarrow> nat \<Rightarrow> bool res" where
  "check_loop num i 0 = Inr True"
| "check_loop num i (Suc n) =
     (if Suc i < length num
      then if num ! i > num ! Suc i then Inr False else check_loop num (Suc i) n
      else Inl BufferOverflow)"

definition fncheck_pass :: "int \<Rightarrow> pthrarg \<Rightarrow> sorter \<Rightarrow> lib \<Rightarrow> (outcome \<times> sorter \<times> lib) res" where
  "fncheck_pass tid pargs st s =
     bind_res (lock_all tid (mtx_at pargs) (arg_size pargs) s) (\<lambda>(locked, s1).
     case locked of
       Returned _ \<Rightarrow>
         bind_res (check_loop (drop (num_at pargs) (nums st)) 0 (arg_size pargs - 1)) (\<lambda>check.
         bind_res (unlock_all (mtx_at pargs) (arg_size pargs) s1) (\<lambda>s2.
         bind_res (mypthread_yield tid s2) (\<lambda>(out, s3).
         Inr (out, st\<lparr>quitting := check\<rparr>, s3))))
     | _ \<Rightarrow> Inr (locked, st, s1))"

definition fncheck :: "int \<Rightarrow> pthrarg \<Rightarrow> sorter \<Rightarrow> lib \<Rightarrow> (outcome \<times> sorter \<times> lib) res" where
  "fncheck tid pargs st s =
     (if \<not> quitting st then fncheck_pass tid pargs st s
      else bind_res (mypthread_exit tid s) (\<lambda>(out, s1). Inr (out, st, s1)))"

section \<open>The main program's data\<close>

text \<open>\<open>arg\<close> is the second command line argument, if there is one.\<close>

definition list_size :: "string option \<Rightarrow> int" where
  "list_size arg =
     (let n = (case arg of None \<Rightarrow> LISTSIZE | Some a \<Rightarrow> atoi a)
      in if n > 0 then n else LISTSIZE)"

definition initial_list :: "nat \<Rightarrow> int list" where
  "initial_list n = map (\<lambda>i. int n - int i) [0..<n]"

text \<open>Thread \<open>i\<close> works on the pair \<open>i\<close>, \<open>i + 1\<close> with mutexes \<open>i\<close>, \<open>i + 1\<close>; the check sees all.\<close>

definition sort_arg :: "nat \<Rightarrow> nat \<Rightarrow> nat \<Rightarrow> pthrarg" where
  "sort_arg n mtx i = \<lparr>num_at = i, arg_size = n, mtx_at = mtx + i\<rparr>"

definition check_arg :: "nat \<Rightarrow> nat \<Rightarrow> pthrarg" where
  "check_arg n mtx = \<lparr>num_at = 0, arg_size = n, mtx_at = mtx\<rparr>"

text \<open>\<open>main\<close> up to the list: the arguments it creates its threads with.\<close>

definition thread_args :: "nat \<Rightarrow> nat \<Rightarrow> pthrarg list" where
  "thread_args n mtx = map (sort_arg n mtx) [0..<n - 1] @ [check_arg n mtx]"

section \<open>What one pass does to the list\<close>

lemma order_pair_length: "order_pair i xs = Inr ys \<Longrightarrow> length ys = length xs"
  by (auto simp: order_pair_def split: if_splits)

lemma order_pair_mset: "order_pair i xs = Inr ys \<Longrightarrow> mset ys = mset xs"
  by (auto simp: order_pair_def mset_swap split: if_splits)

text \<open>The pairs of positions whose elements stand in the wrong order.\<close>

definition inversions :: "int list \<Rightarrow> (nat \<times> nat) set" where
  "inversions xs = {(i, j). i < j \<and> j < length xs \<and> xs ! j < xs ! i}"

lemma finite_inversions [simp]: "finite (inversions xs)"
  by (rule finite_subset [of _ "{..<length xs} \<times> {..<length xs}"]) (auto simp: inversions_def)

definition exchange :: "nat \<Rightarrow> nat \<Rightarrow> nat" where
  "exchange i k = (if k = i then Suc i else if k = Suc i then i else k)"

lemma nth_exchange:
  "Suc i < length xs \<Longrightarrow> k < length xs \<Longrightarrow>
   (xs[i := xs ! Suc i, Suc i := xs ! i]) ! k = xs ! exchange i k"
  by (simp add: exchange_def nth_list_update)

lemma inversions_exchange:
  assumes "Suc i < length xs" and "xs ! Suc i < xs ! i"
  defines "ys \<equiv> xs[i := xs ! Suc i, Suc i := xs ! i]"
  shows "card (inversions xs) = Suc (card (inversions ys))"
proof -
  let ?e = "exchange i"
  let ?f = "\<lambda>(a, b). (?e a, ?e b)"
  have inj: "inj ?f" by (auto simp: inj_def exchange_def split: if_splits)
  have img: "?f ` inversions ys = inversions xs - {(i, Suc i)}"
  proof (intro equalityI subsetI)
    fix p assume "p \<in> ?f ` inversions ys"
    then obtain a b where p: "p = (?e a, ?e b)" "a < b" "b < length ys" "ys ! b < ys ! a"
      by (auto simp: inversions_def)
    have len: "length ys = length xs" by (simp add: ys_def)
    with p assms(1) have v: "ys ! a = xs ! ?e a" "ys ! b = xs ! ?e b"
      by (simp_all add: ys_def nth_exchange)
    have "\<not> (a = i \<and> b = Suc i)" using v p(4) assms(2) by (auto simp: exchange_def)
    with p(2) have "?e a < ?e b" by (auto simp: exchange_def split: if_splits)
    moreover have "?e b < length xs" using p(3) len assms(1) by (auto simp: exchange_def)
    moreover have "(?e a, ?e b) \<noteq> (i, Suc i)" using p(2) by (auto simp: exchange_def split: if_splits)
    ultimately show "p \<in> inversions xs - {(i, Suc i)}" using p v by (simp add: inversions_def)
  next
    fix p assume "p \<in> inversions xs - {(i, Suc i)}"
    then obtain a b where p: "p = (a, b)" "a < b" "b < length xs" "xs ! b < xs ! a" "(a, b) \<noteq> (i, Suc i)"
      by (auto simp: inversions_def)
    have ee: "?e (?e k) = k" for k by (auto simp: exchange_def)
    have "?e a < ?e b" using p(2,5) by (auto simp: exchange_def split: if_splits)
    moreover have l: "?e b < length xs" "?e a < length xs" using p(2,3) assms(1) by (auto simp: exchange_def)
    moreover have "ys ! ?e a = xs ! a" "ys ! ?e b = xs ! b"
      using l assms(1) by (simp_all add: ys_def nth_exchange ee)
    ultimately have "(?e a, ?e b) \<in> inversions ys" using p(4) by (simp add: inversions_def ys_def)
    then show "p \<in> ?f ` inversions ys" using p(1) ee by (force intro: rev_image_eqI)
  qed
  have "(i, Suc i) \<in> inversions xs" using assms(1,2) by (simp add: inversions_def)
  then have "card (inversions xs) = Suc (card (inversions xs - {(i, Suc i)}))"
    by (rule card.remove [OF finite_inversions])
  also have "card (inversions xs - {(i, Suc i)}) = card (inversions ys)"
    unfolding img [symmetric] by (rule card_image) (rule inj_on_subset [OF inj], simp)
  finally show ?thesis .
qed

lemma order_pair_inversions:
  assumes "order_pair i xs = Inr ys"
  shows "ys = xs \<or> card (inversions xs) = Suc (card (inversions ys))"
  using assms inversions_exchange [of i xs] by (auto simp: order_pair_def split: if_splits)

lemma check_loop_sorted:
  assumes "i + n < length xs"
  shows "check_loop xs i n = Inr (\<forall>k. i \<le> k \<and> k < i + n \<longrightarrow> xs ! k \<le> xs ! Suc k)"
  using assms
proof (induction n arbitrary: i)
  case 0
  then show ?case by simp
next
  case (Suc n)
  have "(\<forall>k. i \<le> k \<and> k < i + Suc n \<longrightarrow> xs ! k \<le> xs ! Suc k) \<longleftrightarrow>
      xs ! i \<le> xs ! Suc i \<and> (\<forall>k. Suc i \<le> k \<and> k < Suc i + n \<longrightarrow> xs ! k \<le> xs ! Suc k)"
    (is "?l \<longleftrightarrow> ?r")
  proof
    assume ?l then show ?r by simp
  next
    assume r: ?r
    show ?l
    proof (intro allI impI)
      fix k assume k: "i \<le> k \<and> k < i + Suc n"
      show "xs ! k \<le> xs ! Suc k"
      proof (cases "k = i")
        case False
        with k have "Suc i \<le> k \<and> k < Suc i + n" by simp
        with r show ?thesis by blast
      qed (use r in simp)
    qed
  qed
  moreover have "check_loop xs (Suc i) n = Inr (\<forall>k. Suc i \<le> k \<and> k < Suc i + n \<longrightarrow> xs ! k \<le> xs ! Suc k)"
    using Suc by simp
  ultimately show ?case using Suc.prems by (auto simp: not_less)
qed

lemma check_loop_all:
  assumes "xs \<noteq> []"
  shows "check_loop xs 0 (length xs - 1) = Inr (sorted xs)"
  using assms check_loop_sorted [of 0 "length xs - 1" xs]
  by (auto simp: sorted_iff_nth_Suc)

section \<open>Passes in any order\<close>

fun run_passes :: "nat list \<Rightarrow> int list \<Rightarrow> int list res" where
  "run_passes [] num = Inr num"
| "run_passes (i # is) num = bind_res (order_pair i num) (run_passes is)"

lemma run_passes_append: "run_passes (is @ js) xs = bind_res (run_passes is xs) (run_passes js)"
proof (induction "is" arbitrary: xs)
  case (Cons i "is")
  then show ?case by (cases "order_pair i xs") simp_all
qed simp

lemma run_passes_ok:
  "\<forall>i\<in>set is. Suc i < length xs \<Longrightarrow>
   \<exists>ys. run_passes is xs = Inr ys \<and> length ys = length xs \<and> mset ys = mset xs \<and>
        (ys = xs \<or> card (inversions ys) < card (inversions xs))"
proof (induction "is" arbitrary: xs)
  case (Cons i "is")
  then obtain zs where z: "order_pair i xs = Inr zs" by (auto simp: order_pair_def)
  note zl = order_pair_length [OF z] order_pair_mset [OF z] order_pair_inversions [OF z]
  have "\<forall>j\<in>set is. Suc j < length zs" using Cons.prems zl(1) by simp
  from Cons.IH [OF this] obtain ys where "run_passes is zs = Inr ys" "length ys = length zs"
    "mset ys = mset zs" "ys = zs \<or> card (inversions ys) < card (inversions zs)" by blast
  with z zl show ?case by auto
qed simp

text \<open>If passes over all pairs change nothing on the way, every pair is in order.\<close>

lemma run_passes_fixed:
  "\<lbrakk>run_passes is xs = Inr xs; \<forall>i\<in>set is. Suc i < length xs\<rbrakk> \<Longrightarrow> \<forall>i\<in>set is. xs ! i \<le> xs ! Suc i"
proof (induction "is")
  case (Cons i "is")
  from Cons.prems obtain zs where z: "order_pair i xs = Inr zs" "run_passes is zs = Inr xs"
    by (auto simp: bind_res_Inr_iff)
  have "\<forall>j\<in>set is. Suc j < length zs" using Cons.prems(2) order_pair_length [OF z(1)] by simp
  from run_passes_ok [OF this] z(2) have "xs = zs \<or> card (inversions xs) < card (inversions zs)" by auto
  with order_pair_inversions [OF z(1)] have eq: "zs = xs" by auto
  with z Cons have "\<forall>i\<in>set is. xs ! i \<le> xs ! Suc i" by simp
  moreover have "xs ! i \<le> xs ! Suc i"
  proof (rule ccontr)
    assume "\<not> xs ! i \<le> xs ! Suc i"
    with z(1) eq Cons.prems(2) have "xs[i := xs ! Suc i, Suc i := xs ! i] = xs"
      by (simp add: order_pair_def not_le)
    then have "xs[i := xs ! Suc i, Suc i := xs ! i] ! i = xs ! i" by simp
    with \<open>\<not> xs ! i \<le> xs ! Suc i\<close> Cons.prems(2) show False by simp
  qed
  ultimately show ?case by simp
qed simp

definition covers :: "nat \<Rightarrow> nat list \<Rightarrow> bool" where
  "covers n is \<longleftrightarrow> set is = {..<n - 1}"

lemma sorted_adjacent: "sorted xs \<longleftrightarrow> (\<forall>i<length xs - 1. xs ! i \<le> xs ! Suc i)"
  by (auto simp: sorted_iff_nth_Suc)

lemma sorted_no_inversions: "sorted xs \<longleftrightarrow> inversions xs = {}"
proof -
  have "inversions xs = {} \<longleftrightarrow> (\<forall>i j. i < j \<longrightarrow> j < length xs \<longrightarrow> \<not> xs ! j < xs ! i)"
    unfolding inversions_def by blast
  then show ?thesis by (simp add: sorted_iff_nth_mono_less not_less)
qed

lemma covering_block:
  assumes "covers (length xs) is"
  shows "\<exists>ys. run_passes is xs = Inr ys \<and> length ys = length xs \<and> mset ys = mset xs \<and>
    card (inversions ys) \<le> card (inversions xs) - 1"
proof -
  have r: "\<forall>i\<in>set is. Suc i < length xs" using assms by (simp add: covers_def less_diff_conv)
  obtain ys where ys: "run_passes is xs = Inr ys" "length ys = length xs" "mset ys = mset xs"
    "ys = xs \<or> card (inversions ys) < card (inversions xs)"
    using run_passes_ok [OF r] by (elim exE conjE) (rule that)
  have "sorted xs" if "ys = xs"
    using run_passes_fixed [OF ys(1) [unfolded that] r] assms by (simp add: covers_def sorted_adjacent)
  then have "ys = xs \<Longrightarrow> card (inversions ys) \<le> card (inversions xs) - 1"
    by (simp add: sorted_no_inversions)
  moreover have "ys \<noteq> xs \<Longrightarrow> card (inversions ys) \<le> card (inversions xs) - 1" using ys(4) by simp
  ultimately show ?thesis using ys(1,2,3) by blast
qed

lemma covering_blocks_sort:
  "\<lbrakk>\<forall>b\<in>set bs. covers (length xs) b; card (inversions xs) \<le> length bs\<rbrakk> \<Longrightarrow>
   \<exists>ys. run_passes (concat bs) xs = Inr ys \<and> sorted ys \<and> mset ys = mset xs"
proof (induction bs arbitrary: xs)
  case Nil
  then show ?case by (simp add: sorted_no_inversions)
next
  case (Cons b bs)
  obtain zs where z: "run_passes b xs = Inr zs" "length zs = length xs" "mset zs = mset xs"
    "card (inversions zs) \<le> card (inversions xs) - 1"
    using covering_block [of xs b] Cons.prems(1) by auto
  then obtain ys where "run_passes (concat bs) zs = Inr ys" "sorted ys" "mset ys = mset zs"
    using Cons.IH [of zs] Cons.prems by fastforce
  with z show ?case by (simp add: run_passes_append)
qed

section \<open>The passes against the library\<close>

lemma fnsort_pass_eq:
  assumes free: "sems_free s" and m: "mutex_free s (mtx_at a)" "mutex_free s (Suc (mtx_at a))"
  shows "fnsort_pass tid a st s =
    bind_res (order_pair (num_at a) (nums st)) (\<lambda>num.
    bind_res (mypthread_yield tid s) (\<lambda>(out, s'). Inr (out, st\<lparr>nums := num\<rparr>, s')))"
proof -
  let ?m = "mtx_at a"
  obtain x where x: "mtxs s ?m = Some x" "\<not> mtx_lock x" "blocked_q_head x = None"
    "x\<lparr>mtx_lock := False\<rparr> = x" by (rule mutex_freeE [OF m(1)])
  obtain y where y: "mtxs s (Suc ?m) = Some y" "\<not> mtx_lock y" "blocked_q_head y = None"
    "y\<lparr>mtx_lock := False\<rparr> = y" by (rule mutex_freeE [OF m(2)])
  let ?s1 = "s\<lparr>mtxs := (mtxs s)(?m \<mapsto> x\<lparr>mtx_lock := True\<rparr>)\<rparr>"
  let ?s2 = "s\<lparr>mtxs := (mtxs s)(?m \<mapsto> x\<lparr>mtx_lock := True\<rparr>, Suc ?m \<mapsto> y\<lparr>mtx_lock := True\<rparr>)\<rparr>"
  let ?s3 = "s\<lparr>mtxs := (mtxs s)(Suc ?m \<mapsto> y\<lparr>mtx_lock := True\<rparr>)\<rparr>"
  have 1: "mypthread_mutex_lock tid ?m s = Inr (Returned 0, ?s1)"
    by (rule mutex_lock_free(1) [OF free x(1,2)])
  have 2: "mypthread_mutex_trylock (Suc ?m) ?s1 = Inr (Returned 0, ?s2)"
    using mutex_lock_free(2) [of ?s1 "Suc ?m" y] free y(1,2) by simp
  have 3: "mypthread_mutex_unlock ?m ?s2 = Inr (Returned 0, ?s3)"
    using unlock_unwaited [of ?s2 ?m "x\<lparr>mtx_lock := True\<rparr>"] free x
    by (simp add: fun_upd_twist fun_upd_idem)
  have 4: "mypthread_mutex_unlock (Suc ?m) ?s3 = Inr (Returned 0, s)"
    using unlock_unwaited [of ?s3 "Suc ?m" "y\<lparr>mtx_lock := True\<rparr>"] free y
    by (simp add: fun_upd_idem)
  show ?thesis by (simp add: fnsort_pass_def 1 2 3 4)
qed

text \<open>The mutexes \<open>m\<close>, \dots, \<open>m + n - 1\<close> with their lock bits at \<open>b\<close>.\<close>

definition set_locks :: "bool \<Rightarrow> nat \<Rightarrow> nat \<Rightarrow> (nat \<rightharpoonup> mypthread_mutex_t) \<Rightarrow> (nat \<rightharpoonup> mypthread_mutex_t)" where
  "set_locks b m n M =
     (\<lambda>j. if m \<le> j \<and> j < m + n then map_option (\<lambda>x. x\<lparr>mtx_lock := b\<rparr>) (M j) else M j)"

lemma set_locks_0 [simp]: "set_locks b m 0 M = M"
  by (auto simp: set_locks_def fun_eq_iff)

lemma set_locks_Suc:
  "M m = Some x \<Longrightarrow> set_locks b (Suc m) n (M(m \<mapsto> x\<lparr>mtx_lock := b\<rparr>)) = set_locks b m (Suc n) M"
  by (auto simp: set_locks_def fun_eq_iff)

lemma lock_all_set:
  "\<lbrakk>sems_free s; \<forall>i<n. mutex_free s (m + i)\<rbrakk> \<Longrightarrow>
   lock_all tid m n s = Inr (Returned 0, s\<lparr>mtxs := set_locks True m n (mtxs s)\<rparr>)"
proof (induction n arbitrary: m s)
  case (Suc n)
  have "mutex_free s m" using Suc.prems(2) by force
  then obtain x where x: "mtxs s m = Some x" "\<not> mtx_lock x" by (rule mutex_freeE)
  let ?s1 = "s\<lparr>mtxs := (mtxs s)(m \<mapsto> x\<lparr>mtx_lock := True\<rparr>)\<rparr>"
  have "mutex_free ?s1 (Suc m + i)" if "i < n" for i
  proof -
    have "mutex_free s (m + Suc i)" using Suc.prems(2) that by blast
    then show ?thesis by (simp add: mutex_free_def)
  qed
  then have "lock_all tid (Suc m) n ?s1 = Inr (Returned 0, ?s1\<lparr>mtxs := set_locks True (Suc m) n (mtxs ?s1)\<rparr>)"
    by (intro Suc.IH) (simp_all add: Suc.prems(1))
  also have "?s1\<lparr>mtxs := set_locks True (Suc m) n (mtxs ?s1)\<rparr> = s\<lparr>mtxs := set_locks True m (Suc n) (mtxs s)\<rparr>"
    using set_locks_Suc [where b = True and n = n and M = "mtxs s" and m = m, OF x(1)] by simp
  finally show ?case
    by (simp only: lock_all.simps mutex_lock_free(1) [OF Suc.prems(1) x] bind_res.simps prod.case
        outcome.case)
qed simp

lemma unlock_all_set:
  "\<lbrakk>sems_free s; \<forall>i<n. \<exists>x. mtxs s (m + i) = Some x \<and> blocked_q_head x = None\<rbrakk> \<Longrightarrow>
   unlock_all m n s = Inr (s\<lparr>mtxs := set_locks False m n (mtxs s)\<rparr>)"
proof (induction n arbitrary: m s)
  case (Suc n)
  from Suc.prems(2) have "\<exists>x. mtxs s (m + 0) = Some x \<and> blocked_q_head x = None" by blast
  then obtain x where x: "mtxs s m = Some x" "blocked_q_head x = None" by auto
  let ?s1 = "s\<lparr>mtxs := (mtxs s)(m \<mapsto> x\<lparr>mtx_lock := False\<rparr>)\<rparr>"
  have "\<exists>y. mtxs ?s1 (Suc m + i) = Some y \<and> blocked_q_head y = None" if "i < n" for i
  proof -
    have "\<exists>x. mtxs s (m + Suc i) = Some x \<and> blocked_q_head x = None" using Suc.prems(2) that by blast
    then show ?thesis by simp
  qed
  then have "unlock_all (Suc m) n ?s1 = Inr (?s1\<lparr>mtxs := set_locks False (Suc m) n (mtxs ?s1)\<rparr>)"
    by (intro Suc.IH) (simp_all add: Suc.prems(1))
  also have "?s1\<lparr>mtxs := set_locks False (Suc m) n (mtxs ?s1)\<rparr> = s\<lparr>mtxs := set_locks False m (Suc n) (mtxs s)\<rparr>"
    using set_locks_Suc [where b = False and n = n and M = "mtxs s" and m = m, OF x(1)] by simp
  finally show ?case
    by (simp only: unlock_all.simps unlock_unwaited [OF Suc.prems(1) x] bind_res.simps prod.case)
qed simp

lemma fncheck_pass_eq:
  assumes free: "sems_free s" and m: "\<forall>i<arg_size a. mutex_free s (mtx_at a + i)"
  shows "fncheck_pass tid a st s =
    bind_res (check_loop (drop (num_at a) (nums st)) 0 (arg_size a - 1)) (\<lambda>check.
    bind_res (mypthread_yield tid s) (\<lambda>(out, s'). Inr (out, st\<lparr>quitting := check\<rparr>, s')))"
proof -
  let ?m = "mtx_at a" and ?n = "arg_size a"
  let ?s1 = "s\<lparr>mtxs := set_locks True ?m ?n (mtxs s)\<rparr>"
  have "\<exists>x. mtxs ?s1 (?m + i) = Some x \<and> blocked_q_head x = None" if "i < ?n" for i
  proof -
    have "mutex_free s (?m + i)" using m that by blast
    then show ?thesis using that by (auto simp: set_locks_def elim!: mutex_freeE)
  qed
  with free have u: "unlock_all ?m ?n ?s1 = Inr (?s1\<lparr>mtxs := set_locks False ?m ?n (mtxs ?s1)\<rparr>)"
    by (intro unlock_all_set) simp_all
  have "set_locks False ?m ?n (set_locks True ?m ?n (mtxs s)) j = mtxs s j" for j
  proof (cases "?m \<le> j \<and> j < ?m + ?n")
    case True
    then have "mutex_free s (?m + (j - ?m))" using m by (metis le_add_diff_inverse nat_add_left_cancel_less)
    then have "mutex_free s j" using True by simp
    then show ?thesis using True by (auto simp: set_locks_def elim!: mutex_freeE)
  qed (auto simp: set_locks_def)
  then have "set_locks False ?m ?n (set_locks True ?m ?n (mtxs s)) = mtxs s" by (simp add: fun_eq_iff)
  with u have u': "unlock_all ?m ?n ?s1 = Inr s" by simp
  show ?thesis by (simp add: fncheck_pass_def lock_all_set [OF free m] u')
qed

end
