(* ===== verification/Programs.thy ===== *)
theory Programs
  imports Mypthread_Demo
begin

text \<open>
  Whole programs on the thread library, on one kernel thread. A program gives the code of its
  routines, cut where they call the library: \<open>code\<close> runs a routine from where it stands (its frame) up
  to the next outcome of a library call, with the frame to go on from when that call has returned, or
  up to the end of the process. The machine keeps the frame of every user thread (its stack), the
  data the threads share, and the library's state; a switch goes on at the context the library
  answers. \<open>run\<close> takes a number of steps.
\<close>

section \<open>Programs and machines\<close>

datatype 'f move = Calls outcome 'f | Ends int

text \<open>The code takes the kernel thread id; \<open>start_frame r a\<close> is the start routine \<open>r\<close> with argument \<open>a\<close>.\<close>

record ('f, 'd) program =
  start_frame :: "nat \<Rightarrow> int \<Rightarrow> 'f"
  code :: "int \<Rightarrow> 'f \<Rightarrow> 'd \<Rightarrow> lib \<Rightarrow> ('f move \<times> 'd \<times> lib) res"

text \<open>
  Where a thread stands: in a routine of the program, or in \<open>mypthread_mutex_lock\<close>, behind which
  comes a routine, or nothing when the context was made by \<open>makecontext\<close> with that function.
\<close>

datatype 'f place = At 'f | In_lock nat "'f option"

record ('f, 'd) machine =
  running :: nat
  stacks :: "nat \<Rightarrow> 'f place"
  shared :: 'd
  library :: lib

datatype ('f, 'd) status = Runs "('f, 'd) machine" | Ended int 'd lib

section \<open>Steps\<close>

text \<open>
  A thread whose context was saved inside the library is back in its caller, \<open>mypthread_cond_wait\<close>
  after it has locked the mutex again.
\<close>

fun resumed :: "('f, 'd) program \<Rightarrow> uctx \<Rightarrow> 'f place \<Rightarrow> 'f place res" where
  "resumed P Ctx_uninit p = Inl BadContext"
| "resumed P (Ctx_start r a) p = Inr (At (start_frame P r a))"
| "resumed P (Ctx_lock m) p = Inr (In_lock m None)"
| "resumed P (Ctx_saved (Resume_cond_wait m)) (At f) = Inr (In_lock m (Some f))"
| "resumed P (Ctx_saved (Resume_cond_wait m)) (In_lock _ _) = Inl Undefined"
| "resumed P (Ctx_saved Resume_none) p = Inr p"
| "resumed P (Ctx_saved Resume_yield) p = Inr p"
| "resumed P (Ctx_saved Resume_join) p = Inr p"

text \<open>
  The running thread, which stands at \<open>p\<close> now, and the outcome of its call. A kernel thread that
  sleeps in the scheduler with no other to wake it sleeps for ever.
\<close>

fun proceed ::
  "('f, 'd) program \<Rightarrow> ('f, 'd) machine \<Rightarrow> 'f place \<Rightarrow> outcome \<Rightarrow> 'd \<Rightarrow> lib \<Rightarrow> ('f, 'd) status res" where
  "proceed P M p (Returned v) d s =
     Inr (Runs \<lparr>running = running M, stacks = (stacks M)(running M := p), shared = d, library = s\<rparr>)"
| "proceed P M p (Switched x c) d s =
     (let st = (stacks M)(running M := p)
      in bind_res (resumed P c (st x)) (\<lambda>q.
         Inr (Runs \<lparr>running = x, stacks = st(x := q), shared = d, library = s\<rparr>)))"
| "proceed P M p (Sleeping k mode l r) d s = Inl Diverges"

definition machine_step :: "int \<Rightarrow> ('f, 'd) program \<Rightarrow> ('f, 'd) machine \<Rightarrow> ('f, 'd) status res" where
  "machine_step tid P M =
     (case stacks M (running M) of
        At f \<Rightarrow>
          bind_res (code P tid f (shared M) (library M)) (\<lambda>(mv, d, s).
          case mv of
            Calls out f' \<Rightarrow> proceed P M (At f') out d s
          | Ends v \<Rightarrow> Inr (Ended v d s))
      | In_lock m k \<Rightarrow>
          bind_res (mypthread_mutex_lock tid m (library M)) (\<lambda>(out, s).
          case out of
            Returned _ \<Rightarrow> (case k of None \<Rightarrow> Inl Undefined | Some f \<Rightarrow> proceed P M (At f) out (shared M) s)
          | _ \<Rightarrow> proceed P M (In_lock m k) out (shared M) s))"

fun run :: "int \<Rightarrow> ('f, 'd) program \<Rightarrow> nat \<Rightarrow> ('f, 'd) machine \<Rightarrow> ('f, 'd) status res" where
  "run tid P 0 M = Inr (Runs M)"
| "run tid P (Suc n) M =
     bind_res (machine_step tid P M) (\<lambda>r.
     case r of Runs M' \<Rightarrow> run tid P n M' | Ended v d s \<Rightarrow> Inr (Ended v d s))"

text \<open>The main thread at the start of the program.\<close>

definition boot :: "'f \<Rightarrow> 'd \<Rightarrow> lib \<Rightarrow> ('f, 'd) machine" where
  "boot f d s = \<lparr>running = main_thread, stacks = (\<lambda>_. At f), shared = d, library = s\<rparr>"

section \<open>Runs\<close>

definition reaches :: "int \<Rightarrow> ('f, 'd) program \<Rightarrow> ('f, 'd) machine \<Rightarrow> ('f, 'd) machine \<Rightarrow> bool" where
  "reaches tid P M M' \<longleftrightarrow> (\<exists>n. run tid P n M = Inr (Runs M'))"

definition ends :: "int \<Rightarrow> ('f, 'd) program \<Rightarrow> ('f, 'd) machine \<Rightarrow> int \<Rightarrow> 'd \<Rightarrow> lib \<Rightarrow> bool" where
  "ends tid P M v d s \<longleftrightarrow> (\<exists>n. run tid P n M = Inr (Ended v d s))"

lemma run_add:
  "run tid P (m + n) M =
     bind_res (run tid P m M) (\<lambda>r. case r of Runs M' \<Rightarrow> run tid P n M' | Ended v d s \<Rightarrow> Inr (Ended v d s))"
proof (induction m arbitrary: M)
  case (Suc m)
  show ?case
  proof (cases "machine_step tid P M")
    case (Inr r)
    then show ?thesis using Suc.IH by (cases r) simp_all
  qed simp
qed simp

lemma reaches_refl [simp, intro]: "reaches tid P M M"
  by (auto simp: reaches_def intro: exI [of _ 0])

lemma reaches_trans [trans]: "reaches tid P M M' \<Longrightarrow> reaches tid P M' M'' \<Longrightarrow> reaches tid P M M''"
proof -
  assume "reaches tid P M M'" "reaches tid P M' M''"
  then obtain m n where "run tid P m M = Inr (Runs M')" "run tid P n M' = Inr (Runs M'')"
    by (auto simp: reaches_def)
  then have "run tid P (m + n) M = Inr (Runs M'')" by (simp add: run_add)
  then show "reaches tid P M M''" by (auto simp: reaches_def)
qed

lemma reaches_step: "machine_step tid P M = Inr (Runs M') \<Longrightarrow> reaches tid P M M'"
  by (auto simp: reaches_def intro: exI [of _ "Suc 0"])

lemma ends_step: "machine_step tid P M = Inr (Ended v d s) \<Longrightarrow> ends tid P M v d s"
  by (auto simp: ends_def intro: exI [of _ "Suc 0"])

lemma reaches_ends: "reaches tid P M M' \<Longrightarrow> ends tid P M' v d s \<Longrightarrow> ends tid P M v d s"
proof -
  assume "reaches tid P M M'" "ends tid P M' v d s"
  then obtain m n where "run tid P m M = Inr (Runs M')" "run tid P n M' = Inr (Ended v d s)"
    by (auto simp: reaches_def ends_def)
  then have "run tid P (m + n) M = Inr (Ended v d s)" by (simp add: run_add)
  then show ?thesis by (auto simp: ends_def)
qed

text \<open>A program ends in one way only.\<close>

lemma ends_unique: "ends tid P M v d s \<Longrightarrow> ends tid P M v' d' s' \<Longrightarrow> v' = v \<and> d' = d \<and> s' = s"
proof -
  assume "ends tid P M v d s" "ends tid P M v' d' s'"
  then obtain m n where r: "run tid P m M = Inr (Ended v d s)" "run tid P n M = Inr (Ended v' d' s')"
    by (auto simp: ends_def)
  then show ?thesis using run_add [of tid P m n M] run_add [of tid P n m M] by (simp add: add.commute)
qed

section \<open>What a program is given\<close>

text \<open>
  The command line, the processors counted, \<open>clone\<close>'s answer, and where the program's \<open>mypthread_t\<close>,
  mutexes and condition variables are.
\<close>

record prog_env =
  argv :: "string list"
  cores :: int
  hyper :: int
  clones_to :: clone_result
  thread_at :: "nat \<Rightarrow> nat"
  mtx_of :: "nat \<Rightarrow> nat"
  cnd_of :: "nat \<Rightarrow> nat"

text \<open>The start of every \<open>main\<close>: the number of arguments, and \<open>mypthread_init\<close>.\<close>

definition start_main ::
  "prog_env \<Rightarrow> nat \<Rightarrow> 'f \<Rightarrow> 'd \<Rightarrow> lib \<Rightarrow> ('f move \<times> 'd \<times> lib) res" where
  "start_main E argc f d s =
     (if length (argv E) \<noteq> argc then Inr (Ends 0, d, s)
      else Inr (Calls (Returned 0) f, d, mypthread_init (cores E) (hyper E) (atoi (argv E ! 1)) s))"

text \<open>A call of the library, and the frame behind it.\<close>

definition calls :: "(outcome \<times> lib) res \<Rightarrow> 'f \<Rightarrow> 'd \<Rightarrow> ('f move \<times> 'd \<times> lib) res" where
  "calls r f d = bind_res r (\<lambda>(out, s). Inr (Calls out f, d, s))"

text \<open>\<open>mypthread_join (threads[t], NULL)\<close>: the control block is passed by value.\<close>

definition join_thread :: "prog_env \<Rightarrow> int \<Rightarrow> nat \<Rightarrow> lib \<Rightarrow> (outcome \<times> lib) res" where
  "join_thread E tid t s =
     bind_res (load_th (thr s) (Some (thread_at E t))) (\<lambda>b. mypthread_join tid (th_id b) s)"

text \<open>\<open>mypthread_create\<close> of thread \<open>t\<close>, followed by \<open>exit (failure)\<close> if it does not return 0.\<close>

definition create_or ::
  "int \<Rightarrow> prog_env \<Rightarrow> int \<Rightarrow> nat \<Rightarrow> nat \<Rightarrow> 'f \<Rightarrow> 'd \<Rightarrow> lib \<Rightarrow> ('f move \<times> 'd \<times> lib) res" where
  "create_or failure E tid t routine f d s =
     bind_res (mypthread_create tid (clones_to E) (thread_at E t) routine (int t) s) (\<lambda>(out, s1).
     Inr (if out = Returned 0 then Calls out f else Ends failure, d, s1))"

end
