(* ===== verification/Fork_Join.thy ===== *)
theory Fork_Join
  imports Programs
begin

text \<open>
  Programs whose main thread creates threads and joins them one after the other. \<open>crew s us\<close>: the
  threads \<open>us\<close> are known and have different ids, dead or alive. The locale \<open>fork_join\<close> is what such a
  program provides: its main thread's joins, and threads that do their work and exit. On one kernel
  thread all of them work, in the order of the queue, and the main thread comes to the end of its
  joins.
\<close>

section \<open>Thread ids\<close>

definition crew :: "lib \<Rightarrow> nat list \<Rightarrow> bool" where
  "crew s us \<longleftrightarrow> distinct us \<and> (\<forall>t\<in>set us. thr s t \<noteq> None) \<and>
                 inj_on (\<lambda>t. th_id (the (thr s t))) (set us)"

definition same_ids :: "lib \<Rightarrow> lib \<Rightarrow> bool" where
  "same_ids s s' \<longleftrightarrow> (\<forall>t. map_option th_id (thr s' t) = map_option th_id (thr s t))"

lemma same_ids_refl [simp]: "same_ids s s"
  by (simp add: same_ids_def)

lemma same_ids_trans: "same_ids s s' \<Longrightarrow> same_ids s' s'' \<Longrightarrow> same_ids s s''"
  by (simp add: same_ids_def)

lemma same_objects_refl [simp]: "same_objects s s"
  by (simp add: same_objects_def)

lemma same_objects_trans: "same_objects s s' \<Longrightarrow> same_objects s' s'' \<Longrightarrow> same_objects s s''"
  by (simp add: same_objects_def)

lemma crew_same_ids:
  assumes "crew s us" and "same_ids s s'"
  shows "crew s' us"
proof -
  have eq: "map_option th_id (thr s' t) = map_option th_id (thr s t)" for t
    using assms(2) by (simp add: same_ids_def)
  have "thr s' t \<noteq> None \<and> th_id (the (thr s' t)) = th_id (the (thr s t))" if "thr s t \<noteq> None" for t
    using eq [of t] that by (cases "thr s t"; cases "thr s' t") auto
  then show ?thesis using assms(1) by (auto simp: crew_def inj_on_def)
qed

lemma same_ids_upd:
  "thr s a = Some t \<Longrightarrow> th_id t' = th_id t \<Longrightarrow> thr s' = (thr s)(a \<mapsto> t') \<Longrightarrow> same_ids s s'"
  by (simp add: same_ids_def)

lemma same_ids_exit:
  "thr s cur = Some tc \<Longrightarrow> thr s' = exit_thr (thr s) cur tc ts \<Longrightarrow> same_ids s s'"
  by (auto simp: same_ids_def exit_thr_def wake_def map_option_case split: option.splits)

section \<open>Joining and exiting\<close>

text \<open>The caller joins the thread at the front of the queue.\<close>

lemma join_front:
  assumes co: "coop tid kth s cur (x # xs)" and room: "0 < room (qnodes s)"
    and tx: "thr s x = Some tx" and act: "active (thr s) (Some x)"
    and tc: "thr s cur = Some tc"
  obtains c s' where
    "mypthread_join tid (th_id tx) s = Inr (Switched x c, s')" "coop tid kth s' x (xs @ [cur])"
    "thr s' = (thr s)(cur \<mapsto> tc\<lparr>th_state := PS_WAITING, dependent_th := th_id tx\<rparr>)"
    "room (qnodes s') = room (qnodes s)" "ctx_of s x = Some c"
    "ctx_of s' cur = Some (Ctx_saved Resume_join)"
    "\<forall>y\<in>set (x # xs). ctx_of s' y = ctx_of s y" "same_objects s s'"
proof -
  have ts: "x # xs = [] @ x # xs" and na: "\<forall>y\<in>set []. \<not> active (thr s) (Some y)" by simp_all
  obtain c s' where s': "wait_for_thread (Some kth) (th_id tx) s = Inr (Switched x c, s')"
    "coop tid kth s' x ([] @ xs @ [cur])"
    "thr s' = (thr s)(cur \<mapsto> tc\<lparr>th_state := PS_WAITING, dependent_th := th_id tx\<rparr>)"
    "room (qnodes s') = room (qnodes s)" "ctx_of s x = Some c"
    "ctx_of s' cur = Some (Ctx_saved Resume_join)"
    "\<forall>y\<in>set (x # xs). ctx_of s' y = ctx_of s y" "same_objects s s'"
    by (rule wait_switch [OF co room ts na act tc])
  have "find (\<lambda>t. th_has_id (thr s) (th_id tx) (Some t)) (x # xs) = Some x"
    using tx by (simp add: th_has_id_def)
  from join_found [OF co this tx] act tx s' show ?thesis
    by (intro that) (simp_all add: active_def)
qed

text \<open>A thread that has exited is joined at once.\<close>

lemma join_gone:
  assumes co: "coop tid kth s cur ts" and cr: "crew s us" and sub: "set (cur # ts) \<subseteq> set us"
    and t: "t \<in> set us" "t \<notin> set (cur # ts)" "thr s t = Some b"
  shows "mypthread_join tid (th_id b) s = Inr (Returned 0, s)"
proof -
  obtain tc where tc: "thr s cur = Some tc" using coop_cur [OF co] by metis
  have ne: "th_id (the (thr s y)) \<noteq> th_id b" if "y \<in> set (cur # ts)" for y
  proof
    assume "th_id (the (thr s y)) = th_id b"
    then have "th_id (the (thr s y)) = th_id (the (thr s t))" using t(3) by simp
    moreover have "y \<in> set us" using that sub by blast
    ultimately have "y = t" using cr t(1) by (auto simp: crew_def inj_on_def)
    with that t(2) show False by simp
  qed
  have "find (\<lambda>t. th_has_id (thr s) (th_id b) (Some t)) ts = None"
    using ne by (force simp: find_None_iff th_has_id_def load_th_def split: option.splits sum.splits)
  from join_absent [OF co this tc] ne [of cur] tc show ?thesis by simp
qed

text \<open>
  The running thread exits; the next thread of the queue is active or waits for it.
\<close>

lemma exit_next:
  assumes co: "coop tid kth s cur (x # xs)" and tc: "thr s cur = Some tc"
    and act: "active (thr s) (Some x) \<or> dependent_th (the (thr s x)) = th_id tc"
  obtains c s' where
    "mypthread_exit tid s = Inr (Switched x c, s')" "coop tid kth s' x xs"
    "room (qnodes s') = Suc (room (qnodes s))" "ctx_of s x = Some c"
    "\<forall>y\<in>set (x # xs). ctx_of s' y = ctx_of s y" "same_objects s s'" "same_ids s s'"
    "\<forall>y\<in>set (x # xs). active (thr s) (Some y) \<or> dependent_th (the (thr s y)) = th_id tc \<longrightarrow>
       active (thr s') (Some y)"
proof -
  have kn: "\<forall>t\<in>set (x # xs). thr s t \<noteq> None" and nc: "cur \<notin> set (x # xs)"
    using coopD(4,5) [OF co] by (auto simp: runq_iff)
  note ex = exit_thr_other(2) [OF kn nc]
  have a: "active (exit_thr (thr s) cur tc (x # xs)) (Some x)" using ex [of x] act by simp
  have ts: "x # xs = [] @ x # xs" by simp
  have na: "\<forall>y\<in>set []. \<not> active (exit_thr (thr s) cur tc (x # xs)) (Some y)" by simp
  obtain c s' where s': "mypthread_exit tid s = Inr (Switched x c, s')" "coop tid kth s' x ([] @ xs)"
    "thr s' = exit_thr (thr s) cur tc (x # xs)" "room (qnodes s') = Suc (room (qnodes s))"
    "ctx_of s x = Some c" "mypthread_policy s' = mypthread_policy s"
    "\<forall>y\<in>set (x # xs). ctx_of s' y = ctx_of s y" "same_objects s s'"
    by (rule exit_switch [OF co tc ts _ na a]) simp
  show ?thesis
    by (rule that [of c s']) (use s' ex same_ids_exit [OF tc s'(3)] in auto)
qed

section \<open>Stretches of a run\<close>

abbreviation config :: "nat \<Rightarrow> (nat \<Rightarrow> 'f place) \<Rightarrow> 'd \<Rightarrow> lib \<Rightarrow> ('f, 'd) machine" where
  "config t st d s \<equiv> \<lparr>running = t, stacks = st, shared = d, library = s\<rparr>"

text \<open>Thread \<open>t\<close>, which waits for the processor, goes on at \<open>f\<close>.\<close>

definition ready :: "('f, 'd) program \<Rightarrow> (nat \<Rightarrow> 'f place) \<Rightarrow> lib \<Rightarrow> nat \<Rightarrow> 'f \<Rightarrow> bool" where
  "ready P st s t f \<longleftrightarrow> (\<exists>c. ctx_of s t = Some c \<and> resumed P c (st t) = Inr (At f))"

text \<open>What a stretch of the run keeps: the threads' ids, the mutexes, the memory for the run queue.\<close>

definition keeps :: "lib \<Rightarrow> lib \<Rightarrow> bool" where
  "keeps s s' \<longleftrightarrow> same_ids s s' \<and> same_objects s s' \<and> room (qnodes s) \<le> room (qnodes s')"

lemma keeps_trans: "keeps s s' \<Longrightarrow> keeps s' s'' \<Longrightarrow> keeps s s''"
  by (auto simp: keeps_def intro: same_ids_trans same_objects_trans)

lemma keeps_refl [simp]: "keeps s s"
  by (simp add: keeps_def)

section \<open>The interface\<close>

text \<open>
  \<open>member i\<close> is the control block of thread \<open>i\<close>, which stands in \<open>duty i\<close> when it has the processor
  and in \<open>gone i\<close> once it has called \<open>mypthread_exit\<close>; \<open>work i\<close> is what it does to the shared data
  before, where \<open>fine\<close> says what it needs. The main thread in \<open>joining i\<close> joins thread \<open>i\<close>.
\<close>

locale fork_join =
  fixes tid :: int and P :: "('f, 'd) program" and n :: nat and member :: "nat \<Rightarrow> nat"
    and joining :: "nat \<Rightarrow> 'f" and duty :: "nat \<Rightarrow> 'f" and gone :: "nat \<Rightarrow> 'f"
    and work :: "nat \<Rightarrow> 'd \<Rightarrow> 'd" and fine :: "'d \<Rightarrow> lib \<Rightarrow> bool"
  assumes joins: "i < n \<Longrightarrow> code P tid (joining i) d s =
      bind_res (load_th (thr s) (Some (member i))) (\<lambda>t.
      bind_res (mypthread_join tid (th_id t) s) (\<lambda>(out, s'). Inr (Calls out (joining (Suc i)), d, s')))"
    and exits: "\<lbrakk>i < n; sems_free s; fine d s\<rbrakk> \<Longrightarrow> code P tid (duty i) d s =
      bind_res (mypthread_exit tid s) (\<lambda>(out, s'). Inr (Calls out (gone i), work i d, s'))"
    and fine_work: "\<lbrakk>i < n; fine d s; same_objects s s'\<rbrakk> \<Longrightarrow> fine (work i d) s'"
    and fine_same: "\<lbrakk>fine d s; same_objects s s'\<rbrakk> \<Longrightarrow> fine d s'"
begin

abbreviation crew_of :: "lib \<Rightarrow> bool" where
  "crew_of s \<equiv> crew s (main_thread # map member [0..<n])"

abbreviation waiting_from :: "nat \<Rightarrow> nat list" where
  "waiting_from i \<equiv> map member [i..<n]"

lemma crew_ofE:
  assumes "crew_of s" and "i < n"
  obtains b where "thr s (member i) = Some b" "member i \<noteq> main_thread"
proof -
  have m: "member i \<in> set (map member [0..<n])" using assms(2) by simp
  with assms(1) have "thr s (member i) \<noteq> None" "member i \<noteq> main_thread" by (auto simp: crew_def)
  with that show ?thesis by auto
qed

lemma waiting_from_Cons: "i < n \<Longrightarrow> waiting_from i = member i # waiting_from (Suc i)"
  by (simp add: upt_conv_Cons)

section \<open>The threads exit\<close>

text \<open>
  Thread \<open>i\<close> runs, the later ones wait for the processor in order, and behind them the main thread,
  which will go on at \<open>f\<close>: it is active or waits for thread \<open>i\<close>.
\<close>

definition lined_up :: "nat \<Rightarrow> nat \<Rightarrow> 'f \<Rightarrow> (nat \<Rightarrow> 'f place) \<Rightarrow> 'd \<Rightarrow> lib \<Rightarrow> bool" where
  "lined_up kth i f st d s \<longleftrightarrow>
     coop tid kth s (member i) (waiting_from (Suc i) @ [main_thread]) \<and> crew_of s \<and>
     (\<forall>j\<in>{Suc i..<n}. active (thr s) (Some (member j)) \<and> ready P st s (member j) (duty j)) \<and>
     (active (thr s) (Some main_thread) \<or>
        dependent_th (the (thr s main_thread)) = th_id (the (thr s (member i)))) \<and>
     st (member i) = At (duty i) \<and> ready P st s main_thread f \<and> fine d s"

lemma lined_upD:
  assumes "lined_up kth i f st d s"
  shows "coop tid kth s (member i) (waiting_from (Suc i) @ [main_thread])" and "crew_of s"
    and "\<forall>j\<in>{Suc i..<n}. active (thr s) (Some (member j)) \<and> ready P st s (member j) (duty j)"
    and "active (thr s) (Some main_thread) \<or>
           dependent_th (the (thr s main_thread)) = th_id (the (thr s (member i)))"
    and "st (member i) = At (duty i)" and "ready P st s main_thread f" and "fine d s"
  using assms by (simp_all add: lined_up_def)

text \<open>One exit: the next thread \<open>x\<close> of the queue goes on at \<open>g\<close>.\<close>

lemma chain_exit:
  assumes l: "lined_up kth i f st d s" and i: "i < n"
    and q: "waiting_from (Suc i) @ [main_thread] = x # xs" and x: "ready P st s x g"
  obtains st' s' where
    "reaches tid P (config (member i) st d s) (config x st' (work i d) s')"
    "coop tid kth s' x xs" "keeps s s'" "st' x = At g"
    "\<forall>y\<in>set (x # xs). active (thr s') (Some y)"
    "\<And>y h. y \<in> set xs \<Longrightarrow> ready P st s y h \<Longrightarrow> ready P st' s' y h"
proof -
  note l' = lined_upD [OF l]
  obtain tc where tc: "thr s (member i) = Some tc" using coop_cur [OF l'(1)] by metis
  have dist: "member i \<notin> set (x # xs)" "distinct (x # xs)" using coopD(5) [OF l'(1)] q by auto
  have act: "\<forall>y\<in>set (x # xs). active (thr s) (Some y) \<or> dependent_th (the (thr s y)) = th_id tc"
    using l'(3,4) tc unfolding q [symmetric] by auto
  then have ax: "active (thr s) (Some x) \<or> dependent_th (the (thr s x)) = th_id tc" by simp
  obtain c s1 where s1: "mypthread_exit tid s = Inr (Switched x c, s1)" "coop tid kth s1 x xs"
    "room (qnodes s1) = Suc (room (qnodes s))" "ctx_of s x = Some c"
    "\<forall>y\<in>set (x # xs). ctx_of s1 y = ctx_of s y" "same_objects s s1" "same_ids s s1"
    "\<forall>y\<in>set (x # xs). active (thr s) (Some y) \<or> dependent_th (the (thr s y)) = th_id tc \<longrightarrow>
       active (thr s1) (Some y)"
    by (rule exit_next [OF l'(1) [unfolded q] tc ax])
  have code: "code P tid (duty i) d s = Inr (Calls (Switched x c) (gone i), work i d, s1)"
    using exits [OF i coopD(2) [OF l'(1)] l'(7)] s1(1) by simp
  let ?st = "st(member i := At (gone i), x := At g)"
  have "resumed P c (st x) = Inr (At g)" using x s1(4) by (auto simp: ready_def)
  then have "machine_step tid P (config (member i) st d s) = Inr (Runs (config x ?st (work i d) s1))"
    using dist(1) by (simp add: machine_step_def l'(5) code Let_def)
  note r = reaches_step [OF this]
  have rdy: "ready P ?st s1 y h" if "y \<in> set xs" "ready P st s y h" for y h
  proof -
    have "y \<noteq> member i" "y \<noteq> x" using that(1) dist by auto
    with that s1(5) show ?thesis by (simp add: ready_def)
  qed
  have "keeps s s1" using s1(3,6,7) by (simp add: keeps_def)
  then show ?thesis using s1(8) act by (intro that [OF r s1(2) _ _ _ rdy]) simp_all
qed

lemma chain_step:
  assumes l: "lined_up kth i f st d s" and i: "Suc i < n"
  obtains st' s' where
    "reaches tid P (config (member i) st d s) (config (member (Suc i)) st' (work i d) s')"
    "lined_up kth (Suc i) f st' (work i d) s'" "keeps s s'"
proof -
  note l' = lined_upD [OF l]
  have q: "waiting_from (Suc i) @ [main_thread] =
      member (Suc i) # (waiting_from (Suc (Suc i)) @ [main_thread])"
    using i by (simp add: waiting_from_Cons)
  have x: "ready P st s (member (Suc i)) (duty (Suc i))" and i': "i < n" using l'(3) i by simp_all
  obtain st' s' where s': "reaches tid P (config (member i) st d s) (config (member (Suc i)) st' (work i d) s')"
    "coop tid kth s' (member (Suc i)) (waiting_from (Suc (Suc i)) @ [main_thread])" "keeps s s'"
    "st' (member (Suc i)) = At (duty (Suc i))"
    "\<forall>y\<in>set (member (Suc i) # waiting_from (Suc (Suc i)) @ [main_thread]). active (thr s') (Some y)"
    "\<And>y h. y \<in> set (waiting_from (Suc (Suc i)) @ [main_thread]) \<Longrightarrow> ready P st s y h \<Longrightarrow> ready P st' s' y h"
    by (rule chain_exit [OF l i' q x]) blast
  have "lined_up kth (Suc i) f st' (work i d) s'"
    unfolding lined_up_def
  proof (intro conjI ballI)
    show "crew_of s'" using crew_same_ids [OF l'(2)] s'(3) by (simp add: keeps_def)
    show "fine (work i d) s'" using fine_work [OF i' l'(7)] s'(3) by (simp add: keeps_def)
    show "ready P st' s' main_thread f" using l'(6) by (intro s'(6)) simp_all
    fix j assume j: "j \<in> {Suc (Suc i)..<n}"
    show "active (thr s') (Some (member j))" using s'(5) j by simp
    show "ready P st' s' (member j) (duty j)" using l'(3) j by (intro s'(6)) simp_all
  qed (use s'(2,4,5) in simp_all)
  with s'(1,3) show ?thesis by (intro that)
qed

text \<open>From the thread that runs, all work and exit, and the main thread is next.\<close>

lemma chain:
  assumes "i < n" and "lined_up kth i f st d s"
  shows "\<exists>st' s'. reaches tid P (config (member i) st d s) (config main_thread st' (fold work [i..<n] d) s') \<and>
    st' main_thread = At f \<and> coop tid kth s' main_thread [] \<and> keeps s s'"
  using assms
proof (induction "n - i" arbitrary: i st d s)
  case (Suc k)
  note l' = lined_upD [OF Suc.prems(2)]
  show ?case
  proof (cases "Suc i < n")
    case False
    then have q: "waiting_from (Suc i) @ [main_thread] = main_thread # []" and i: "[i..<n] = [i]"
      using Suc.prems(1) by (simp_all add: upt_conv_Cons)
    obtain st' s' where "reaches tid P (config (member i) st d s) (config main_thread st' (work i d) s')"
      "coop tid kth s' main_thread []" "keeps s s'" "st' main_thread = At f"
      by (rule chain_exit [OF Suc.prems(2,1) q l'(6)])
    then show ?thesis unfolding i by auto
  next
    case True
    obtain st1 s1 where 1: "reaches tid P (config (member i) st d s)
        (config (member (Suc i)) st1 (work i d) s1)"
      "lined_up kth (Suc i) f st1 (work i d) s1" "keeps s s1"
      by (rule chain_step [OF Suc.prems(2) True])
    have "k = n - Suc i" using Suc.hyps(2) by simp
    from Suc.hyps(1) [OF this True 1(2)] obtain st' s' where
      "reaches tid P (config (member (Suc i)) st1 (work i d) s1)
         (config main_thread st' (fold work [Suc i..<n] (work i d)) s')"
      "st' main_thread = At f" "coop tid kth s' main_thread []" "keeps s1 s'" by auto
    then show ?thesis
      using reaches_trans [OF 1(1)] keeps_trans [OF 1(3)] Suc.prems(1) by (auto simp: upt_conv_Cons)
  qed
qed simp

section \<open>The main thread joins\<close>

text \<open>With no thread left every join returns at once.\<close>

lemma join_rest:
  assumes "i \<le> n" and "coop tid kth s main_thread []" and "crew_of s" and "st main_thread = At (joining i)"
  shows "\<exists>st'. reaches tid P (config main_thread st d s) (config main_thread st' d s) \<and>
    st' main_thread = At (joining n)"
  using assms
proof (induction "n - i" arbitrary: i st)
  case 0
  then show ?case by (auto intro: exI [of _ st])
next
  case (Suc k)
  then have i: "i < n" by simp
  obtain b where b: "thr s (member i) = Some b" "member i \<noteq> main_thread"
    by (rule crew_ofE [OF Suc.prems(3) i])
  have "mypthread_join tid (th_id b) s = Inr (Returned 0, s)"
    by (rule join_gone [OF Suc.prems(2,3) _ _ _ b(1)]) (use i b(2) in auto)
  then have "machine_step tid P (config main_thread st d s) =
      Inr (Runs (config main_thread (st(main_thread := At (joining (Suc i)))) d s))"
    using joins [OF i, of d s] b by (simp add: machine_step_def Suc.prems(4))
  note r = reaches_step [OF this]
  have "\<exists>st'. reaches tid P (config main_thread (st(main_thread := At (joining (Suc i)))) d s)
      (config main_thread st' d s) \<and> st' main_thread = At (joining n)"
    using Suc i by (intro Suc.hyps(1)) simp_all
  with reaches_trans [OF r] show ?case by blast
qed

text \<open>
  All of them: the main thread joins the first thread of the queue, the chain of exits gives the
  processor back to it, and the other joins return.
\<close>

lemma join_all:
  assumes i: "i \<le> n" and co: "coop tid kth s main_thread (waiting_from i)" and cr: "crew_of s"
    and us: "\<forall>j\<in>{i..<n}. active (thr s) (Some (member j)) \<and> ready P st s (member j) (duty j)"
    and st: "st main_thread = At (joining i)" and f: "fine d s" and room: "0 < room (qnodes s)"
  shows "\<exists>st' s'. reaches tid P (config main_thread st d s)
      (config main_thread st' (fold work [i..<n] d) s') \<and>
    st' main_thread = At (joining n) \<and> coop tid kth s' main_thread [] \<and> keeps s s'"
proof (cases "i < n")
  case False
  with i st co show ?thesis by (auto intro!: exI [of _ st] exI [of _ s])
next
  case True
  have q: "waiting_from i = member i # waiting_from (Suc i)" by (rule waiting_from_Cons [OF True])
  obtain tx where tx: "thr s (member i) = Some tx" by (rule crew_ofE [OF cr True])
  obtain tc where tc: "thr s main_thread = Some tc" using coop_cur [OF co] by metis
  have act: "active (thr s) (Some (member i))" using us True by simp
  have dist: "main_thread \<notin> set (waiting_from i)" "distinct (waiting_from i)" using coopD(5) [OF co] by auto
  obtain c s1 where s1: "mypthread_join tid (th_id tx) s = Inr (Switched (member i) c, s1)"
    "coop tid kth s1 (member i) (waiting_from (Suc i) @ [main_thread])"
    "thr s1 = (thr s)(main_thread \<mapsto> tc\<lparr>th_state := PS_WAITING, dependent_th := th_id tx\<rparr>)"
    "room (qnodes s1) = room (qnodes s)" "ctx_of s (member i) = Some c"
    "ctx_of s1 main_thread = Some (Ctx_saved Resume_join)"
    "\<forall>y\<in>set (member i # waiting_from (Suc i)). ctx_of s1 y = ctx_of s y" "same_objects s s1"
    by (rule join_front [OF co [unfolded q] room tx act tc])
  let ?st = "st(main_thread := At (joining (Suc i)), member i := At (duty i))"
  have nm: "member j \<noteq> main_thread" if "j \<in> {i..<n}" for j
  proof -
    have "member j \<in> set (waiting_from i)" using that by simp
    with dist(1) show ?thesis by metis
  qed
  have ni: "member j \<noteq> member i" if "j \<in> {Suc i..<n}" for j
  proof -
    have "member j \<in> set (waiting_from (Suc i))" using that by simp
    moreover have "member i \<notin> set (waiting_from (Suc i))" using dist(2) unfolding q by simp
    ultimately show ?thesis by metis
  qed
  have "ready P st s (member i) (duty i)" using us True by simp
  then have "resumed P c (st (member i)) = Inr (At (duty i))"
    using s1(5) by (auto simp: ready_def)
  then have r: "reaches tid P (config main_thread st d s) (config (member i) ?st d s1)"
    using joins [OF True, of d s] tx s1(1) nm [of i] True
    by (intro reaches_step) (simp add: machine_step_def st Let_def)
  have ids: "same_ids s s1" by (rule same_ids_upd [OF tc _ s1(3)]) simp
  have "lined_up kth i (joining (Suc i)) ?st d s1"
    unfolding lined_up_def
  proof (intro conjI ballI)
    show "crew_of s1" by (rule crew_same_ids [OF cr ids])
    show "fine d s1" by (rule fine_same [OF f s1(8)])
    show "active (thr s1) (Some main_thread) \<or>
        dependent_th (the (thr s1 main_thread)) = th_id (the (thr s1 (member i)))"
      using s1(3) tx nm [of i] True by simp
    show "ready P ?st s1 main_thread (joining (Suc i))"
      using s1(6) nm [of i] True by (simp add: ready_def)
    fix j assume j: "j \<in> {Suc i..<n}"
    then show "active (thr s1) (Some (member j))" using us s1(3) nm [of j] by (simp add: active_def)
    show "ready P ?st s1 (member j) (duty j)"
      using us s1(7) nm [of j] ni [OF j] j by (auto simp: ready_def)
  qed (use s1(2) nm [of i] True in simp_all)
  from chain [OF True this] obtain st2 s2 where 2: "reaches tid P (config (member i) ?st d s1)
      (config main_thread st2 (fold work [i..<n] d) s2)"
    "st2 main_thread = At (joining (Suc i))" "coop tid kth s2 main_thread []" "keeps s1 s2" by blast
  have k: "keeps s s2" using ids s1(4,8) 2(4) by (auto simp: keeps_def intro: same_ids_trans same_objects_trans)
  have cr2: "crew_of s2" using crew_same_ids [OF cr] k by (simp add: keeps_def)
  have "Suc i \<le> n" using True by simp
  from join_rest [where i = "Suc i" and st = st2 and d = "fold work [i..<n] d", OF this 2(3) cr2 2(2)]
  obtain st3 where
    "reaches tid P (config main_thread st2 (fold work [i..<n] d) s2)
       (config main_thread st3 (fold work [i..<n] d) s2)" "st3 main_thread = At (joining n)"
    by blast
  then show ?thesis using reaches_trans [OF reaches_trans [OF r 2(1)]] 2(3) k by blast
qed

end

end
