(* ===== verification/Fork_Start.thy ===== *)
theory Fork_Start
  imports Fork_Join
begin

text \<open>
  The beginning of a program that creates its threads one after the other (policy \<open>ULONLY\<close>): the
  first \<open>mypthread_create\<close> registers the main thread, and each puts its thread at the end of the run
  queue. The locale \<open>forking\<close> extends \<open>fork_join\<close> by the creations.
\<close>

section \<open>Creating thread after thread\<close>

text \<open>The ids given so far are at most the counter.\<close>

definition numbered :: "lib \<Rightarrow> nat list \<Rightarrow> bool" where
  "numbered s us \<longleftrightarrow> crew s us \<and> (\<forall>t\<in>set us. th_id (the (thr s t)) \<le> mypthread_th_gen s)"

declare coop_mtxs [simp]

lemma numbered_mtxs [simp]: "numbered (s\<lparr>mtxs := M\<rparr>) us = numbered s us"
  by (simp add: numbered_def crew_def)

lemma at_start_mtxs [simp]: "at_start (s\<lparr>mtxs := M\<rparr>) = at_start s"
  by (simp add: at_start_def)

lemma numbered_snoc:
  assumes nu: "numbered s us" and t: "t \<notin> set us"
    and T: "thr s' = (thr s)(t \<mapsto> b)" "th_id b = mypthread_th_gen s + 1"
    and g: "mypthread_th_gen s' = mypthread_th_gen s + 1"
  shows "numbered s' (us @ [t])"
proof -
  have ids: "th_id (the (thr s' y)) = th_id (the (thr s y))" if "y \<in> set us" for y
    using that t T(1) by auto
  have le: "th_id (the (thr s y)) \<le> mypthread_th_gen s" if "y \<in> set us" for y
    using that nu by (simp add: numbered_def)
  have inj: "inj_on (\<lambda>t. th_id (the (thr s t))) (set us)" using nu by (simp add: numbered_def crew_def)
  have "inj_on (\<lambda>t. th_id (the (thr s' t))) (insert t (set us))"
  proof (rule inj_onI)
    fix x y assume xy: "x \<in> insert t (set us)" "y \<in> insert t (set us)"
      "th_id (the (thr s' x)) = th_id (the (thr s' y))"
    have new: "th_id (the (thr s' t)) = mypthread_th_gen s + 1" using T by simp
    consider "x = t" "y = t" | "x = t" "y \<in> set us" | "x \<in> set us" "y = t" | "x \<in> set us" "y \<in> set us"
      using xy(1,2) by blast
    then show "x = y"
    proof cases
      case 2 with xy(3) ids [of y] le [of y] new show ?thesis by simp
    next
      case 3 with xy(3) ids [of x] le [of x] new show ?thesis by simp
    next
      case 4 with xy(3) ids inj show ?thesis by (auto simp: inj_on_def)
    qed simp
  qed
  then show ?thesis using nu t T g by (auto simp: numbered_def crew_def intro: order_trans)
qed

text \<open>
  \<open>forked s0 us s\<close>: from \<open>s0\<close> the main thread has registered and created the threads \<open>us\<close>, of start
  routines and arguments \<open>f\<close>.
\<close>

definition forked ::
  "int \<Rightarrow> nat \<Rightarrow> (nat \<Rightarrow> nat \<times> int) \<Rightarrow> lib \<Rightarrow> nat list \<Rightarrow> lib \<Rightarrow> bool" where
  "forked tid kth f s0 us s \<longleftrightarrow>
     coop tid kth s main_thread us \<and> numbered s (main_thread # us) \<and> mypthread_policy s = ULONLY \<and>
     (\<forall>t\<in>set us. active (thr s) (Some t) \<and> ctx_of s t = Some (Ctx_start (fst (f t)) (snd (f t)))) \<and>
     room (qnodes s) + length us = room (qnodes s0) \<and>
     Suc (room (ctxs s) + length us) = room (ctxs s0) \<and>
     (\<forall>t. thr s0 t \<noteq> None \<longrightarrow> thr s t \<noteq> None)"

lemma forked_mtxs [simp]: "forked tid kth f s0 us (s\<lparr>mtxs := M\<rparr>) = forked tid kth f s0 us s"
  by (simp add: forked_def)

lemma forked_cnds0 [simp]: "forked tid kth f (s0\<lparr>cnds := C\<rparr>) us s = forked tid kth f s0 us s"
  by (simp add: forked_def)

lemma forked_mtxs0 [simp]: "forked tid kth f (s0\<lparr>mtxs := M\<rparr>) us s = forked tid kth f s0 us s"
  by (simp add: forked_def)

lemma forked_register:
  assumes st: "at_start s0" and pol: "mypthread_policy s0 = ULONLY"
    and room: "0 < room (ctxs s0)" "0 < room (kths s0)" "0 < room (knodes s0)"
  obtains s where "register_main tid s0 = Inr s" "forked tid (fresh (kths s0)) f s0 [] s" "mtxs s = mtxs s0"
    "cnds s = cnds s0"
proof -
  obtain s where s: "register_main tid s0 = Inr s" "coop tid (fresh (kths s0)) s main_thread []"
    "thr s = (thr s0)(main_thread \<mapsto> (the (thr s0 main_thread))\<lparr>th_id := mypthread_th_gen s0 + 1,
                 th_ctx := Some (fresh (ctxs s0)), th_state := PS_RUNNING\<rparr>)"
    "mypthread_th_gen s = mypthread_th_gen s0 + 1" "mypthread_policy s = mypthread_policy s0"
    "qnodes s = qnodes s0" "Suc (room (ctxs s)) = room (ctxs s0)" "current_kthread_count s = 1"
    "same_objects s0 s"
    by (rule register_main_coop [OF st room])
  then have "forked tid (fresh (kths s0)) f s0 [] s"
    using pol by (simp add: forked_def numbered_def crew_def)
  with s(1,9) show ?thesis by (intro that [of s]) (simp_all add: same_objects_def)
qed

lemma forked_create:
  assumes fk: "forked tid kth f s0 us s" and t: "t \<notin> set (main_thread # us)" "thr s0 t \<noteq> None"
    and room: "length us < room (qnodes s0)" "Suc (length us) < room (ctxs s0)"
  obtains s' where "mypthread_create tid env t (fst (f t)) (snd (f t)) s = Inr (Returned 0, s')"
    "forked tid kth f s0 (us @ [t]) s'" "mtxs s' = mtxs s" "cnds s' = cnds s"
proof -
  from fk have co: "coop tid kth s main_thread us" and pol: "mypthread_policy s = ULONLY"
    and nu: "numbered s (main_thread # us)" by (simp_all add: forked_def)
  have r: "0 < room (qnodes s)" "0 < room (ctxs s)" using fk room by (auto simp: forked_def)
  obtain t0 where t0: "thr s t = Some t0" using fk t(2) by (auto simp: forked_def)
  obtain s' where s': "mypthread_create tid env t (fst (f t)) (snd (f t)) s = Inr (Returned 0, s')"
    "coop tid kth s' main_thread (us @ [t])"
    "thr s' = (thr s)(t \<mapsto> t0\<lparr>th_ctx := Some (fresh (ctxs s)), th_state := PS_ACTIVE,
                              th_id := mypthread_th_gen s + 1\<rparr>)"
    "mypthread_th_gen s' = mypthread_th_gen s + 1"
    "ctx_of s' t = Some (Ctx_start (fst (f t)) (snd (f t)))"
    "mypthread_policy s' = ULONLY"
    "Suc (room (qnodes s')) = room (qnodes s)" "Suc (room (ctxs s')) = room (ctxs s)"
    "\<forall>y\<in>set (main_thread # us). ctx_of s' y = ctx_of s y" "same_objects s s'"
    by (rule create_coop [OF co pol t(1) t0 r])
  have "numbered s' ((main_thread # us) @ [t])" by (rule numbered_snoc [OF nu t(1) s'(3) _ s'(4)]) simp
  then have "forked tid kth f s0 (us @ [t]) s'"
    using fk s'(2,3,5-9) t(1) by (auto simp: forked_def active_def)
  with s'(1,10) show ?thesis by (intro that [of s']) (simp_all add: same_objects_def)
qed

text \<open>The first call registers and creates.\<close>

lemma forked_first:
  assumes st: "at_start s0" and pol: "mypthread_policy s0 = ULONLY"
    and room: "0 < room (qnodes s0)" "1 < room (ctxs s0)" "0 < room (kths s0)" "0 < room (knodes s0)"
    and t: "t \<noteq> main_thread" "thr s0 t \<noteq> None"
  obtains s' where "mypthread_create tid env t (fst (f t)) (snd (f t)) s0 = Inr (Returned 0, s')"
    "forked tid (fresh (kths s0)) f s0 [t] s'" "mtxs s' = mtxs s0" "cnds s' = cnds s0"
proof -
  have "0 < room (ctxs s0)" using room(2) by simp
  then obtain s1 where s1: "register_main tid s0 = Inr s1" "forked tid (fresh (kths s0)) f s0 [] s1"
    "mtxs s1 = mtxs s0" "cnds s1 = cnds s0"
    by (rule forked_register [OF st pol _ room(3,4)])
  obtain s' where s': "mypthread_create tid env t (fst (f t)) (snd (f t)) s1 = Inr (Returned 0, s')"
    "forked tid (fresh (kths s0)) f s0 ([] @ [t]) s'" "mtxs s' = mtxs s1" "cnds s' = cnds s1"
    by (rule forked_create [OF s1(2)]) (use t room in simp_all)
  have "mypthread_count s0 = 0" "mypthread_count s1 \<noteq> 0"
    using st s1(2) coopD(3) by (fastforce simp: at_start_def forked_def)+
  then show ?thesis using s' s1 by (intro that [of s']) (simp_all add: mypthread_create_def)
qed

section \<open>A program that is started with memory enough\<close>

text \<open>What a program is started with: its threads are known and apart, and there is memory for them.\<close>

definition well_started :: "prog_env \<Rightarrow> nat \<Rightarrow> lib \<Rightarrow> bool" where
  "well_started E n s0 \<longleftrightarrow>
     at_start s0 \<and> distinct (main_thread # map (thread_at E) [0..<n]) \<and>
     (\<forall>i<n. thr s0 (thread_at E i) \<noteq> None) \<and> n < room (qnodes s0) \<and> n < room (ctxs s0) \<and>
     0 < room (kths s0) \<and> 0 < room (knodes s0)"

lemma at_start_init [simp]: "at_start (mypthread_init c h k s) = at_start s"
  by (simp add: mypthread_init_def init_kthread_info_def at_start_def runq_iff run_queue_def
      kthread_list_def Let_def)

lemma at_start_cnds [simp]: "at_start (s\<lparr>cnds := C\<rparr>) = at_start s"
  by (simp add: at_start_def)

lemma mypthread_init_keeps [simp]:
  "thr (mypthread_init c h k s) = thr s" "qnodes (mypthread_init c h k s) = qnodes s"
  "ctxs (mypthread_init c h k s) = ctxs s" "kths (mypthread_init c h k s) = kths s"
  "knodes (mypthread_init c h k s) = knodes s" "mtxs (mypthread_init c h k s) = mtxs s"
  "cnds (mypthread_init c h k s) = cnds s"
  "mypthread_policy (mypthread_init c h k s) = k"
  by (simp_all add: mypthread_init_def init_kthread_info_def Let_def)

lemma well_started_init [simp]: "well_started E n (mypthread_init c h k s) = well_started E n s"
  by (simp add: well_started_def)

lemma well_started_mtxs [simp]: "well_started E n (s\<lparr>mtxs := M\<rparr>) = well_started E n s"
  by (simp add: well_started_def)

lemma well_startedD:
  assumes "well_started E n s0"
  shows "at_start s0" and "distinct (main_thread # map (thread_at E) [0..<n])"
    and "\<forall>i<n. thr s0 (thread_at E i) \<noteq> None" and "n < room (qnodes s0)" and "n < room (ctxs s0)"
    and "0 < room (kths s0)" and "0 < room (knodes s0)"
  using assms by (simp_all add: well_started_def)

text \<open>An environment to try programs in.\<close>

definition sample_env :: "string list \<Rightarrow> prog_env" where
  "sample_env args = \<lparr>argv = args, cores = 1, hyper = 1, clones_to = Clone_ok, thread_at = Suc,
     mtx_of = (\<lambda>i. i), cnd_of = (\<lambda>i. i)\<rparr>"

lemma well_started_program: "n < r \<Longrightarrow> n < t \<Longrightarrow> well_started (sample_env args) n (program_start r t)"
  using at_start_program [of t r]
  by (auto simp: well_started_def sample_env_def main_thread_def program_start_def no_cells_def distinct_map)

lemma well_started_sample: "n < 15 \<Longrightarrow> well_started (sample_env args) n (program_start 20 15)"
  by (rule well_started_program) simp_all

lemma atoi_samples: "atoi ''0'' = 0" "atoi ''7'' = 7"
  by code_simp+

lemma mutex_free_same: "mutex_free s m \<Longrightarrow> same_objects s s' \<Longrightarrow> mutex_free s' m"
  by (simp add: mutex_free_def same_objects_def)

lemma distinct_assign:
  assumes "distinct (map g [0..<n])"
  obtains f where "\<forall>i<n. f (g i) = h i"
proof -
  have "inj_on g {0..<n}" using assms by (simp add: distinct_map)
  then have "\<forall>i<n. (h \<circ> inv_into {0..<n} g) (g i) = h i" by (simp add: inv_into_f_f)
  then show ?thesis by (rule that)
qed

lemma fold_same [simp]: "fold (\<lambda>_ d. d) is d = d"
  by (induction "is") simp_all

section \<open>The interface\<close>

text \<open>
  \<open>creating i\<close> sets a mutex up (\<open>set_up i\<close>, on the mutexes that \<open>objects\<close> holds of), notes the thread's
  argument down in the shared data (\<open>note_down i\<close>), and creates thread \<open>i\<close>, which begins in \<open>first i\<close>.
\<close>

locale forking = fork_join tid P n member joining duty gone work fine
  for tid :: int and P :: "('f, 'd) program" and n :: nat and member :: "nat \<Rightarrow> nat"
    and joining :: "nat \<Rightarrow> 'f" and duty :: "nat \<Rightarrow> 'f" and gone :: "nat \<Rightarrow> 'f"
    and work :: "nat \<Rightarrow> 'd \<Rightarrow> 'd" and fine :: "'d \<Rightarrow> lib \<Rightarrow> bool" +
  fixes clone :: clone_result and routine :: "nat \<Rightarrow> nat" and argument :: "nat \<Rightarrow> int"
    and creating :: "nat \<Rightarrow> 'f" and first :: "nat \<Rightarrow> 'f"
    and set_up :: "nat \<Rightarrow> (nat \<rightharpoonup> mypthread_mutex_t) \<Rightarrow> (nat \<rightharpoonup> mypthread_mutex_t)"
    and objects :: "(nat \<rightharpoonup> mypthread_mutex_t) \<Rightarrow> bool" and note_down :: "nat \<Rightarrow> 'd \<Rightarrow> 'd"
  assumes creates: "\<lbrakk>i < n; objects (mtxs s);
      mypthread_create tid clone (member i) (routine i) (argument i) (s\<lparr>mtxs := set_up i (mtxs s)\<rparr>) =
        Inr (Returned 0, s')\<rbrakk> \<Longrightarrow>
      code P tid (creating i) d s = Inr (Calls (Returned 0) (creating (Suc i)), note_down i d, s')"
    and set_up_objects: "i < n \<Longrightarrow> objects M \<Longrightarrow> objects (set_up i M)"
    and starts: "i < n \<Longrightarrow> start_frame P (routine i) (argument i) = first i"
begin

lemma fork_all:
  assumes "at_start s0" and "mypthread_policy s0 = ULONLY" and "objects (mtxs s0)"
    and "distinct (main_thread # map member [0..<n])" and "\<forall>i<n. thr s0 (member i) \<noteq> None"
    and "n \<le> room (qnodes s0)" "n < room (ctxs s0)" "0 < room (kths s0)" "0 < room (knodes s0)"
    and "\<forall>i<n. f (member i) = (routine i, argument i)" and "st main_thread = At (creating 0)"
    and "0 < i" and "i \<le> n"
  shows "\<exists>st' s. reaches tid P (config main_thread st d s0) (config main_thread st' (fold note_down [0..<i] d) s) \<and>
    st' main_thread = At (creating i) \<and>
    forked tid (fresh (kths s0)) f s0 (map member [0..<i]) s \<and> mtxs s = fold set_up [0..<i] (mtxs s0) \<and>
    objects (mtxs s)"
  using assms(12,13)
proof (induction i)
  case (Suc i)
  have known: "thr s0 (member i) \<noteq> None" and fi: "f (member i) = (routine i, argument i)"
    using assms(5,10) Suc.prems(2) by auto
  let ?new = "\<lambda>s. s\<lparr>mtxs := set_up i (mtxs s)\<rparr>"
  have "\<exists>st1 s s'. reaches tid P (config main_thread st d s0) (config main_thread st1 (fold note_down [0..<i] d) s) \<and>
      st1 main_thread = At (creating i) \<and> mtxs s = fold set_up [0..<i] (mtxs s0) \<and> objects (mtxs s) \<and>
      mypthread_create tid clone (member i) (routine i) (argument i) (?new s) = Inr (Returned 0, s') \<and>
      forked tid (fresh (kths s0)) f s0 (map member [0..<Suc i]) s' \<and> mtxs s' = set_up i (mtxs s)"
  proof (cases i)
    case 0
    have m: "member i \<noteq> main_thread"
    proof -
      have "member i \<in> set (map member [0..<n])" using Suc.prems(2) by simp
      with assms(4) show ?thesis by auto
    qed
    obtain s' where "mypthread_create tid clone (member i) (fst (f (member i))) (snd (f (member i))) (?new s0) =
        Inr (Returned 0, s')" "forked tid (fresh (kths (?new s0))) f (?new s0) [member i] s'"
      "mtxs s' = mtxs (?new s0)" "cnds s' = cnds (?new s0)"
      by (rule forked_first [of "?new s0" "member i"]) (use assms(1,2,6-9) Suc.prems known m in auto)
    then show ?thesis
      using assms(3,11) fi 0 by (intro exI [of _ st] exI [of _ s0] exI [of _ s']) simp
  next
    case (Suc k)
    then have i: "0 < i" "i \<le> n" "i < n" using Suc.prems(2) by simp_all
    obtain st1 s where s: "reaches tid P (config main_thread st d s0) (config main_thread st1 (fold note_down [0..<i] d) s)"
      "st1 main_thread = At (creating i)"
      "forked tid (fresh (kths s0)) f s0 (map member [0..<i]) s" "mtxs s = fold set_up [0..<i] (mtxs s0)"
      "objects (mtxs s)"
      using Suc.IH [OF i(1,2)] by blast
    have "distinct (main_thread # map member [0..<i] @ [member i])"
    proof -
      have "[0..<n] = [0..<i] @ i # [Suc i..<n]"
        using i upt_add_eq_append [of 0 i "n - i"] by (simp add: upt_conv_Cons)
      with assms(4) show ?thesis by simp
    qed
    then have new: "member i \<notin> set (main_thread # map member [0..<i])" by auto
    have f1: "forked tid (fresh (kths s0)) f s0 (map member [0..<i]) (?new s)" using s(3) by simp
    obtain s' where "mypthread_create tid clone (member i) (fst (f (member i))) (snd (f (member i))) (?new s) =
        Inr (Returned 0, s')" "forked tid (fresh (kths s0)) f s0 (map member [0..<i] @ [member i]) s'"
      "mtxs s' = mtxs (?new s)" "cnds s' = cnds (?new s)"
      by (rule forked_create [OF f1 new known]) (use i assms(6,7) in simp_all)
    then show ?thesis
      using s fi by (intro exI [of _ st1] exI [of _ s] exI [of _ s']) simp
  qed
  then obtain st1 s s' where *: "reaches tid P (config main_thread st d s0) (config main_thread st1 (fold note_down [0..<i] d) s)"
    "st1 main_thread = At (creating i)" "mtxs s = fold set_up [0..<i] (mtxs s0)" "objects (mtxs s)"
    "mypthread_create tid clone (member i) (routine i) (argument i) (?new s) = Inr (Returned 0, s')"
    "forked tid (fresh (kths s0)) f s0 (map member [0..<Suc i]) s'" "mtxs s' = set_up i (mtxs s)" by blast
  have i: "i < n" using Suc.prems(2) by simp
  have "machine_step tid P (config main_thread st1 (fold note_down [0..<i] d) s) =
      Inr (Runs (config main_thread (st1(main_thread := At (creating (Suc i)))) (fold note_down [0..<Suc i] d) s'))"
    using creates [OF i *(4,5)] *(2) by (simp add: machine_step_def)
  from reaches_trans [OF *(1) reaches_step [OF this]] show ?case
    using * set_up_objects [OF i *(4)]
    by (intro exI [of _ "st1(main_thread := At (creating (Suc i)))"] exI [of _ s'])
      (simp del: fun_upd_apply, simp)
qed simp

text \<open>After all creations the threads wait for the processor at the beginning of their routines.\<close>

lemma forked_ready:
  assumes "forked tid kth f s0 (waiting_from 0) s" and "\<forall>i<n. f (member i) = (routine i, argument i)"
  shows "coop tid kth s main_thread (waiting_from 0)" and "crew_of s"
    and "\<forall>i<n. active (thr s) (Some (member i)) \<and> ready P st s (member i) (first i)"
  using assms starts by (auto simp: forked_def numbered_def ready_def)

text \<open>
  The whole of such a program: all threads are created, and all have worked and exited when the main
  thread is behind its last join.
\<close>

lemma forks_and_joins:
  assumes st: "at_start s0" "mypthread_policy s0 = ULONLY" "objects (mtxs s0)"
    and mem: "distinct (main_thread # map member [0..<n])" "\<forall>i<n. thr s0 (member i) \<noteq> None"
    and room: "n < room (qnodes s0)" "n < room (ctxs s0)" "0 < room (kths s0)" "0 < room (knodes s0)"
    and n: "0 < n" and main: "st main_thread = At (creating 0)"
    and turn: "\<And>d s. code P tid (creating n) d s = Inr (Calls (Returned 0) (joining 0), d, s)"
    and first: "first = duty" and fine: "\<And>s. mtxs s = fold set_up [0..<n] (mtxs s0) \<Longrightarrow> fine (fold note_down [0..<n] d) s"
  shows "\<exists>st' s. reaches tid P (config main_thread st d s0) (config main_thread st' (fold work [0..<n] (fold note_down [0..<n] d)) s) \<and>
    st' main_thread = At (joining n) \<and> coop tid (fresh (kths s0)) s main_thread [] \<and>
    mtxs s = fold set_up [0..<n] (mtxs s0)"
proof -
  have dm: "distinct (map member [0..<n])" using mem(1) by simp
  obtain f where f: "\<forall>i<n. f (member i) = (routine i, argument i)"
    by (rule distinct_assign [OF dm that])
  have "n \<le> room (qnodes s0)" using room(1) by simp
  from fork_all [where st = st and d = d and i = n, OF st mem this room(2-4) f main n le_refl]
  obtain st1 s1 where 1:
    "reaches tid P (config main_thread st d s0) (config main_thread st1 (fold note_down [0..<n] d) s1)"
    "st1 main_thread = At (creating n)" "forked tid (fresh (kths s0)) f s0 (waiting_from 0) s1"
    "mtxs s1 = fold set_up [0..<n] (mtxs s0)" by blast
  note rdy = forked_ready [OF 1(3) f]
  let ?st = "st1(main_thread := At (joining 0))"
  have r: "reaches tid P (config main_thread st1 (fold note_down [0..<n] d) s1) (config main_thread ?st (fold note_down [0..<n] d) s1)"
    by (rule reaches_step) (simp add: machine_step_def 1(2) turn)
  have us: "\<forall>j\<in>{0..<n}. active (thr s1) (Some (member j)) \<and> ready P ?st s1 (member j) (duty j)"
  proof
    fix j assume j: "j \<in> {0..<n}"
    then have "active (thr s1) (Some (member j))"
      "ctx_of s1 (member j) = Some (Ctx_start (routine j) (argument j))"
      using 1(3) f by (auto simp: forked_def)
    with j starts [of j] first show "active (thr s1) (Some (member j)) \<and> ready P ?st s1 (member j) (duty j)"
      by (simp add: ready_def)
  qed
  have rm: "0 < room (qnodes s1)" using 1(3) room(1) by (simp add: forked_def)
  from join_all [where i = 0 and st = ?st, OF _ rdy(1,2) us _ fine [OF 1(4)] rm] obtain st2 s2 where 2:
    "reaches tid P (config main_thread ?st (fold note_down [0..<n] d) s1) (config main_thread st2 (fold work [0..<n] (fold note_down [0..<n] d)) s2)"
    "st2 main_thread = At (joining n)" "coop tid (fresh (kths s0)) s2 main_thread []" "keeps s1 s2"
    by auto
  have "mtxs s2 = mtxs s1" using 2(4) by (simp add: keeps_def same_objects_def)
  then show ?thesis using reaches_trans [OF reaches_trans [OF 1(1) r] 2(1)] 2(2,3) 1(4) by auto
qed

end

text \<open>The main thread exits last: the call returns.\<close>

lemma main_exits:
  assumes co: "coop tid kth s main_thread []" and st: "st main_thread = At f"
    and f: "code P tid f d s = bind_res (mypthread_exit tid s) (\<lambda>(out, s'). Inr (Calls out g, d, s'))"
    and g: "\<And>s'. code P tid g d s' = Inr (Ends v, d, s')"
  shows "\<exists>s'. ends tid P \<lparr>running = main_thread, stacks = st, shared = d, library = s\<rparr> v d s' \<and>
    mypthread_count s' = 0"
proof -
  obtain tc p where tc: "thr s main_thread = Some tc" "th_ctx tc = Some p" using coop_cur [OF co] by metis
  let ?s' = "exited s main_thread tc p []"
  let ?M = "\<lparr>running = main_thread, stacks = st(main_thread := At g), shared = d, library = ?s'\<rparr>"
  have "reaches tid P \<lparr>running = main_thread, stacks = st, shared = d, library = s\<rparr> ?M"
    by (rule reaches_step) (simp add: machine_step_def st f exit_last [OF co tc])
  moreover have "ends tid P ?M v d ?s'" by (rule ends_step) (simp add: machine_step_def g)
  ultimately show ?thesis using coopD(3) [OF co] by (auto intro!: exI [of _ ?s'] elim: reaches_ends)
qed

context forking
begin

text \<open>From the start of \<open>main\<close> in \<open>f0\<close> to the end of the process, when \<open>main\<close> exits last.\<close>

lemma program_run:
  assumes st: "at_start s0" "mypthread_policy s0 = ULONLY" "objects (mtxs s0)"
    and mem: "distinct (main_thread # map member [0..<n])" "\<forall>i<n. thr s0 (member i) \<noteq> None"
    and room: "n < room (qnodes s0)" "n < room (ctxs s0)" "0 < room (kths s0)" "0 < room (knodes s0)"
    and n: "0 < n" and start: "code P tid f0 d s = Inr (Calls (Returned 0) (creating 0), d, s0)"
    and turn: "\<And>d s. code P tid (creating n) d s = Inr (Calls (Returned 0) (joining 0), d, s)"
    and first: "first = duty" and fine: "\<And>s. mtxs s = fold set_up [0..<n] (mtxs s0) \<Longrightarrow> fine (fold note_down [0..<n] d) s"
    and exit: "\<And>d s. code P tid (joining n) d s =
        bind_res (mypthread_exit tid s) (\<lambda>(out, s'). Inr (Calls out g, d, s'))"
    and final: "\<And>d s. code P tid g d s = Inr (Ends v, d, s)"
  shows "\<exists>s'. ends tid P (boot f0 d s) v (fold work [0..<n] (fold note_down [0..<n] d)) s' \<and> mypthread_count s' = 0"
proof -
  let ?st = "(\<lambda>_. At f0)(main_thread := At (creating 0))"
  have r: "reaches tid P (boot f0 d s) (config main_thread ?st d s0)"
    by (rule reaches_step) (simp add: machine_step_def boot_def start)
  have main: "?st main_thread = At (creating 0)" by simp
  from forks_and_joins [where st = ?st and d = d, OF st mem room n main turn first fine]
  obtain st' s1 where 1: "reaches tid P (config main_thread ?st d s0)
      (config main_thread st' (fold work [0..<n] (fold note_down [0..<n] d)) s1)"
    "st' main_thread = At (joining n)" "coop tid (fresh (kths s0)) s1 main_thread []" by blast
  from main_exits [where P = P and st = st' and f = "joining n" and g = g and d = "fold work [0..<n] (fold note_down [0..<n] d)" and s = s1 and v = v, OF 1(3,2) exit final] obtain s' where
    "ends tid P (config main_thread st' (fold work [0..<n] (fold note_down [0..<n] d)) s1) v (fold work [0..<n] (fold note_down [0..<n] d)) s'"
    "mypthread_count s' = 0" by auto
  then show ?thesis using reaches_ends [OF reaches_trans [OF r 1(1)]] by blast
qed

end

end
