(* ===== verification/Mtsort_Main.thy ===== *)
theory Mtsort_Main
  imports Mtsort Fork_Start
begin

text \<open>
  \<open>pthreads/mtsort.c\<close> as a program: \<open>main\<close> with its creations and joins around the threads of \<open>Mtsort\<close>.
  Thread \<open>i\<close> sorts the pair \<open>i\<close>, the last one checks. The arguments \<open>main\<close> fills in are a list in the
  shared data; the arrays it allocates are the addresses of the environment.
\<close>

section \<open>The program\<close>

datatype mtsort_frame =
    Mt_main | Mt_create nat nat | Mt_join nat nat
  | Mt_enter bool int | Mt_sort pthrarg | Mt_check pthrarg | Mt_end

type_synonym mtsort_data = "pthrarg list \<times> sorter"

fun destroy_all :: "nat \<Rightarrow> nat \<Rightarrow> lib \<Rightarrow> lib res" where
  "destroy_all mtx 0 s = Inr s"
| "destroy_all mtx (Suc n) s =
     bind_res (mypthread_mutex_destroy mtx s) (\<lambda>(_, s1). destroy_all (Suc mtx) n s1)"

definition mtsort_size :: "prog_env \<Rightarrow> nat" where
  "mtsort_size E = nat (list_size (if length (argv E) = 3 then Some (argv E ! 2) else None))"

text \<open>
  \<open>Mt_create n i\<close>: \<open>main\<close> before it creates thread \<open>i\<close>; \<open>Mt_join n i\<close>: before it joins thread \<open>i\<close>.
\<close>

definition mtsort_start :: "prog_env \<Rightarrow> mtsort_data \<Rightarrow> lib \<Rightarrow> (mtsort_frame move \<times> mtsort_data \<times> lib) res" where
  "mtsort_start E d s =
     (if length (argv E) < 2 then Inr (Ends 0, d, s)
      else
        let s1 = mypthread_init (cores E) (hyper E) (atoi (argv E ! 1)) s;
            n = mtsort_size E
        in bind_res (mypthread_mutex_init (mtx_of E 0) s1) (\<lambda>(_, s2).
           Inr (Calls (Returned 0) (Mt_create n 0), (fst d, (snd d)\<lparr>nums := initial_list n\<rparr>), s2)))"

definition mtsort_create ::
  "prog_env \<Rightarrow> int \<Rightarrow> nat \<Rightarrow> nat \<Rightarrow> mtsort_data \<Rightarrow> lib \<Rightarrow> (mtsort_frame move \<times> mtsort_data \<times> lib) res" where
  "mtsort_create E tid n i d s =
     (let m = mtx_of E 0
      in if i < n - 1 then
           bind_res (mypthread_mutex_init (Suc (m + i)) s) (\<lambda>(_, s1).
           create_or 1 E tid i 1 (Mt_create n (Suc i)) (fst d @ [sort_arg n m i], snd d) s1)
         else if i = n - 1 then
           create_or 1 E tid i 2 (Mt_create n n) (fst d @ [check_arg n m], snd d) s
         else Inr (Calls (Returned 0) (Mt_join n 0), d, s))"

definition mtsort_join ::
  "prog_env \<Rightarrow> int \<Rightarrow> nat \<Rightarrow> nat \<Rightarrow> mtsort_data \<Rightarrow> lib \<Rightarrow> (mtsort_frame move \<times> mtsort_data \<times> lib) res" where
  "mtsort_join E tid n i d s =
     (if i < n then calls (join_thread E tid i s) (Mt_join n (Suc i)) d
      else bind_res (destroy_all (mtx_of E 0) n s) (\<lambda>s1. Inr (Ends 0, d, s1)))"

text \<open>
  The threads: each loads its argument, passes through its loop, and calls \<open>mypthread_exit\<close> when
  \<open>quitting\<close> is set. Behind that call it would return from its start routine.
\<close>

fun mtsort_code ::
  "prog_env \<Rightarrow> int \<Rightarrow> mtsort_frame \<Rightarrow> mtsort_data \<Rightarrow> lib \<Rightarrow> (mtsort_frame move \<times> mtsort_data \<times> lib) res" where
  "mtsort_code E tid Mt_main d s = mtsort_start E d s"
| "mtsort_code E tid (Mt_create n i) d s = mtsort_create E tid n i d s"
| "mtsort_code E tid (Mt_join n i) d s = mtsort_join E tid n i d s"
| "mtsort_code E tid (Mt_enter sorts a) d s =
     (if nat a < length (fst d)
      then Inr (Calls (Returned 0) (if sorts then Mt_sort (fst d ! nat a) else Mt_check (fst d ! nat a)), d, s)
      else Inl Dangling)"
| "mtsort_code E tid (Mt_sort a) d s =
     bind_res (fnsort tid a (snd d) s) (\<lambda>(out, st, s1).
     Inr (Calls out (if quitting (snd d) then Mt_end else Mt_sort a), (fst d, st), s1))"
| "mtsort_code E tid (Mt_check a) d s =
     bind_res (fncheck tid a (snd d) s) (\<lambda>(out, st, s1).
     Inr (Calls out (if quitting (snd d) then Mt_end else Mt_check a), (fst d, st), s1))"
| "mtsort_code E tid Mt_end d s = Inl Undefined"

definition mtsort :: "prog_env \<Rightarrow> (mtsort_frame, mtsort_data) program" where
  "mtsort E = \<lparr>start_frame = (\<lambda>r. Mt_enter (r = 1)), code = mtsort_code E\<rparr>"

section \<open>The program as an instance of the interface\<close>

definition arg_of :: "prog_env \<Rightarrow> nat \<Rightarrow> nat \<Rightarrow> pthrarg" where
  "arg_of E n i = (if i < n - 1 then sort_arg n (mtx_of E 0) i else check_arg n (mtx_of E 0))"

definition at_work :: "prog_env \<Rightarrow> nat \<Rightarrow> nat \<Rightarrow> mtsort_frame" where
  "at_work E n i = (if i < n - 1 then Mt_sort (arg_of E n i) else Mt_check (arg_of E n i))"

abbreviation free_mutex :: mypthread_mutex_t where
  "free_mutex \<equiv> \<lparr>mtx_lock = False, blocked_q_head = None, blocked_q_tail = None\<rparr>"

text \<open>The mutexes after the creation of thread \<open>i\<close>.\<close>

definition init_next :: "prog_env \<Rightarrow> nat \<Rightarrow> nat \<Rightarrow> (nat \<rightharpoonup> mypthread_mutex_t) \<Rightarrow> (nat \<rightharpoonup> mypthread_mutex_t)" where
  "init_next E n i M = (if i < n - 1 then M(Suc (mtx_of E 0 + i) \<mapsto> free_mutex) else M)"

interpretation mt: forking tid "mtsort E" n "thread_at E" "Mt_join n" "at_work E n" "\<lambda>_. Mt_end"
    "\<lambda>_ d. d" "\<lambda>d _. quitting (snd d)" "clones_to E" "\<lambda>i. if i < n - 1 then 1 else 2" int "Mt_create n"
    "\<lambda>i. Mt_enter (i < n - 1) (int i)" "init_next E n"
    "\<lambda>M. \<forall>i<n. M (mtx_of E 0 + i) \<noteq> None" "\<lambda>i d. (fst d @ [arg_of E n i], snd d)" for tid E n
proof (unfold_locales, goal_cases)
  case (1 i d s)
  then show ?case by (simp add: mtsort_def mtsort_join_def calls_def join_thread_def bind_res_assoc)
next
  case (2 i s d)
  then show ?case
    by (cases d) (auto simp: mtsort_def at_work_def fnsort_def fncheck_def bind_res_assoc intro!: bind_res_cong)
next
  case (5 i s s' d)
  have m: "i < n - 1 \<Longrightarrow> mtxs s (Suc (mtx_of E 0 + i)) \<noteq> None"
    using 5(2) by (metis add_Suc_right less_diff_conv Suc_eq_plus1)
  show ?case
  proof (cases "i < n - 1")
    case True
    with m obtain x where "mtxs s (Suc (mtx_of E 0 + i)) = Some x" by auto
    with 5 True show ?thesis
      by (simp add: mtsort_def mtsort_create_def mypthread_mutex_init_def load_mtx_def create_or_def
          init_next_def arg_of_def)
  next
    case False
    with 5(1) have "i = n - 1" "Suc i = n" by auto
    with 5 show ?thesis
      by (simp add: mtsort_def mtsort_create_def create_or_def init_next_def arg_of_def)
  qed
next
  case (6 i M)
  then show ?case by (auto simp: init_next_def)
qed (auto simp: mtsort_def)

end
