(* ===== verification/Mtsort_Run.thy ===== *)
theory Mtsort_Run
  imports Mtsort_Main
begin

text \<open>
  The run of \<open>pthreads/mtsort.c\<close>: while the main thread waits in its first join the other threads pass
  in turn, round after round, until the checking thread finds the list sorted.
\<close>

section \<open>The ring of threads\<close>

text \<open>
  The run queue while thread \<open>j\<close> runs. The waiting main thread stands behind the threads of the first
  round (\<open>b\<close> false), and from the second round on at the front, where it is passed over.
\<close>

definition sort_ring :: "prog_env \<Rightarrow> nat \<Rightarrow> bool \<Rightarrow> nat \<Rightarrow> nat list" where
  "sort_ring E n b j =
     (if b then main_thread # map (thread_at E) ([Suc j..<n] @ [0..<j])
      else map (thread_at E) [Suc j..<n] @ main_thread # map (thread_at E) [0..<j])"

definition next_of :: "nat \<Rightarrow> nat \<Rightarrow> nat" where
  "next_of n j = (if Suc j < n then Suc j else 0)"

lemma ring_split:
  assumes "j < n" and "2 \<le> n"
  obtains as bs where "sort_ring E n b j = as @ thread_at E (next_of n j) # bs" "set as \<subseteq> {main_thread}"
    "as @ bs @ [thread_at E j] = sort_ring E n (b \<or> Suc j = n) (next_of n j)"
proof (cases "Suc j < n")
  case True
  then have up: "[Suc j..<n] = Suc j # [Suc (Suc j)..<n]" by (simp add: upt_conv_Cons)
  show ?thesis
    by (rule that [of "if b then [main_thread] else []"
        "if b then map (thread_at E) ([Suc (Suc j)..<n] @ [0..<j])
         else map (thread_at E) [Suc (Suc j)..<n] @ main_thread # map (thread_at E) [0..<j]"])
      (use True in \<open>auto simp: sort_ring_def next_of_def up\<close>)
next
  case False
  with assms have j: "Suc j = n" "0 < j" by simp_all
  then have up: "[0..<j] = 0 # [Suc 0..<j]" by (simp add: upt_conv_Cons)
  have up': "[Suc 0..<n] = [Suc 0..<j] @ [j]" using j by (metis Suc_leI upt_Suc_append)
  show ?thesis
    by (rule that [of "[main_thread]" "map (thread_at E) [Suc 0..<j]"])
      (use j False up' in \<open>auto simp: sort_ring_def next_of_def up\<close>)
qed

text \<open>
  Thread \<open>j\<close> runs, the others are active and stand in their loops or, in the first round, before
  them; the main thread waits for thread 0 to go on with its second join. All mutexes are free.
\<close>

definition sorting ::
  "int \<Rightarrow> nat \<Rightarrow> prog_env \<Rightarrow> nat \<Rightarrow> bool \<Rightarrow> nat \<Rightarrow> (nat \<Rightarrow> mtsort_frame place) \<Rightarrow> lib \<Rightarrow> bool" where
  "sorting tid kth E n b j st s \<longleftrightarrow>
     j < n \<and> coop tid kth s (thread_at E j) (sort_ring E n b j) \<and>
     crew s (main_thread # map (thread_at E) [0..<n]) \<and>
     \<not> active (thr s) (Some main_thread) \<and>
     dependent_th (the (thr s main_thread)) = th_id (the (thr s (thread_at E 0))) \<and>
     (\<forall>i<n. i \<noteq> j \<longrightarrow> active (thr s) (Some (thread_at E i)) \<and>
        ready (mtsort E) st s (thread_at E i)
          (if b \<or> i < j then at_work E n i else Mt_enter (i < n - 1) (int i))) \<and>
     st (thread_at E j) = At (if b then at_work E n j else Mt_enter (j < n - 1) (int j)) \<and>
     ready (mtsort E) st s main_thread (Mt_join n 1) \<and>
     (\<forall>i<n. mutex_free s (mtx_of E 0 + i)) \<and> 0 < room (qnodes s)"

lemma crew_apart:
  assumes "crew s (main_thread # map (thread_at E) [0..<n])" and "i < n"
  shows "thread_at E i \<noteq> main_thread" and "j < n \<Longrightarrow> thread_at E i = thread_at E j \<longleftrightarrow> i = j"
proof -
  have d: "distinct (main_thread # map (thread_at E) [0..<n])" using assms(1) by (simp add: crew_def)
  have "thread_at E i \<in> set (map (thread_at E) [0..<n])" using assms(2) by simp
  with d show "thread_at E i \<noteq> main_thread" by (metis distinct.simps(2))
  have "inj_on (thread_at E) {0..<n}" using d by (simp add: distinct_map)
  then show "thread_at E i = thread_at E j \<longleftrightarrow> i = j" if "j < n"
    using that assms(2) by (auto dest: inj_onD)
qed

text \<open>The yield at the end of a pass gives the processor to the next thread of the ring.\<close>

lemma sorting_yield:
  assumes so: "sorting tid kth E n b j st s" and n: "2 \<le> n"
  obtains c s' q where
    "mypthread_yield tid s = Inr (Switched (thread_at E (next_of n j)) c, s')"
    "resumed (mtsort E) c (st (thread_at E (next_of n j))) = Inr q"
    "sorting tid kth E n (b \<or> Suc j = n) (next_of n j)
       (st(thread_at E j := At (at_work E n j), thread_at E (next_of n j) := q)) s'"
proof -
  let ?u = "thread_at E" and ?k = "next_of n j" and ?b = "b \<or> Suc j = n"
  from so have j: "j < n" and co: "coop tid kth s (?u j) (sort_ring E n b j)"
    and cr: "crew s (main_thread # map ?u [0..<n])" and nm: "\<not> active (thr s) (Some main_thread)"
    and dep: "dependent_th (the (thr s main_thread)) = th_id (the (thr s (?u 0)))"
    and room: "0 < room (qnodes s)" by (simp_all add: sorting_def)
  have k: "?k < n" "?k \<noteq> j" using j n by (auto simp: next_of_def)
  note ap = crew_apart [OF cr]
  obtain as bs where sp: "sort_ring E n b j = as @ ?u ?k # bs" "set as \<subseteq> {main_thread}"
    "as @ bs @ [?u j] = sort_ring E n ?b ?k" by (rule ring_split [OF j n])
  have na: "\<forall>y\<in>set as. \<not> active (thr s) (Some y)" using sp(2) nm by auto
  have act: "active (thr s) (Some (?u ?k))" using so k by (simp add: sorting_def)
  obtain tc where tc: "thr s (?u j) = Some tc" using coop_cur [OF co] by metis
  obtain c s' where s': "mypthread_yield tid s = Inr (Switched (?u ?k) c, s')"
    "coop tid kth s' (?u ?k) (as @ bs @ [?u j])"
    "thr s' = (thr s)(?u j \<mapsto> tc\<lparr>th_state := PS_ACTIVE\<rparr>)" "room (qnodes s') = room (qnodes s)"
    "ctx_of s (?u ?k) = Some c" "ctx_of s' (?u j) = Some (Ctx_saved Resume_yield)"
    "\<forall>y\<in>set (sort_ring E n b j). ctx_of s' y = ctx_of s y" "same_objects s s'"
    by (rule yield_switch [OF co room sp(1) na act tc])
  have ids: "same_ids s s'" by (rule same_ids_upd [OF tc _ s'(3)]) simp
  let ?f = "if b \<or> ?k < j then at_work E n ?k else Mt_enter (?k < n - 1) (int ?k)"
  have q: "resumed (mtsort E) c (st (?u ?k)) = Inr (At ?f)"
    using so k s'(5) by (auto simp: sorting_def ready_def)
  have fk: "?f = (if ?b then at_work E n ?k else Mt_enter (?k < n - 1) (int ?k))"
    using j n by (auto simp: next_of_def)
  let ?st = "st(?u j := At (at_work E n j), ?u ?k := At ?f)"
  have in_ring: "?u i \<in> set (sort_ring E n b j)" if "i < n" "i \<noteq> j" for i
    using that by (cases "i < j") (auto simp: sort_ring_def)
  have main_in: "main_thread \<in> set (sort_ring E n b j)" by (simp add: sort_ring_def)
  have "sorting tid kth E n ?b ?k ?st s'"
    unfolding sorting_def
  proof (intro conjI allI impI)
    show "crew s' (main_thread # map ?u [0..<n])" by (rule crew_same_ids [OF cr ids])
    show "\<not> active (thr s') (Some main_thread)" using nm s'(3) ap(1) [OF j] by (simp add: active_def)
    show "dependent_th (the (thr s' main_thread)) = th_id (the (thr s' (?u 0)))"
      using dep s'(3) ap(1) [OF j] tc by simp
    show "ready (mtsort E) ?st s' main_thread (Mt_join n 1)"
      using so s'(7) main_in ap(1) [OF j] ap(1) [OF k(1)] by (auto simp: sorting_def ready_def)
    show "mutex_free s' (mtx_of E 0 + i)" if "i < n" for i
      using so that by (auto simp: sorting_def intro: mutex_free_same [OF _ s'(8)])
    show "?st (?u ?k) = At (if ?b then at_work E n ?k else Mt_enter (?k < n - 1) (int ?k))"
      unfolding fk [symmetric] by simp
    fix i assume i: "i < n" "i \<noteq> ?k"
    show "active (thr s') (Some (?u i))"
      using so s'(3) i ap(2) [OF i(1) j] by (auto simp: sorting_def active_def)
    show "ready (mtsort E) ?st s' (?u i) (if ?b \<or> i < ?k then at_work E n i else Mt_enter (i < n - 1) (int i))"
    proof (cases "i = j")
      case True
      then show ?thesis
        using s'(6) ap(2) [OF i(1) k(1)] i j by (auto simp: ready_def next_of_def)
    next
      case False
      have "ready (mtsort E) st s (?u i) (if b \<or> i < j then at_work E n i else Mt_enter (i < n - 1) (int i))"
        using so i False by (simp add: sorting_def)
      moreover have "(b \<or> i < j) = (?b \<or> i < ?k)"
        using i False j by (auto simp: next_of_def)
      ultimately show ?thesis
        using s'(7) in_ring [OF i(1) False] ap(2) [OF i(1) j] ap(2) [OF i(1) k(1)] False i
        by (simp add: ready_def)
    qed
  qed (use k s'(2,4) sp(3) room in simp_all)
  with s'(1) q show ?thesis by (rule that)
qed

section \<open>Passes and rounds\<close>

definition mt_args :: "prog_env \<Rightarrow> nat \<Rightarrow> pthrarg list" where
  "mt_args E n = map (arg_of E n) [0..<n]"

text \<open>What the pass of thread \<open>j\<close> does to the shared data.\<close>

definition pass_effect :: "nat \<Rightarrow> nat \<Rightarrow> sorter \<Rightarrow> sorter res" where
  "pass_effect n j sr =
     (if j < n - 1 then bind_res (order_pair j (nums sr)) (\<lambda>xs. Inr (sr\<lparr>nums := xs\<rparr>))
      else Inr (sr\<lparr>quitting := sorted (nums sr)\<rparr>))"

lemma at_work_pass:
  assumes "sems_free s" and "\<forall>i<n. mutex_free s (mtx_of E 0 + i)" and "j < n" and "2 \<le> n"
    and "length (nums sr) = n" and "\<not> quitting sr" and "pass_effect n j sr = Inr sr'"
  shows "code (mtsort E) tid (at_work E n j) (args, sr) s =
    bind_res (mypthread_yield tid s) (\<lambda>(out, s'). Inr (Calls out (at_work E n j), (args, sr'), s'))"
proof (cases "j < n - 1")
  case True
  then obtain xs where xs: "order_pair j (nums sr) = Inr xs" "sr' = sr\<lparr>nums := xs\<rparr>"
    using assms(7) by (auto simp: pass_effect_def bind_res_Inr_iff)
  have "mutex_free s (mtx_of E 0 + j)" "mutex_free s (mtx_of E 0 + Suc j)"
    using assms(2) True by (metis less_diff_conv Suc_eq_plus1 Suc_lessD)+
  with True xs assms(1,6) show ?thesis
    by (simp add: mtsort_def at_work_def arg_of_def fnsort_def fnsort_pass_eq sort_arg_def bind_res_assoc
        case_prod_unfold)
next
  case False
  have "nums sr \<noteq> []" using assms(4,5) by auto
  with False assms(1,2,5-7) check_loop_all [of "nums sr"] show ?thesis
    by (simp add: mtsort_def at_work_def arg_of_def fncheck_def fncheck_pass_eq check_arg_def
        bind_res_assoc pass_effect_def case_prod_unfold)
qed

lemma sorting_pass:
  assumes so: "sorting tid kth E n b j st s" and n: "2 \<le> n" and len: "length (nums sr) = n"
    and q: "\<not> quitting sr" and pe: "pass_effect n j sr = Inr sr'"
  obtains st' s' where
    "reaches tid (mtsort E) (config (thread_at E j) st (mt_args E n, sr) s)
       (config (thread_at E (next_of n j)) st' (mt_args E n, sr') s')"
    "sorting tid kth E n (b \<or> Suc j = n) (next_of n j) st' s'"
proof -
  let ?u = "thread_at E" and ?d = "(mt_args E n, sr)"
  let ?stj = "st(?u j := At (at_work E n j))"
  have j: "j < n" and co: "coop tid kth s (?u j) (sort_ring E n b j)"
    and st: "st (?u j) = At (if b then at_work E n j else Mt_enter (j < n - 1) (int j))"
    and mu: "\<forall>i<n. mutex_free s (mtx_of E 0 + i)" and cr: "crew s (main_thread # map ?u [0..<n])"
    using so by (simp_all add: sorting_def)
  have enter: "reaches tid (mtsort E) (config (?u j) st ?d s) (config (?u j) ?stj ?d s)"
  proof (cases b)
    case True
    then have "?stj = st" using st by (simp add: fun_upd_idem)
    then show ?thesis by simp
  next
    case False
    then show ?thesis
      using st j by (intro reaches_step) (simp add: machine_step_def mtsort_def mt_args_def at_work_def)
  qed
  obtain c s' p where y: "mypthread_yield tid s = Inr (Switched (?u (next_of n j)) c, s')"
    "resumed (mtsort E) c (st (?u (next_of n j))) = Inr p"
    "sorting tid kth E n (b \<or> Suc j = n) (next_of n j) (st(?u j := At (at_work E n j), ?u (next_of n j) := p)) s'"
    by (rule sorting_yield [OF so n])
  have "next_of n j < n" "next_of n j \<noteq> j" using j n by (auto simp: next_of_def)
  then have ne: "?u (next_of n j) \<noteq> ?u j" using crew_apart(2) [OF cr _ j] by auto
  have "reaches tid (mtsort E) (config (?u j) ?stj ?d s) (config (?u (next_of n j))
      (st(?u j := At (at_work E n j), ?u (next_of n j) := p)) (mt_args E n, sr') s')"
    using at_work_pass [OF coopD(2) [OF co] mu j n len q pe] y(1,2) ne
    by (intro reaches_step) (simp add: machine_step_def Let_def)
  with enter y(3) show ?thesis by (intro that) (rule reaches_trans)
qed

text \<open>The first \<open>j\<close> passes of a round.\<close>

lemma sorting_passes:
  assumes "sorting tid kth E n b 0 st s" and "2 \<le> n" and "length xs = n" and "j \<le> n - 1"
  shows "\<exists>ys st' s'. run_passes [0..<j] xs = Inr ys \<and> length ys = n \<and>
    reaches tid (mtsort E) (config (thread_at E 0) st (mt_args E n, \<lparr>nums = xs, quitting = False\<rparr>) s)
      (config (thread_at E j) st' (mt_args E n, \<lparr>nums = ys, quitting = False\<rparr>) s') \<and>
    sorting tid kth E n b j st' s'"
  using assms(4)
proof (induction j)
  case 0
  then show ?case using assms(1,3) by (auto intro!: exI [of _ st] exI [of _ s])
next
  case (Suc j)
  then obtain ys st1 s1 where 1: "run_passes [0..<j] xs = Inr ys" "length ys = n"
    "reaches tid (mtsort E) (config (thread_at E 0) st (mt_args E n, \<lparr>nums = xs, quitting = False\<rparr>) s)
      (config (thread_at E j) st1 (mt_args E n, \<lparr>nums = ys, quitting = False\<rparr>) s1)"
    "sorting tid kth E n b j st1 s1" by auto
  have "Suc j < length ys" using Suc.prems 1(2) assms(2) by simp
  then obtain zs where z: "order_pair j ys = Inr zs" by (simp add: order_pair_def)
  have k: "next_of n j = Suc j" "Suc j \<noteq> n" using Suc.prems assms(2) by (auto simp: next_of_def)
  have l: "length (nums \<lparr>nums = ys, quitting = False\<rparr>) = n"
    and nq: "\<not> quitting \<lparr>nums = ys, quitting = False\<rparr>"
    and pe: "pass_effect n j \<lparr>nums = ys, quitting = False\<rparr> = Inr \<lparr>nums = zs, quitting = False\<rparr>"
    using 1(2) z Suc.prems assms(2) by (simp_all add: pass_effect_def)
  obtain st2 s2 where "reaches tid (mtsort E)
      (config (thread_at E j) st1 (mt_args E n, \<lparr>nums = ys, quitting = False\<rparr>) s1)
      (config (thread_at E (next_of n j)) st2 (mt_args E n, \<lparr>nums = zs, quitting = False\<rparr>) s2)"
    "sorting tid kth E n (b \<or> Suc j = n) (next_of n j) st2 s2"
    by (rule sorting_pass [OF 1(4) assms(2) l nq pe])
  with reaches_trans [OF 1(3)] k 1(1) z order_pair_length [OF z] 1(2) show ?case
    by (auto simp: run_passes_append)
qed

text \<open>A round: all sorting threads and the checking thread.\<close>

lemma sorting_round:
  assumes so: "sorting tid kth E n b 0 st s" and n: "2 \<le> n" and len: "length xs = n"
  obtains ys st' s' where "run_passes [0..<n - 1] xs = Inr ys" "length ys = n"
    "reaches tid (mtsort E) (config (thread_at E 0) st (mt_args E n, \<lparr>nums = xs, quitting = False\<rparr>) s)
      (config (thread_at E 0) st' (mt_args E n, \<lparr>nums = ys, quitting = sorted ys\<rparr>) s')"
    "sorting tid kth E n True 0 st' s'"
proof -
  obtain ys st1 s1 where 1: "run_passes [0..<n - 1] xs = Inr ys" "length ys = n"
    "reaches tid (mtsort E) (config (thread_at E 0) st (mt_args E n, \<lparr>nums = xs, quitting = False\<rparr>) s)
      (config (thread_at E (n - 1)) st1 (mt_args E n, \<lparr>nums = ys, quitting = False\<rparr>) s1)"
    "sorting tid kth E n b (n - 1) st1 s1"
    using sorting_passes [OF so n len le_refl] by auto
  have k: "next_of n (n - 1) = 0" "Suc (n - 1) = n" using n by (simp_all add: next_of_def)
  have l: "length (nums \<lparr>nums = ys, quitting = False\<rparr>) = n"
    and nq: "\<not> quitting \<lparr>nums = ys, quitting = False\<rparr>"
    and pe: "pass_effect n (n - 1) \<lparr>nums = ys, quitting = False\<rparr> = Inr \<lparr>nums = ys, quitting = sorted ys\<rparr>"
    using 1(2) by (simp_all add: pass_effect_def)
  obtain st2 s2 where "reaches tid (mtsort E)
      (config (thread_at E (n - 1)) st1 (mt_args E n, \<lparr>nums = ys, quitting = False\<rparr>) s1)
      (config (thread_at E (next_of n (n - 1))) st2 (mt_args E n, \<lparr>nums = ys, quitting = sorted ys\<rparr>) s2)"
    "sorting tid kth E n (b \<or> Suc (n - 1) = n) (next_of n (n - 1)) st2 s2"
    by (rule sorting_pass [OF 1(4) n l nq pe])
  with reaches_trans [OF 1(3)] 1(1,2) k show ?thesis by (intro that) auto
qed

text \<open>Each round that does not end the sort leaves fewer inversions.\<close>

lemma sorting_rounds:
  assumes "sorting tid kth E n b 0 st s" and "2 \<le> n" and "length xs = n"
  shows "\<exists>ys st' s'. sorted ys \<and> mset ys = mset xs \<and>
    reaches tid (mtsort E) (config (thread_at E 0) st (mt_args E n, \<lparr>nums = xs, quitting = False\<rparr>) s)
      (config (thread_at E 0) st' (mt_args E n, \<lparr>nums = ys, quitting = True\<rparr>) s') \<and>
    sorting tid kth E n True 0 st' s'"
  using assms
proof (induction "card (inversions xs)" arbitrary: b st s xs rule: less_induct)
  case less
  obtain ys st1 s1 where 1: "run_passes [0..<n - 1] xs = Inr ys" "length ys = n"
    "reaches tid (mtsort E) (config (thread_at E 0) st (mt_args E n, \<lparr>nums = xs, quitting = False\<rparr>) s)
      (config (thread_at E 0) st1 (mt_args E n, \<lparr>nums = ys, quitting = sorted ys\<rparr>) s1)"
    "sorting tid kth E n True 0 st1 s1"
    by (rule sorting_round [OF less.prems])
  have cov: "covers (length xs) [0..<n - 1]" using less.prems(3) by (auto simp: covers_def)
  from covering_block [OF this] 1(1)
  have ys: "mset ys = mset xs" "card (inversions ys) \<le> card (inversions xs) - 1" by auto
  show ?case
  proof (cases "sorted ys")
    case True
    with 1(3,4) ys(1) show ?thesis by auto
  next
    case False
    then have "0 < card (inversions ys)" by (simp add: sorted_no_inversions card_gt_0_iff)
    with ys(2) have dec: "card (inversions ys) < card (inversions xs)" by simp
    from less.hyps [OF dec 1(4) less.prems(2) 1(2)] obtain zs st2 s2 where
      "sorted zs" "mset zs = mset ys"
      "reaches tid (mtsort E) (config (thread_at E 0) st1 (mt_args E n, \<lparr>nums = ys, quitting = False\<rparr>) s1)
        (config (thread_at E 0) st2 (mt_args E n, \<lparr>nums = zs, quitting = True\<rparr>) s2)"
      "sorting tid kth E n True 0 st2 s2" by blast
    with reaches_trans [OF 1(3)] ys(1) False show ?thesis by auto
  qed
qed

section \<open>From the start to the end\<close>

text \<open>The main thread's first join starts the first round.\<close>

lemma first_join:
  assumes co: "coop tid kth s main_thread (map (thread_at E) [0..<n])"
    and cr: "crew s (main_thread # map (thread_at E) [0..<n])" and n: "2 \<le> n"
    and us: "\<forall>i<n. active (thr s) (Some (thread_at E i)) \<and>
      ready (mtsort E) st s (thread_at E i) (Mt_enter (i < n - 1) (int i))"
    and mu: "\<forall>i<n. mutex_free s (mtx_of E 0 + i)" and room: "0 < room (qnodes s)"
    and st: "st main_thread = At (Mt_join n 0)"
  obtains st' s' where
    "reaches tid (mtsort E) (config main_thread st d s) (config (thread_at E 0) st' d s')"
    "sorting tid kth E n False 0 st' s'"
proof -
  let ?u = "thread_at E"
  note ap = crew_apart [OF cr]
  have z: "0 < n" and up: "[0..<n] = 0 # [1..<n]" using n by (simp_all add: upt_conv_Cons)
  have q: "map ?u [0..<n] = ?u 0 # map ?u [1..<n]" by (simp add: up)
  obtain tx where tx: "thr s (?u 0) = Some tx" using cr up by (auto simp: crew_def)
  obtain tc where tc: "thr s main_thread = Some tc" using coop_cur [OF co] by metis
  have act: "active (thr s) (Some (?u 0))" using us z by simp
  obtain c s1 where s1: "mypthread_join tid (th_id tx) s = Inr (Switched (?u 0) c, s1)"
    "coop tid kth s1 (?u 0) (map ?u [1..<n] @ [main_thread])"
    "thr s1 = (thr s)(main_thread \<mapsto> tc\<lparr>th_state := PS_WAITING, dependent_th := th_id tx\<rparr>)"
    "room (qnodes s1) = room (qnodes s)" "ctx_of s (?u 0) = Some c"
    "ctx_of s1 main_thread = Some (Ctx_saved Resume_join)"
    "\<forall>y\<in>set (?u 0 # map ?u [1..<n]). ctx_of s1 y = ctx_of s y" "same_objects s s1"
    by (rule join_front [OF co [unfolded q] room tx act tc])
  let ?st = "st(main_thread := At (Mt_join n 1), ?u 0 := At (Mt_enter (0 < n - 1) 0))"
  have "resumed (mtsort E) c (st (?u 0)) = Inr (At (Mt_enter (0 < n - 1) 0))"
    using us z s1(5) by (auto simp: ready_def)
  then have r: "reaches tid (mtsort E) (config main_thread st d s) (config (?u 0) ?st d s1)"
    using st z tx s1(1) ap(1) [OF z]
    by (intro reaches_step)
      (simp add: machine_step_def mtsort_def mtsort_join_def calls_def join_thread_def Let_def)
  have ids: "same_ids s s1" by (rule same_ids_upd [OF tc _ s1(3)]) simp
  have "sorting tid kth E n False 0 ?st s1"
    unfolding sorting_def
  proof (intro conjI allI impI)
    show "crew s1 (main_thread # map ?u [0..<n])" by (rule crew_same_ids [OF cr ids])
    show "coop tid kth s1 (?u 0) (sort_ring E n False 0)" using s1(2) by (simp add: sort_ring_def)
    show "\<not> active (thr s1) (Some main_thread)" using s1(3) by (simp add: active_def)
    show "dependent_th (the (thr s1 main_thread)) = th_id (the (thr s1 (?u 0)))"
      using s1(3) tx ap(1) [OF z] by simp
    show "ready (mtsort E) ?st s1 main_thread (Mt_join n 1)"
      using s1(6) ap(1) [OF z] by (simp add: ready_def)
    show "mutex_free s1 (mtx_of E 0 + i)" if "i < n" for i
      using mu that by (auto intro: mutex_free_same [OF _ s1(8)])
    fix i assume i: "i < n" "i \<noteq> 0"
    show "active (thr s1) (Some (?u i))" using us s1(3) i ap(1) [OF i(1)] by (simp add: active_def)
    have "?u i \<in> set (?u 0 # map ?u [1..<n])" using i by simp
    with s1(7) have "ctx_of s1 (?u i) = ctx_of s (?u i)" by blast
    then show "ready (mtsort E) ?st s1 (?u i) (if False \<or> i < 0 then at_work E n i else Mt_enter (i < n - 1) (int i))"
      using us i ap(1) [OF i(1)] ap(2) [OF i(1) z] by (simp add: ready_def)
  qed (use z s1(4) room in simp_all)
  with r show ?thesis by (rule that)
qed

text \<open>When \<open>quitting\<close> is set the first thread exits, and the main thread joins the others.\<close>

lemma quitting_joins:
  assumes so: "sorting tid kth E n True 0 st s" and n: "2 \<le> n" and q: "quitting (snd d)"
  obtains st' s' where
    "reaches tid (mtsort E) (config (thread_at E 0) st d s) (config main_thread st' d s')"
    "st' main_thread = At (Mt_join n n)" "coop tid kth s' main_thread []"
    "\<forall>i<n. mutex_free s' (mtx_of E 0 + i)"
proof -
  let ?u = "thread_at E"
  from so have co: "coop tid kth s (?u 0) (main_thread # map ?u [1..<n])"
    and cr: "crew s (main_thread # map ?u [0..<n])" and st: "st (?u 0) = At (at_work E n 0)"
    and dep: "dependent_th (the (thr s main_thread)) = th_id (the (thr s (?u 0)))"
    and rdy: "ready (mtsort E) st s main_thread (Mt_join n 1)" and room: "0 < room (qnodes s)"
    and us: "\<forall>i<n. i \<noteq> 0 \<longrightarrow> active (thr s) (Some (?u i)) \<and> ready (mtsort E) st s (?u i) (at_work E n i)"
    and mu: "\<forall>i<n. mutex_free s (mtx_of E 0 + i)"
    by (simp_all add: sorting_def sort_ring_def)
  have z: "0 < n" and i1: "(1::nat) \<le> n" using n by simp_all
  note ap = crew_apart [OF cr]
  obtain tc where tc: "thr s (?u 0) = Some tc" using coop_cur [OF co] by metis
  have ax: "active (thr s) (Some main_thread) \<or> dependent_th (the (thr s main_thread)) = th_id tc"
    using dep tc by simp
  obtain c s1 where s1: "mypthread_exit tid s = Inr (Switched main_thread c, s1)"
    "coop tid kth s1 main_thread (map ?u [1..<n])"
    "room (qnodes s1) = Suc (room (qnodes s))" "ctx_of s main_thread = Some c"
    "\<forall>y\<in>set (main_thread # map ?u [1..<n]). ctx_of s1 y = ctx_of s y" "same_objects s s1" "same_ids s s1"
    "\<forall>y\<in>set (main_thread # map ?u [1..<n]).
       active (thr s) (Some y) \<or> dependent_th (the (thr s y)) = th_id tc \<longrightarrow> active (thr s1) (Some y)"
    by (rule exit_next [OF co tc ax])
  let ?st = "st(?u 0 := At Mt_end, main_thread := At (Mt_join n 1))"
  have "resumed (mtsort E) c (st main_thread) = Inr (At (Mt_join n 1))"
    using rdy s1(4) by (auto simp: ready_def)
  then have r: "reaches tid (mtsort E) (config (?u 0) st d s) (config main_thread ?st d s1)"
    using mt.exits [OF z coopD(2) [OF co], where d = d and E = E] q s1(1) ap(1) [OF z]
    by (intro reaches_step) (simp add: machine_step_def st Let_def)
  have us1: "\<forall>i\<in>{1..<n}. active (thr s1) (Some (?u i)) \<and> ready (mtsort E) ?st s1 (?u i) (at_work E n i)"
  proof
    fix i assume i: "i \<in> {1..<n}"
    then have m: "?u i \<in> set (main_thread # map ?u [1..<n])" by simp
    with s1(8) us i have "active (thr s1) (Some (?u i))" by simp
    moreover have "ctx_of s1 (?u i) = ctx_of s (?u i)" using s1(5) m by blast
    moreover have "?u i \<noteq> ?u 0" "?u i \<noteq> main_thread" using i ap(1) [of i] ap(2) [of i 0] z by auto
    ultimately show "active (thr s1) (Some (?u i)) \<and> ready (mtsort E) ?st s1 (?u i) (at_work E n i)"
      using us i by (simp add: ready_def)
  qed
  have cr1: "crew s1 (main_thread # map ?u [0..<n])" by (rule crew_same_ids [OF cr s1(7)])
  have rm1: "0 < room (qnodes s1)" using s1(3) by simp
  from mt.join_all [where st = ?st and d = d, OF i1 s1(2) cr1 us1 _ q rm1] obtain st2 s2 where 2:
    "reaches tid (mtsort E) (config main_thread ?st d s1) (config main_thread st2 d s2)"
    "st2 main_thread = At (Mt_join n n)" "coop tid kth s2 main_thread []" "keeps s1 s2" by auto
  have "same_objects s s2" using s1(6) 2(4) by (auto simp: keeps_def intro: same_objects_trans)
  then have "\<forall>i<n. mutex_free s2 (mtx_of E 0 + i)" using mu by (auto intro: mutex_free_same)
  with reaches_trans [OF r 2(1)] 2(2,3) show ?thesis by (intro that)
qed

lemma destroy_all_ok:
  "sems_free s \<Longrightarrow> \<forall>i<k. mtxs s (m + i) \<noteq> None \<Longrightarrow> \<exists>s'. destroy_all m k s = Inr s'"
proof (induction k arbitrary: m s)
  case (Suc k)
  from Suc.prems(2) have "mtxs s (m + 0) \<noteq> None" by blast
  then obtain x where x: "mtxs s m = Some x" by auto
  let ?s1 = "s\<lparr>mtxs := (mtxs s)(m \<mapsto> free_mutex)\<rparr>"
  have d: "mypthread_mutex_destroy m s = Inr (Returned 0, ?s1)"
    using Suc.prems(1) x
    by (simp add: mypthread_mutex_destroy_def mypthread_mutex_init_def load_mtx_def sem_wait_free
        sems_free_def sem_post_def fun_upd_idem)
  have "\<forall>i<k. mtxs ?s1 (Suc m + i) \<noteq> None"
  proof (intro allI impI)
    fix i assume "i < k"
    with Suc.prems(2) have "mtxs s (m + Suc i) \<noteq> None" by blast
    then show "mtxs ?s1 (Suc m + i) \<noteq> None" by simp
  qed
  from Suc.IH [OF _ this] Suc.prems(1) d show ?case by (auto simp: sems_free_def)
qed simp

lemma mtx_fold:
  "k \<le> n \<Longrightarrow> 0 < n \<Longrightarrow> M (mtx_of E 0) = Some free_mutex \<Longrightarrow> i < n \<Longrightarrow> i \<le> k \<Longrightarrow>
   fold (init_next E n) [0..<k] M (mtx_of E 0 + i) = Some free_mutex"
proof (induction k)
  case (Suc k)
  show ?case
  proof (cases "i = Suc k")
    case True
    with Suc.prems have "k < n - 1" by simp
    with True show ?thesis by (simp add: init_next_def [of E n k])
  next
    case False
    with Suc have "fold (init_next E n) [0..<k] M (mtx_of E 0 + i) = Some free_mutex" by simp
    then show ?thesis using False by (simp add: init_next_def [of E n k])
  qed
qed simp

lemma note_fold:
  "k \<le> n \<Longrightarrow> fold (\<lambda>i d. (fst d @ [arg_of E n i], snd d)) [0..<k] (as, sr) = (as @ map (arg_of E n) [0..<k], sr)"
  by (induction k) simp_all

lemma sort_initial_list: "sort (initial_list n) = map int [1..<Suc n]"
proof (rule properties_for_sort)
  show "sorted (map int [1..<Suc n])" using sorted_upt [of 1 "Suc n"] by (simp add: sorted_map del: upt_Suc)
  have r: "rev (initial_list n) = map int [1..<Suc n]"
    by (rule nth_equalityI) (auto simp: initial_list_def rev_nth of_nat_diff simp del: upt_Suc)
  have "mset (rev (initial_list n)) = mset (map int [1..<Suc n])" by (simp only: r)
  then show "mset (map int [1..<Suc n]) = mset (initial_list n)" by simp
qed

text \<open>From the start of \<open>main\<close> to the first round.\<close>

lemma mtsort_begins:
  assumes w0: "well_started E n s0" and n: "2 \<le> n" and args: "n = mtsort_size E" "2 \<le> length (argv E)"
    "atoi (argv E ! 1) = ULONLY" and mx: "\<forall>i<n. mtxs s0 (mtx_of E 0 + i) \<noteq> None"
  obtains st s where
    "reaches tid (mtsort E) (boot Mt_main ([], \<lparr>nums = [], quitting = False\<rparr>) s0)
       (config (thread_at E 0) st (mt_args E n, \<lparr>nums = initial_list n, quitting = False\<rparr>) s)"
    "sorting tid (fresh (kths s0)) E n False 0 st s"
proof -
  let ?m = "mtx_of E 0" and ?sr = "\<lparr>nums = initial_list n, quitting = False\<rparr>"
  let ?s1 = "mypthread_init (cores E) (hyper E) (atoi (argv E ! 1)) s0"
  define s2 where "s2 = ?s1\<lparr>mtxs := (mtxs ?s1)(?m \<mapsto> free_mutex)\<rparr>"
  let ?st = "(\<lambda>_. At Mt_main)(main_thread := At (Mt_create n 0))"
  have z: "0 < n" using n by simp
  have "well_started E n s2" using w0 by (simp add: s2_def)
  note w = well_startedD [OF this]
  have "mtxs s0 (?m + 0) \<noteq> None" using mx z by blast
  then have r0: "reaches tid (mtsort E) (boot Mt_main ([], \<lparr>nums = [], quitting = False\<rparr>) s0)
      (config main_thread ?st ([], ?sr) s2)"
    using args by (intro reaches_step) (auto simp: machine_step_def boot_def mtsort_def mtsort_start_def
        mypthread_mutex_init_def load_mtx_def Let_def s2_def)
  have objs: "\<forall>i<n. mtxs s2 (?m + i) \<noteq> None" and k: "kths s2 = kths s0"
    and m0: "mtxs s2 ?m = Some free_mutex" using mx by (simp_all add: s2_def)
  have pol: "mypthread_policy s2 = ULONLY" and rm: "n \<le> room (qnodes s2)" using args(3) w(4) by (simp_all add: s2_def)
  obtain f where f: "\<forall>i<n. f (thread_at E i) = ((if i < n - 1 then 1 else 2 :: nat), int i)"
    using distinct_assign [of "thread_at E" n "\<lambda>i. ((if i < n - 1 then 1 else 2 :: nat), int i)"] w(2) by auto
  from mt.fork_all [where tid = tid and st = ?st and d = "([], ?sr)" and i = n, OF w(1) pol objs w(2,3) rm w(5-7) f _ z le_refl]
  obtain st1 s3 where 1: "reaches tid (mtsort E) (config main_thread ?st ([], ?sr) s2)
      (config main_thread st1 (mt_args E n, ?sr) s3)"
    "st1 main_thread = At (Mt_create n n)"
    "forked tid (fresh (kths s0)) f s2 (map (thread_at E) [0..<n]) s3"
    "mtxs s3 = fold (init_next E n) [0..<n] (mtxs s2)"
    by (auto simp: note_fold mt_args_def k)
  note rdy = mt.forked_ready [OF 1(3) f]
  let ?st2 = "st1(main_thread := At (Mt_join n 0))"
  have r2: "reaches tid (mtsort E) (config main_thread st1 (mt_args E n, ?sr) s3)
      (config main_thread ?st2 (mt_args E n, ?sr) s3)"
    using 1(2) z by (intro reaches_step) (auto simp: machine_step_def mtsort_def mtsort_create_def Let_def)
  have mu: "\<forall>i<n. mutex_free s3 (?m + i)"
    using mtx_fold [of n n "mtxs s2" E] z m0 1(4) by (simp add: mutex_free_def)
  have us: "\<forall>i<n. active (thr s3) (Some (thread_at E i)) \<and>
      ready (mtsort E) ?st2 s3 (thread_at E i) (Mt_enter (i < n - 1) (int i))"
    using 1(3) f by (auto simp: forked_def ready_def mtsort_def)
  have rm3: "0 < room (qnodes s3)" using 1(3) w(4) by (simp add: forked_def)
  obtain st3 s4 where 3: "reaches tid (mtsort E) (config main_thread ?st2 (mt_args E n, ?sr) s3)
      (config (thread_at E 0) st3 (mt_args E n, ?sr) s4)"
    "sorting tid (fresh (kths s0)) E n False 0 st3 s4"
    by (rule first_join [OF rdy(1,2) n us mu rm3]) simp_all
  show ?thesis
    by (rule that [OF reaches_trans [OF reaches_trans [OF reaches_trans [OF r0 1(1)] r2] 3(1)] 3(2)])
qed

text \<open>From \<open>quitting\<close> to the end of the process.\<close>

lemma mtsort_finishes:
  assumes so: "sorting tid kth E n True 0 st s" and n: "2 \<le> n" and q: "quitting (snd d)"
  obtains s' where "ends tid (mtsort E) (config (thread_at E 0) st d s) 0 d s'"
proof -
  obtain st1 s1 where 1: "reaches tid (mtsort E) (config (thread_at E 0) st d s) (config main_thread st1 d s1)"
    "st1 main_thread = At (Mt_join n n)" "coop tid kth s1 main_thread []"
    "\<forall>i<n. mutex_free s1 (mtx_of E 0 + i)"
    by (rule quitting_joins [OF so n q])
  have "\<forall>i<n. mtxs s1 (mtx_of E 0 + i) \<noteq> None" using 1(4) by (auto simp: mutex_free_def split: option.splits)
  from destroy_all_ok [OF coopD(2) [OF 1(3)] this] obtain s2 where "destroy_all (mtx_of E 0) n s1 = Inr s2"
    by blast
  then have "ends tid (mtsort E) (config main_thread st1 d s1) 0 d s2"
    using 1(2) by (intro ends_step) (simp add: machine_step_def mtsort_def mtsort_join_def)
  from that [OF reaches_ends [OF 1(1) this]] show ?thesis .
qed

end
