(* ===== verification/Mtsort_Properties.thy ===== *)
theory Mtsort_Properties
  imports Mtsort_Run
begin

text \<open>
  The properties of \<open>pthreads/mtsort.c\<close>: a sorting thread's pass on the thread library, the effect
  of passes in any order, the checking thread, and the pass that meets a held mutex.
\<close>

text \<open>
  C9: the whole program. For every list size from two on, under policy \<open>ULONLY\<close> and with memory for the
  threads, \<open>main\<close> creates the sorting threads and the checking thread, the passes in the order
  the scheduler takes sort the list, the checking thread ends them, \<open>main\<close> joins all, and the process
  ends with status 0, the decreasing list 1 to n sorted, and no mutex or context used after its end.
\<close>

theorem mtsort_sorts:
  assumes "well_started E n s0" and "2 \<le> n" and "n = mtsort_size E" and "2 \<le> length (argv E)"
    and "atoi (argv E ! 1) = ULONLY" and "\<forall>i<n. mtxs s0 (mtx_of E 0 + i) \<noteq> None"
  shows "\<exists>args s. ends tid (mtsort E) (boot Mt_main ([], \<lparr>nums = [], quitting = False\<rparr>) s0) 0
    (args, \<lparr>nums = map int [1..<Suc n], quitting = True\<rparr>) s"
proof -
  let ?xs = "initial_list n" and ?u = "thread_at E"
  obtain st s1 where 1: "reaches tid (mtsort E) (boot Mt_main ([], \<lparr>nums = [], quitting = False\<rparr>) s0)
      (config (?u 0) st (mt_args E n, \<lparr>nums = ?xs, quitting = False\<rparr>) s1)"
    "sorting tid (fresh (kths s0)) E n False 0 st s1"
    by (rule mtsort_begins [OF assms])
  have "length ?xs = n" by (simp add: initial_list_def)
  from sorting_rounds [OF 1(2) assms(2) this] obtain ys st2 s2 where 2: "sorted ys" "mset ys = mset ?xs"
    "reaches tid (mtsort E) (config (?u 0) st (mt_args E n, \<lparr>nums = ?xs, quitting = False\<rparr>) s1)
      (config (?u 0) st2 (mt_args E n, \<lparr>nums = ys, quitting = True\<rparr>) s2)"
    "sorting tid (fresh (kths s0)) E n True 0 st2 s2" by blast
  obtain s3 where 3: "ends tid (mtsort E) (config (?u 0) st2 (mt_args E n, \<lparr>nums = ys, quitting = True\<rparr>) s2)
      0 (mt_args E n, \<lparr>nums = ys, quitting = True\<rparr>) s3"
    by (rule mtsort_finishes [where d = "(mt_args E n, \<lparr>nums = ys, quitting = True\<rparr>)", OF 2(4) assms(2)]) simp
  have "ys = map int [1..<Suc n]" using properties_for_sort [OF 2(2,1)] sort_initial_list [of n] by simp
  with reaches_ends [OF reaches_trans [OF 1(1) 2(3)] 3] show ?thesis by blast
qed

theorem mtsort_sorts_witness:
  "\<exists>args s. ends 9 (mtsort (sample_env [''mtsort'', ''0'', ''7''])) 
     (boot Mt_main ([], \<lparr>nums = [], quitting = False\<rparr>) (program_start 20 15)) 0
     (args, \<lparr>nums = [1, 2, 3, 4, 5, 6, 7], quitting = True\<rparr>) s"
proof -
  let ?E = "sample_env [''mtsort'', ''0'', ''7'']"
  have "7 = mtsort_size ?E" "2 \<le> length (argv ?E)" "atoi (argv ?E ! 1) = ULONLY"
    "\<forall>i<7. mtxs (program_start 20 15) (mtx_of ?E 0 + i) \<noteq> None"
    using atoi_samples by (simp_all add: sample_env_def ULONLY_def mtsort_size_def list_size_def program_start_def)
  from mtsort_sorts [OF well_started_sample _ this, where tid = 9] show ?thesis by (simp add: upt_rec [of _ 8] numeral_eq_Suc)
qed

lemma demo_mutexes: "mutex_free demo 0" "mutex_free demo 1" "mutex_free demo 2" "mutex_free demo 3"
  by code_simp+

text \<open>
  One pass of a sorting thread on one kernel thread, every thread active and its two mutexes
  free: it puts its pair in order and touches no other element, the mutexes are free again, and the
  yield at its end gives the processor to the next thread of the ring. The list stays a
  rearrangement of itself, with fewer inversions if the pair was out of order.
\<close>

theorem fnsort_pass_orders_pair:
  assumes "ul_inv tid kth s cur ts" and "0 < room (qnodes s)"
    and "mutex_free s (mtx_at a)" and "mutex_free s (Suc (mtx_at a))"
    and "Suc (num_at a) < length (nums st)"
  shows "\<exists>c st' s'. fnsort_pass tid a st s = Inr (Switched (hd (ts @ [cur])) c, st', s') \<and>
    ul_inv tid kth s' (hd (ts @ [cur])) (tl (ts @ [cur])) \<and> mtxs s' = mtxs s \<and>
    quitting st' = quitting st \<and> mset (nums st') = mset (nums st) \<and>
    nums st' ! num_at a = min (nums st ! num_at a) (nums st ! Suc (num_at a)) \<and>
    nums st' ! Suc (num_at a) = max (nums st ! num_at a) (nums st ! Suc (num_at a)) \<and>
    (\<forall>k. k \<noteq> num_at a \<and> k \<noteq> Suc (num_at a) \<longrightarrow> nums st' ! k = nums st ! k) \<and>
    (nums st' = nums st \<or> card (inversions (nums st)) = Suc (card (inversions (nums st'))))"
proof -
  have co: "coop tid kth s cur ts" using assms(1) by (simp add: ul_inv_def)
  obtain c s' where y: "mypthread_yield tid s = Inr (Switched (hd (ts @ [cur])) c, s')"
    "ul_inv tid kth s' (hd (ts @ [cur])) (tl (ts @ [cur]))" "room (qnodes s') = room (qnodes s)"
    "resumable s' (hd (ts @ [cur]))"
    by (rule ul_yield [OF assms(1,2)])
  obtain num where n: "order_pair (num_at a) (nums st) = Inr num"
    using assms(5) by (auto simp: order_pair_def)
  have "num ! num_at a = min (nums st ! num_at a) (nums st ! Suc (num_at a))"
    "num ! Suc (num_at a) = max (nums st ! num_at a) (nums st ! Suc (num_at a))"
    "\<forall>k. k \<noteq> num_at a \<and> k \<noteq> Suc (num_at a) \<longrightarrow> num ! k = nums st ! k"
    using n assms(5) by (auto simp: order_pair_def split: if_splits)
  then show ?thesis
    using fnsort_pass_eq [OF coopD(2) [OF co] assms(3,4)] y n yield_sems [OF y(1)]
      order_pair_mset [OF n] order_pair_inversions [OF n] by simp
qed

theorem fnsort_pass_orders_pair_witness:
  "\<exists>c st' s'. fnsort_pass 7 (sort_arg 3 0 1) \<lparr>nums = [3, 2, 1], quitting = False\<rparr> demo =
      Inr (Switched 1 c, st', s') \<and> nums st' ! 1 = 1 \<and> nums st' ! 2 = 2 \<and> nums st' ! 0 = 3"
proof -
  have r: "0 < room (qnodes demo)" using demo_room by simp
  have m: "mutex_free demo (mtx_at (sort_arg 3 0 1))" "mutex_free demo (Suc (mtx_at (sort_arg 3 0 1)))"
    using demo_mutexes by (simp_all add: sort_arg_def numeral_2_eq_2)
  have l: "Suc (num_at (sort_arg 3 0 1)) < length (nums \<lparr>nums = [3, 2, 1], quitting = False\<rparr>)"
    by (simp add: sort_arg_def)
  from fnsort_pass_orders_pair [OF demo_inv r m l] show ?thesis
    by (fastforce simp: sort_arg_def numeral_2_eq_2)
qed

text \<open>
  The sort is correct whatever the order of the passes. Let the passes that complete be any
  sequence of blocks in each of which every thread's pair comes up at least once; after as many
  blocks as the list had inversions, at the latest, the list is the sorted rearrangement of what it
  was, and no pass has read or written outside it.
\<close>

theorem passes_sort:
  assumes "\<forall>b\<in>set bs. covers (length xs) b" and "card (inversions xs) \<le> length bs"
  shows "run_passes (concat bs) xs = Inr (sort xs)"
proof -
  obtain ys where ys: "run_passes (concat bs) xs = Inr ys" "sorted ys" "mset ys = mset xs"
    using covering_blocks_sort [OF assms] by blast
  from properties_for_sort [OF ys(3,2)] ys(1) show ?thesis by simp
qed

theorem passes_sort_witness: "run_passes [1, 0, 0, 1, 1, 0] [3, 2, 1] = Inr [1, 2, 3]"
proof -
  have sub: "inversions [3, 2, 1 :: int] \<subseteq> {(0, 1), (0, 2), (1, 2)}"
  proof
    fix p assume "p \<in> inversions [3, 2, 1 :: int]"
    then obtain i j where p: "p = (i, j)" "i < j" "j < 3" by (auto simp: inversions_def)
    then have "j = 1 \<or> j = 2" "i = 0 \<or> i = 1" by auto
    with p show "p \<in> {(0, 1), (0, 2), (1, 2)}" by auto
  qed
  have "card (inversions [3, 2, 1 :: int]) \<le> card {(0::nat, 1::nat), (0, 2), (1, 2)}"
    by (rule card_mono [OF _ sub]) simp
  then have "card (inversions [3, 2, 1 :: int]) \<le> length [[1::nat, 0], [0, 1], [1, 0]]" by simp
  moreover have "\<forall>b\<in>set [[1::nat, 0], [0, 1], [1, 0]]. covers (length [3, 2, 1 :: int]) b"
    by (auto simp: covers_def numeral_2_eq_2)
  ultimately have "run_passes (concat [[1, 0], [0, 1], [1, 0]]) [3, 2, 1] = Inr (sort [3, 2, 1])"
    using passes_sort by blast
  then show ?thesis by (simp add: sort_key_def)
qed

text \<open>
  The checking thread stops the program exactly when the list is sorted. With all mutexes free
  and every thread active its pass takes all of them, sets \<open>quitting\<close> to whether the whole list is
  sorted, releases all of them, and yields.
\<close>

theorem fncheck_pass_decides:
  assumes "ul_inv tid kth s cur ts" and "0 < room (qnodes s)"
    and "\<forall>i<length (nums st). mutex_free s (m + i)" and "nums st \<noteq> []"
  shows "\<exists>c s'. fncheck_pass tid (check_arg (length (nums st)) m) st s =
      Inr (Switched (hd (ts @ [cur])) c, st\<lparr>quitting := sorted (nums st)\<rparr>, s') \<and>
    ul_inv tid kth s' (hd (ts @ [cur])) (tl (ts @ [cur])) \<and> mtxs s' = mtxs s"
proof -
  let ?a = "check_arg (length (nums st)) m"
  have co: "coop tid kth s cur ts" using assms(1) by (simp add: ul_inv_def)
  obtain c s' where y: "mypthread_yield tid s = Inr (Switched (hd (ts @ [cur])) c, s')"
    "ul_inv tid kth s' (hd (ts @ [cur])) (tl (ts @ [cur]))" "room (qnodes s') = room (qnodes s)"
    "resumable s' (hd (ts @ [cur]))"
    by (rule ul_yield [OF assms(1,2)])
  have "\<forall>i<arg_size ?a. mutex_free s (mtx_at ?a + i)" using assms(3) by (simp add: check_arg_def)
  from fncheck_pass_eq [OF coopD(2) [OF co] this] y yield_sems [OF y(1)] check_loop_all [OF assms(4)]
  show ?thesis by (simp add: check_arg_def)
qed

theorem fncheck_pass_decides_witness:
  "\<exists>c s'. fncheck_pass 7 (check_arg 3 0) \<lparr>nums = [3, 2, 1], quitting = False\<rparr> demo =
    Inr (Switched 1 c, \<lparr>nums = [3, 2, 1], quitting = False\<rparr>, s')"
proof -
  have r: "0 < room (qnodes demo)" using demo_room by simp
  have "mutex_free demo i" if "i < 3" for i
  proof -
    from that have "i = 0 \<or> i = 1 \<or> i = 2" by auto
    with demo_mutexes show ?thesis by blast
  qed
  then show ?thesis
    using fncheck_pass_decides [OF demo_inv r, of "\<lparr>nums = [3, 2, 1], quitting = False\<rparr>" 0]
    by (auto simp: numeral_3_eq_3)
qed

text \<open>
  A sorting thread that finds its second mutex held stops the whole program. The
  \<open>mypthread_mutex_trylock\<close> that fails keeps \<open>mutex_sem\<close>, so the release of the first mutex, which
  is what the code does next, blocks its kernel thread for ever.
\<close>

theorem fnsort_pass_busy_blocks:
  assumes "sems_free s" and "mutex_free s (mtx_at a)" and "mtxs s (Suc (mtx_at a)) = Some y"
    and "mtx_lock y"
  shows "fnsort_pass tid a st s = Inl (SemBlocked Mutex_sem)"
proof -
  obtain x where x: "mtxs s (mtx_at a) = Some x" "\<not> mtx_lock x" by (rule mutex_freeE [OF assms(2)])
  let ?s1 = "s\<lparr>mtxs := (mtxs s)(mtx_at a \<mapsto> x\<lparr>mtx_lock := True\<rparr>)\<rparr>"
  have "mypthread_mutex_trylock (Suc (mtx_at a)) ?s1 =
      Inr (Returned EBUSY, ?s1\<lparr>sems := (sems s)(Mutex_sem := 0)\<rparr>)"
    using assms by (simp add: mypthread_mutex_trylock_def sem_wait_free sems_free_def load_mtx_def)
  with mutex_lock_free(1) [OF assms(1) x] show ?thesis
    by (simp add: fnsort_pass_def EBUSY_def mypthread_mutex_unlock_def sem_wait_def)
qed

theorem fnsort_pass_busy_blocks_witness:
  "fnsort_pass 7 (sort_arg 3 0 0) \<lparr>nums = [3, 2, 1], quitting = False\<rparr>
     (demo\<lparr>mtxs := (mtxs demo)(1 \<mapsto> \<lparr>mtx_lock = True, blocked_q_head = None, blocked_q_tail = None\<rparr>)\<rparr>) =
   Inl (SemBlocked Mutex_sem)"
proof -
  let ?s = "demo\<lparr>mtxs := (mtxs demo)(1 \<mapsto> \<lparr>mtx_lock = True, blocked_q_head = None, blocked_q_tail = None\<rparr>)\<rparr>"
  have "sems_free ?s" using coopD(2) [OF demo_coop] by simp
  moreover have "mutex_free ?s (mtx_at (sort_arg 3 0 0))"
    using demo_mutexes(1) by (simp add: mutex_free_def sort_arg_def)
  moreover have "mtxs ?s (Suc (mtx_at (sort_arg 3 0 0))) =
      Some \<lparr>mtx_lock = True, blocked_q_head = None, blocked_q_tail = None\<rparr>"
    by (simp add: sort_arg_def)
  ultimately show ?thesis by (rule fnsort_pass_busy_blocks) simp
qed

end
