(* ===== verification/Samples.thy ===== *)
theory Samples
  imports Fork_Start
begin

text \<open>
  The sample programs of \<open>pthreads/\<close>: \<open>mypthread_sample1.c\<close> to \<open>mypthread_sample5.c\<close> and
  \<open>mypthread_performance.c\<close>. The frames of a program are the places its routines stand at between
  calls of the library. What the threads print is part of the shared data, in order; the messages of
  the main programs and the elapsed time are left out.
\<close>

section \<open>mypthread_sample1.c and mypthread_performance.c\<close>

datatype hello_frame =
    Hello_main | Hello_create nat | Hello_join nat | Hello_done | Print_hello int | Printed

definition NUM_THREADS :: nat where "NUM_THREADS = 5"

text \<open>A start routine that returns goes to the \<open>uc_link\<close> of its context, which no call has set.\<close>

fun PrintHello :: "int \<Rightarrow> hello_frame \<Rightarrow> int list \<Rightarrow> lib \<Rightarrow> (hello_frame move \<times> int list \<times> lib) res" where
  "PrintHello tid (Print_hello t) d s = calls (mypthread_exit tid s) Printed (d @ [t])"
| "PrintHello tid _ d s = Inl Undefined"

fun sample1_code ::
  "prog_env \<Rightarrow> int \<Rightarrow> hello_frame \<Rightarrow> int list \<Rightarrow> lib \<Rightarrow> (hello_frame move \<times> int list \<times> lib) res" where
  "sample1_code E tid Hello_main d s = start_main E 2 (Hello_create 0) d s"
| "sample1_code E tid (Hello_create t) d s =
     (if t < NUM_THREADS then create_or (-1) E tid t 1 (Hello_create (Suc t)) d s
      else calls (mypthread_exit tid s) Hello_done d)"
| "sample1_code E tid Hello_done d s = Inr (Ends 0, d, s)"
| "sample1_code E tid f d s = PrintHello tid f d s"

definition sample1 :: "prog_env \<Rightarrow> (hello_frame, int list) program" where
  "sample1 E = \<lparr>start_frame = (\<lambda>_. Print_hello), code = sample1_code E\<rparr>"

text \<open>The number of threads is the second argument; \<open>main\<close> joins all of them.\<close>

fun performance_code ::
  "prog_env \<Rightarrow> int \<Rightarrow> hello_frame \<Rightarrow> int list \<Rightarrow> lib \<Rightarrow> (hello_frame move \<times> int list \<times> lib) res" where
  "performance_code E tid Hello_main d s = start_main E 3 (Hello_create 0) d s"
| "performance_code E tid (Hello_create t) d s =
     (if int t < atoi (argv E ! 2) then create_or (-1) E tid t 1 (Hello_create (Suc t)) d s
      else Inr (Calls (Returned 0) (Hello_join 0), d, s))"
| "performance_code E tid (Hello_join t) d s =
     (if int t < atoi (argv E ! 2) then calls (join_thread E tid t s) (Hello_join (Suc t)) d
      else calls (mypthread_exit tid s) Hello_done d)"
| "performance_code E tid Hello_done d s = Inr (Ends 0, d, s)"
| "performance_code E tid f d s = PrintHello tid f d s"

definition performance :: "prog_env \<Rightarrow> (hello_frame, int list) program" where
  "performance E = \<lparr>start_frame = (\<lambda>_. Print_hello), code = performance_code E\<rparr>"

section \<open>mypthread_sample2.c\<close>

datatype message_frame =
    Message_main | Message_create nat | Message_join nat | Message_done | Print_message int | Message_printed

text \<open>The argument of thread \<open>i\<close> is a pointer to its message.\<close>

definition message :: "int \<Rightarrow> string" where
  "message i = (if i = 0 then ''Thread 1'' else ''Thread 2'')"

fun sample2_code ::
  "prog_env \<Rightarrow> int \<Rightarrow> message_frame \<Rightarrow> string list \<Rightarrow> lib \<Rightarrow> (message_frame move \<times> string list \<times> lib) res"
where
  "sample2_code E tid Message_main d s = start_main E 2 (Message_create 0) d s"
| "sample2_code E tid (Message_create t) d s =
     (if t < 2 then create_or 1 E tid t 1 (Message_create (Suc t)) d s
      else Inr (Calls (Returned 0) (Message_join 0), d, s))"
| "sample2_code E tid (Message_join t) d s =
     (if t < 2 then calls (join_thread E tid t s) (Message_join (Suc t)) d
      else calls (mypthread_exit tid s) Message_done d)"
| "sample2_code E tid Message_done d s = Inr (Ends 0, d, s)"
| "sample2_code E tid (Print_message p) d s = calls (mypthread_exit tid s) Message_printed (d @ [message p])"
| "sample2_code E tid Message_printed d s = Inl Undefined"

definition sample2 :: "prog_env \<Rightarrow> (message_frame, string list) program" where
  "sample2 E = \<lparr>start_frame = (\<lambda>_. Print_message), code = sample2_code E\<rparr>"

section \<open>mypthread_sample3.c and mypthread_sample4.c\<close>

datatype count_frame =
    Count_main | Count_create nat | Count_join nat | Count_done | Count_begin | Count_end

text \<open>
  Both programs count the threads under a mutex; what differs is the number of threads, and that
  \<open>mypthread_sample3.c\<close> prints the counter (the list).
\<close>

definition counted ::
  "prog_env \<Rightarrow> int \<Rightarrow> 'd \<Rightarrow> ('d \<Rightarrow> 'd) \<Rightarrow> lib \<Rightarrow> (count_frame move \<times> 'd \<times> lib) res" where
  "counted E tid d inc s =
     bind_res (mypthread_mutex_lock tid (mtx_of E 0) s) (\<lambda>(locked, s1).
     case locked of
       Returned _ \<Rightarrow>
         bind_res (mypthread_mutex_unlock (mtx_of E 0) s1) (\<lambda>(_, s2).
         calls (mypthread_exit tid s2) Count_end (inc d))
     | _ \<Rightarrow> Inr (Calls locked Count_end, d, s1))"

fun sample3_code ::
  "prog_env \<Rightarrow> int \<Rightarrow> count_frame \<Rightarrow> int \<times> int list \<Rightarrow> lib \<Rightarrow> (count_frame move \<times> (int \<times> int list) \<times> lib) res"
where
  "sample3_code E tid Count_main d s =
     bind_res (start_main E 2 (Count_create 0) d s) (\<lambda>(mv, d1, s1).
     if mv = Ends 0 then Inr (mv, d1, s1) else calls (mypthread_mutex_init (mtx_of E 0) s1) (Count_create 0) d1)"
| "sample3_code E tid (Count_create t) d s =
     (if t < 2
      then calls (mypthread_create tid (clones_to E) (thread_at E t) 1 0 s) (Count_create (Suc t)) d
      else Inr (Calls (Returned 0) (Count_join 0), d, s))"
| "sample3_code E tid (Count_join t) d s =
     (if t < 2 then calls (join_thread E tid t s) (Count_join (Suc t)) d
      else calls (mypthread_exit tid s) Count_done d)"
| "sample3_code E tid Count_done d s = Inr (Ends 0, d, s)"
| "sample3_code E tid Count_begin d s = counted E tid d (\<lambda>(n, out). (n + 1, out @ [n + 1])) s"
| "sample3_code E tid Count_end d s = Inl Undefined"

definition sample3 :: "prog_env \<Rightarrow> (count_frame, int \<times> int list) program" where
  "sample3 E = \<lparr>start_frame = (\<lambda>_ _. Count_begin), code = sample3_code E\<rparr>"

definition NTHREADS :: nat where "NTHREADS = 10"

fun sample4_code ::
  "prog_env \<Rightarrow> int \<Rightarrow> count_frame \<Rightarrow> int \<Rightarrow> lib \<Rightarrow> (count_frame move \<times> int \<times> lib) res" where
  "sample4_code E tid Count_main d s =
     bind_res (start_main E 2 (Count_create 0) d s) (\<lambda>(mv, d1, s1).
     if mv = Ends 0 then Inr (mv, d1, s1) else calls (mypthread_mutex_init (mtx_of E 0) s1) (Count_create 0) d1)"
| "sample4_code E tid (Count_create t) d s =
     (if t < NTHREADS
      then calls (mypthread_create tid (clones_to E) (thread_at E t) 1 0 s) (Count_create (Suc t)) d
      else Inr (Calls (Returned 0) (Count_join 0), d, s))"
| "sample4_code E tid (Count_join t) d s =
     (if t < NTHREADS then calls (join_thread E tid t s) (Count_join (Suc t)) d
      else calls (mypthread_exit tid s) Count_done d)"
| "sample4_code E tid Count_done d s = Inr (Ends 0, d, s)"
| "sample4_code E tid Count_begin d s = counted E tid d (\<lambda>n. n + 1) s"
| "sample4_code E tid Count_end d s = Inl Undefined"

definition sample4 :: "prog_env \<Rightarrow> (count_frame, int) program" where
  "sample4 E = \<lparr>start_frame = (\<lambda>_ _. Count_begin), code = sample4_code E\<rparr>"

section \<open>mypthread_sample5.c\<close>

definition COUNT_DONE :: int where "COUNT_DONE = 10"
definition COUNT_HALT1 :: int where "COUNT_HALT1 = 3"
definition COUNT_HALT2 :: int where "COUNT_HALT2 = 6"

datatype halt_frame =
    Halt_main | Halt_create nat | Halt_join nat | Halt_done
  | Count1_lock | Count1_test | Count1_count | Count1_incr | Count1_loop
  | Count2_lock | Count2_test | Count2_unlock | Count2_count | Count2_incr | Count2_loop

text \<open>Mutex 0 is \<open>count_mutex\<close>, mutex 1 is \<open>condition_mutex\<close>; the data are the counter and what is printed.\<close>

definition count_mutex :: "prog_env \<Rightarrow> nat" where "count_mutex E = mtx_of E 0"
definition condition_mutex :: "prog_env \<Rightarrow> nat" where "condition_mutex E = mtx_of E 1"
definition condition_cond :: "prog_env \<Rightarrow> nat" where "condition_cond E = cnd_of E 0"

fun functionCount1 ::
  "prog_env \<Rightarrow> int \<Rightarrow> halt_frame \<Rightarrow> int \<times> int list \<Rightarrow> lib \<Rightarrow> (halt_frame move \<times> (int \<times> int list) \<times> lib) res"
where
  "functionCount1 E tid Count1_lock d s = calls (mypthread_mutex_lock tid (condition_mutex E) s) Count1_test d"
| "functionCount1 E tid Count1_test (n, out) s =
     (if n \<ge> COUNT_HALT1 \<and> n \<le> COUNT_HALT2
      then calls (mypthread_cond_wait tid (condition_cond E) (condition_mutex E) s) Count1_test (n, out)
      else calls (mypthread_mutex_unlock (condition_mutex E) s) Count1_count (n, out))"
| "functionCount1 E tid Count1_count d s = calls (mypthread_mutex_lock tid (count_mutex E) s) Count1_incr d"
| "functionCount1 E tid Count1_incr (n, out) s =
     calls (mypthread_mutex_unlock (count_mutex E) s) Count1_loop (n + 1, out @ [n + 1])"
| "functionCount1 E tid Count1_loop (n, out) s =
     (if n \<ge> COUNT_DONE then calls (mypthread_exit tid s) Count1_lock (n, out)
      else Inr (Calls (Returned 0) Count1_lock, (n, out), s))"
| "functionCount1 E tid _ d s = Inl Undefined"

fun functionCount2 ::
  "prog_env \<Rightarrow> int \<Rightarrow> halt_frame \<Rightarrow> int \<times> int list \<Rightarrow> lib \<Rightarrow> (halt_frame move \<times> (int \<times> int list) \<times> lib) res"
where
  "functionCount2 E tid Count2_lock d s = calls (mypthread_mutex_lock tid (condition_mutex E) s) Count2_test d"
| "functionCount2 E tid Count2_test (n, out) s =
     (if n < COUNT_HALT1 \<or> n > COUNT_HALT2
      then calls (mypthread_cond_signal (condition_cond E) s) Count2_unlock (n, out)
      else Inr (Calls (Returned 0) Count2_unlock, (n, out), s))"
| "functionCount2 E tid Count2_unlock d s = calls (mypthread_mutex_unlock (condition_mutex E) s) Count2_count d"
| "functionCount2 E tid Count2_count d s = calls (mypthread_mutex_lock tid (count_mutex E) s) Count2_incr d"
| "functionCount2 E tid Count2_incr (n, out) s =
     calls (mypthread_mutex_unlock (count_mutex E) s) Count2_loop (n + 1, out @ [n + 1])"
| "functionCount2 E tid Count2_loop (n, out) s =
     (if n \<ge> COUNT_DONE then calls (mypthread_exit tid s) Count2_lock (n, out)
      else Inr (Calls (Returned 0) Count2_lock, (n, out), s))"
| "functionCount2 E tid _ d s = Inl Undefined"

fun sample5_main ::
  "prog_env \<Rightarrow> int \<Rightarrow> halt_frame \<Rightarrow> int \<times> int list \<Rightarrow> lib \<Rightarrow> (halt_frame move \<times> (int \<times> int list) \<times> lib) res"
where
  "sample5_main E tid Halt_main d s =
     bind_res (start_main E 2 (Halt_create 0) d s) (\<lambda>(mv, d1, s1).
     if mv = Ends 0 then Inr (mv, d1, s1)
     else
       bind_res (mypthread_mutex_init (count_mutex E) s1) (\<lambda>(_, s2).
       bind_res (mypthread_mutex_init (condition_mutex E) s2) (\<lambda>(_, s3).
       calls (mypthread_cond_init (condition_cond E) s3) (Halt_create 0) d1)))"
| "sample5_main E tid (Halt_create t) d s =
     (if t < 2
      then calls (mypthread_create tid (clones_to E) (thread_at E t) (Suc t) 0 s) (Halt_create (Suc t)) d
      else Inr (Calls (Returned 0) (Halt_join 0), d, s))"
| "sample5_main E tid (Halt_join t) d s =
     (if t < 2 then calls (join_thread E tid t s) (Halt_join (Suc t)) d
      else calls (mypthread_exit tid s) Halt_done d)"
| "sample5_main E tid Halt_done d s = Inr (Ends 0, d, s)"
| "sample5_main E tid _ d s = Inl Undefined"

text \<open>Start routine 1 is \<open>functionCount1\<close>, start routine 2 is \<open>functionCount2\<close>.\<close>

definition sample5 :: "prog_env \<Rightarrow> (halt_frame, int \<times> int list) program" where
  "sample5 E =
     \<lparr>start_frame = (\<lambda>r _. if r = 1 then Count1_lock else Count2_lock),
      code = (\<lambda>tid f. case f of
          Halt_main \<Rightarrow> sample5_main E tid f | Halt_create _ \<Rightarrow> sample5_main E tid f
        | Halt_join _ \<Rightarrow> sample5_main E tid f | Halt_done \<Rightarrow> sample5_main E tid f
        | Count1_lock \<Rightarrow> functionCount1 E tid f | Count1_test \<Rightarrow> functionCount1 E tid f
        | Count1_count \<Rightarrow> functionCount1 E tid f | Count1_incr \<Rightarrow> functionCount1 E tid f
        | Count1_loop \<Rightarrow> functionCount1 E tid f | _ \<Rightarrow> functionCount2 E tid f)\<rparr>"

end
