(* ===== verification/Evaluation.thy ===== *)
theory Evaluation
  imports Programs
begin

text \<open>
  The rules by which \<open>simp\<close> evaluates a run of a concrete program: \<open>eval_defs\<close> unfolds the library's
  routines, \<open>eval_loops\<close> takes one step of a loop whose fuel is a numeral, and \<open>eval_cong\<close> keeps the
  simplifier out of the branches that are not taken yet.
\<close>

lemma bind_res_weak_cong: "m = m' \<Longrightarrow> bind_res m f = bind_res m' f"
  by simp

lemmas eval_cong = bind_res_weak_cong if_weak_cong option.case_cong_weak sum.case_cong_weak
  prod.case_cong_weak outcome.case_cong_weak place.case_cong_weak status.case_cong_weak
  move.case_cong_weak

lemmas eval_loops =
  find_active_loop.simps(2) [where fuel = "pred_numeral k" for k, folded numeral_eq_Suc]
  mypthread_get_loop.simps(2) [where fuel = "pred_numeral k" for k, folded numeral_eq_Suc]
  update_waiting_loop.simps(2) [where fuel = "pred_numeral k" for k, folded numeral_eq_Suc]
  mykthread_get_loop.simps(2) [where fuel = "pred_numeral k" for k, folded numeral_eq_Suc]
  is_running_loop.simps(2) [where fuel = "pred_numeral k" for k, folded numeral_eq_Suc]
  ll_free_loop.simps(2) [where fuel = "pred_numeral k" for k, folded numeral_eq_Suc]
  run.simps(2) [where n = "pred_numeral k" for k, folded numeral_eq_Suc]

lemmas eval_defs = machine_step_def boot_def mypthread_create_def register_main_def create_thread_def
  spawn_by_policy_def mypthread_enqueue_def mypthread_exit_def mypthread_yield_def mypthread_join_def
  wait_for_thread_def mythread_scheduler_def scheduler_pass_def setcontext_def swapcontext_def
  makecontext_def sem_wait_def sem_post_def init_locks_def mykthread_add_def create_mykthread_ll_node_def
  mykthread_get_def mypthread_get_def mypthread_update_waiting_threads_def
  mypthread_dequeue_first_active_def unlink_node_def mykthread_is_running_def ll_add_def ll_free_def
  ll_free_one_def create_mypthread_queue_node_def modify_th_def malloc_def modify_def load_def load_th_def
  free_cell_def mypthread_init_def init_kthread_info_def policy_defs main_thread_def program_start_def
  no_cells_def mypthread_mutex_init_def mypthread_mutex_lock_def mypthread_mutex_trylock_def
  mypthread_mutex_unlock_def mypthread_mutex_destroy_def mypthread_cond_init_def mypthread_cond_wait_def
  mypthread_cond_signal_def mypthread_cond_broadcast_def mypthread_cond_destroy_def load_mtx_def
  load_cnd_def EBUSY_def Let_def

end
