(* ===== verification/Samples_Properties.thy ===== *)
theory Samples_Properties
  imports Samples Evaluation
begin

text \<open>
  The properties of the sample programs: whole runs from \<open>main\<close> to the end of the process, under policy
  \<open>ULONLY\<close>.
\<close>

section \<open>The programs as instances of the interface\<close>

lemma bind_calls: "bind_res r (\<lambda>(out, s). Inr (Calls out f, d, s)) = calls r f d"
  by (simp add: calls_def)

lemma calls_Inr: "calls (Inr (out, s)) f d = Inr (Calls out f, d, s)"
  by (simp add: calls_def)

lemma join_calls:
  "calls (join_thread E tid i s) f d =
   bind_res (load_th (thr s) (Some (thread_at E i))) (\<lambda>t. calls (mypthread_join tid (th_id t) s) f d)"
  by (simp add: calls_def join_thread_def bind_res_assoc)

lemma counted_free:
  assumes "sems_free s" and "mutex_free s (mtx_of E 0)"
  shows "counted E tid d inc s = calls (mypthread_exit tid s) Count_end (inc d)"
proof -
  obtain x where x: "mtxs s (mtx_of E 0) = Some x" "\<not> mtx_lock x" "blocked_q_head x = None"
    "x\<lparr>mtx_lock := False\<rparr> = x" by (rule mutex_freeE [OF assms(2)])
  let ?s1 = "s\<lparr>mtxs := (mtxs s)(mtx_of E 0 \<mapsto> x\<lparr>mtx_lock := True\<rparr>)\<rparr>"
  have 1: "mypthread_mutex_lock tid (mtx_of E 0) s = Inr (Returned 0, ?s1)"
    by (rule mutex_lock_free(1) [OF assms(1) x(1,2)])
  have 2: "mypthread_mutex_unlock (mtx_of E 0) ?s1 = Inr (Returned 0, s)"
    using unlock_unwaited [of ?s1 "mtx_of E 0" "x\<lparr>mtx_lock := True\<rparr>"] assms(1) x
    by (simp add: fun_upd_idem)
  show ?thesis by (simp add: counted_def 1 2)
qed

interpretation perf: forking tid "performance E" "nat (atoi (argv E ! 2))" "thread_at E" Hello_join
    "\<lambda>i. Print_hello (int i)" "\<lambda>_. Printed" "\<lambda>i d. d @ [int i]" "\<lambda>_ _. True"
    "clones_to E" "\<lambda>_. 1" int Hello_create "\<lambda>i. Print_hello (int i)" "\<lambda>_ M. M" "\<lambda>_. True" "\<lambda>_ d. d" for tid E
  by unfold_locales (auto simp: performance_def bind_calls join_calls create_or_def calls_Inr)

interpretation greet: forking tid "sample2 E" 2 "thread_at E" Message_join
    "\<lambda>i. Print_message (int i)" "\<lambda>_. Message_printed" "\<lambda>i d. d @ [message (int i)]" "\<lambda>_ _. True"
    "clones_to E" "\<lambda>_. 1" int Message_create "\<lambda>i. Print_message (int i)" "\<lambda>_ M. M" "\<lambda>_. True" "\<lambda>_ d. d" for tid E
  by unfold_locales (auto simp: sample2_def bind_calls join_calls create_or_def calls_Inr)

interpretation count2: forking tid "sample3 E" 2 "thread_at E" Count_join
    "\<lambda>_. Count_begin" "\<lambda>_. Count_end" "\<lambda>_ (n, out). (n + 1, out @ [n + 1])"
    "\<lambda>_ s. mutex_free s (mtx_of E 0)"
    "clones_to E" "\<lambda>_. 1" "\<lambda>_. 0" Count_create "\<lambda>_. Count_begin" "\<lambda>_ M. M" "\<lambda>_. True" "\<lambda>_ d. d" for tid E
  by unfold_locales (auto simp: sample3_def bind_calls join_calls counted_free calls_Inr
      mutex_free_same)

interpretation count10: forking tid "sample4 E" NTHREADS "thread_at E" Count_join
    "\<lambda>_. Count_begin" "\<lambda>_. Count_end" "\<lambda>_ n. n + 1" "\<lambda>_ s. mutex_free s (mtx_of E 0)"
    "clones_to E" "\<lambda>_. 1" "\<lambda>_. 0" Count_create "\<lambda>_. Count_begin" "\<lambda>_ M. M" "\<lambda>_. True" "\<lambda>_ d. d" for tid E
  by unfold_locales (auto simp: sample4_def bind_calls join_calls counted_free calls_Inr
      mutex_free_same)

section \<open>Whole runs\<close>

lemma fold_snoc: "fold (\<lambda>i d. d @ [f i]) is d = d @ map f is"
  by (induction "is" arbitrary: d) simp_all

lemma fold_count: "fold (\<lambda>_ n. n + 1) is (k::int) = k + int (length is)"
  by (induction "is" arbitrary: k) simp_all

text \<open>
  C14: \<open>mypthread_performance.c\<close> as a whole. Started with any positive number of threads and memory
  for them, under \<open>ULONLY\<close>, the process ends with status 0 after every thread has printed its number
  once, in order, and none of them is left.
\<close>

theorem performance_prints_all:
  assumes "well_started E n s0" and "0 < n" and "length (argv E) = 3"
    and "atoi (argv E ! 1) = ULONLY" and "atoi (argv E ! 2) = int n"
  shows "\<exists>s. ends tid (performance E) (boot Hello_main [] s0) 0 (map int [0..<n]) s \<and>
    mypthread_count s = 0"
proof -
  let ?s0 = "mypthread_init (cores E) (hyper E) (atoi (argv E ! 1)) s0"
  have w: "well_started E (nat (atoi (argv E ! 2))) ?s0" using assms(1,5) by simp
  have "\<exists>s'. ends tid (performance E) (boot Hello_main [] s0) 0
      (fold (\<lambda>i d. d @ [int i]) [0..<nat (atoi (argv E ! 2))] (fold (\<lambda>_ d. d) [0..<nat (atoi (argv E ! 2))] [])) s' \<and> mypthread_count s' = 0"
  proof (rule perf.program_run [where g = Hello_done, OF well_startedD(1) [OF w] _ _ well_startedD(2-7) [OF w]])
    show "code (performance E) tid Hello_main [] s0 = Inr (Calls (Returned 0) (Hello_create 0), [], ?s0)"
      using assms(3) by (simp add: performance_def start_main_def)
  qed (use assms in \<open>simp_all add: performance_def calls_def\<close>)
  then show ?thesis using assms(5) by (simp add: fold_snoc)
qed

theorem performance_prints_all_witness:
  "\<exists>s. ends 9 (performance (sample_env [''perf'', ''0'', ''7''])) (boot Hello_main [] (program_start 20 15))
     0 [0, 1, 2, 3, 4, 5, 6] s \<and> mypthread_count s = 0"
proof -
  let ?E = "sample_env [''perf'', ''0'', ''7'']"
  have "length (argv ?E) = 3" "atoi (argv ?E ! 1) = ULONLY" "atoi (argv ?E ! 2) = int 7"
    using atoi_samples by (simp_all add: sample_env_def ULONLY_def)
  from performance_prints_all [OF well_started_sample _ this, where tid = 9]
  show ?thesis by (simp add: upt_rec [of _ 7] numeral_eq_Suc)
qed

text \<open>
  C15: \<open>mypthread_sample4.c\<close> as a whole: ten threads count up under the mutex, and when \<open>main\<close> has
  joined them the counter is ten.
\<close>

theorem sample4_counts:
  assumes "well_started E NTHREADS s0" and "length (argv E) = 2" and "atoi (argv E ! 1) = ULONLY"
    and "mtxs s0 (mtx_of E 0) \<noteq> None"
  shows "\<exists>s. ends tid (sample4 E) (boot Count_main 0 s0) 0 10 s \<and> mypthread_count s = 0"
proof -
  let ?s0 = "mypthread_init (cores E) (hyper E) (atoi (argv E ! 1)) s0"
  let ?s1 = "?s0\<lparr>mtxs := (mtxs ?s0)(mtx_of E 0 \<mapsto>
      \<lparr>mtx_lock = False, blocked_q_head = None, blocked_q_tail = None\<rparr>)\<rparr>"
  have w: "well_started E NTHREADS ?s1" using assms(1) by simp
  have "\<exists>s'. ends tid (sample4 E) (boot Count_main 0 s0) 0
      (fold (\<lambda>_ n. n + 1) [0..<NTHREADS] (fold (\<lambda>_ d. d) [0..<NTHREADS] 0)) s' \<and> mypthread_count s' = 0"
  proof (rule count10.program_run [where g = Count_done, OF well_startedD(1) [OF w] _ _ well_startedD(2-7) [OF w]])
    show "code (sample4 E) tid Count_main 0 s0 = Inr (Calls (Returned 0) (Count_create 0), 0, ?s1)"
      using assms(2,4)
      by (auto simp: sample4_def start_main_def calls_Inr mypthread_mutex_init_def load_mtx_def)
    show "mutex_free s (mtx_of E 0)" if "mtxs s = fold (\<lambda>_ M. M) [0..<NTHREADS] (mtxs ?s1)" for s
      using that by (simp add: mutex_free_def)
  qed (use assms in \<open>simp_all add: sample4_def calls_def NTHREADS_def\<close>)
  then show ?thesis by (simp add: fold_count NTHREADS_def)
qed

theorem sample4_counts_witness:
  "\<exists>s. ends 9 (sample4 (sample_env [''s4'', ''0''])) (boot Count_main 0 (program_start 20 15)) 0 10 s \<and>
     mypthread_count s = 0"
proof -
  let ?E = "sample_env [''s4'', ''0'']"
  have "length (argv ?E) = 2" "atoi (argv ?E ! 1) = ULONLY" "mtxs (program_start 20 15) (mtx_of ?E 0) \<noteq> None"
    using atoi_samples by (simp_all add: sample_env_def ULONLY_def program_start_def)
  then show ?thesis by (intro sample4_counts well_started_sample) (simp add: NTHREADS_def)
qed

lemmas sample_defs = start_main_def calls_def join_thread_def create_or_def sample_env_def



end
