(* ===== verification/Threadpool.thy ===== *)
theory Threadpool
  imports Mypthread Linked_Lists Interfaces
begin

text \<open>
  \<open>server/threadpool.c\<close> on the thread library of \<open>pthreads/\<close>: the pool, its task queue, the loop of
  a worker thread, and creating, feeding and destroying a pool. Pools and tasks live in heaps of
  their own (\<open>pool_mem\<close>); the mutex, the condition variable and the thread array of a pool are given by
  their addresses in the library's stores, and \<open>arrays\<close> has the lengths of the arrays allocated.
\<close>

section \<open>Data\<close>

definition MAXT_IN_POOL :: int where "MAXT_IN_POOL = 200"

record task =
  task_func :: "nat option"
  task_arg :: int
  task_next :: ptr

record threadpool_st =
  no_of_threads :: int
  no_of_tasks_in_Q :: int
  no_of_running_threads :: int
  pool_mutex :: nat
  pool_cond :: nat
  pool_threads :: nat
  taskQ_front :: ptr
  taskQ_rear :: ptr

record pool_mem =
  pools :: "threadpool_st heap"
  tasks :: "task heap"
  arrays :: "nat \<rightharpoonup> nat"

definition modify_pool :: "ptr \<Rightarrow> (threadpool_st \<Rightarrow> threadpool_st) \<Rightarrow> pool_mem \<Rightarrow> pool_mem res" where
  "modify_pool p f m = bind_res (modify (pools m) p f) (\<lambda>P. Inr (m\<lparr>pools := P\<rparr>))"

definition modify_task :: "ptr \<Rightarrow> (task \<Rightarrow> task) \<Rightarrow> pool_mem \<Rightarrow> pool_mem res" where
  "modify_task t f m = bind_res (modify (tasks m) t f) (\<lambda>T. Inr (m\<lparr>tasks := T\<rparr>))"

text \<open>The array of the threads of a pool: its allocation, its release, and what the release takes away.\<close>

definition new_array :: "nat \<Rightarrow> nat \<Rightarrow> pool_mem \<Rightarrow> pool_mem" where
  "new_array a n m = m\<lparr>arrays := (arrays m)(a \<mapsto> n)\<rparr>"

definition free_array :: "nat \<Rightarrow> pool_mem \<Rightarrow> (nat \<times> pool_mem) res" where
  "free_array a m =
     (case arrays m a of None \<Rightarrow> Inl Dangling | Some n \<Rightarrow> Inr (n, m\<lparr>arrays := (arrays m)(a := None)\<rparr>))"

definition drop_threads :: "nat \<Rightarrow> nat \<Rightarrow> (nat \<rightharpoonup> 'a) \<Rightarrow> (nat \<rightharpoonup> 'a)" where
  "drop_threads a n T = (\<lambda>t. if a \<le> t \<and> t < a + n then None else T t)"

lemma new_array_simps [simp]:
  "pools (new_array a n m) = pools m" "tasks (new_array a n m) = tasks m"
  "arrays (new_array a n m) = (arrays m)(a \<mapsto> n)"
  by (simp_all add: new_array_def)

section \<open>The task queue\<close>

definition push_task :: "ptr \<Rightarrow> ptr \<Rightarrow> pool_mem \<Rightarrow> pool_mem res" where
  "push_task pool mytask m =
     bind_res (load (pools m) pool) (\<lambda>p.
     bind_res
       (if no_of_tasks_in_Q p = 0 then
          bind_res (modify_pool pool (\<lambda>p. p\<lparr>taskQ_front := mytask, taskQ_rear := mytask\<rparr>) m) (\<lambda>m1.
          modify_task mytask (\<lambda>t. t\<lparr>task_next := None\<rparr>) m1)
        else
          bind_res (modify_task (taskQ_rear p) (\<lambda>t. t\<lparr>task_next := mytask\<rparr>) m) (\<lambda>m1.
          bind_res (modify_task mytask (\<lambda>t. t\<lparr>task_next := None\<rparr>) m1) (\<lambda>m2.
          modify_pool pool (\<lambda>p. p\<lparr>taskQ_rear := mytask\<rparr>) m2)))
       (modify_pool pool (\<lambda>p. p\<lparr>no_of_tasks_in_Q := no_of_tasks_in_Q p + 1\<rparr>)))"

text \<open>The part of \<open>dispatch\<close> that makes the task.\<close>

definition make_task :: "nat option \<Rightarrow> int \<Rightarrow> pool_mem \<Rightarrow> (ptr \<times> pool_mem) res" where
  "make_task func a m =
     (let (mytask, T) = malloc (tasks m) \<lparr>task_func = func, task_arg = a, task_next = None\<rparr>
      in if mytask = None then Inl NullDeref else Inr (mytask, m\<lparr>tasks := T\<rparr>))"

text \<open>
  The part of the worker's loop between the wait and the second signal: the task at the front, with
  the queue without it.
\<close>

definition take_task :: "ptr \<Rightarrow> pool_mem \<Rightarrow> (ptr \<times> pool_mem) res" where
  "take_task pool m =
     bind_res (load (pools m) pool) (\<lambda>p.
     let cur = taskQ_front p in
     bind_res (modify_pool pool (\<lambda>p. p\<lparr>no_of_tasks_in_Q := no_of_tasks_in_Q p - 1\<rparr>) m) (\<lambda>m1.
     bind_res
       (if no_of_tasks_in_Q p - 1 = 0 then
          modify_pool pool (\<lambda>p. p\<lparr>taskQ_front := None, taskQ_rear := None\<rparr>) m1
        else
          bind_res (load (tasks m1) cur) (\<lambda>t.
          modify_pool pool (\<lambda>p. p\<lparr>taskQ_front := task_next t\<rparr>) m1))
       (\<lambda>m2. Inr (cur, m2))))"

section \<open>A worker\<close>

text \<open>
  Where a worker stands: before it locks the mutex, before its test of the task count (with the
  mutex held), or with a task in its hands. \<open>call\<close> is what the client's functions do when they are
  called; they are not part of the repository.
\<close>

datatype worker_at = At_lock | At_test | At_run ptr

type_synonym client_call = "nat \<Rightarrow> int \<Rightarrow> pool_mem \<times> lib \<Rightarrow> (pool_mem \<times> lib) res"

definition take_and_release :: "ptr \<Rightarrow> pool_mem \<times> lib \<Rightarrow> (ptr \<times> pool_mem \<times> lib) res" where
  "take_and_release pool = (\<lambda>(m, s).
     bind_res (take_task pool m) (\<lambda>(cur, m1).
     bind_res (load (pools m1) pool) (\<lambda>p.
     bind_res (if no_of_tasks_in_Q p = 0 then mypthread_cond_signal (pool_cond p) s
               else Inr (Returned 0, s)) (\<lambda>(_, s1).
     bind_res (mypthread_mutex_unlock (pool_mutex p) s1) (\<lambda>(_, s2).
     Inr (cur, m1, s2))))))"

fun threadpool_scheduler ::
  "int \<Rightarrow> client_call \<Rightarrow> ptr \<Rightarrow> worker_at \<Rightarrow> pool_mem \<times> lib \<Rightarrow>
     (outcome \<times> worker_at \<times> pool_mem \<times> lib) res"
where
  "threadpool_scheduler tid call pool At_lock (m, s) =
     bind_res (load (pools m) pool) (\<lambda>p.
     bind_res (mypthread_mutex_lock tid (pool_mutex p) s) (\<lambda>(out, s1).
     Inr (out, At_test, m, s1)))"
| "threadpool_scheduler tid call pool At_test (m, s) =
     bind_res (load (pools m) pool) (\<lambda>p.
     if no_of_tasks_in_Q p = 0 then
       bind_res (mypthread_cond_wait tid (pool_cond p) (pool_mutex p) s) (\<lambda>(out, s1).
       Inr (out, At_test, m, s1))
     else
       bind_res (take_and_release pool (m, s)) (\<lambda>(cur, m1, s1).
       Inr (Returned 0, At_run cur, m1, s1)))"
| "threadpool_scheduler tid call pool (At_run cur) (m, s) =
     bind_res (load (tasks m) cur) (\<lambda>t.
     case task_func t of
       None \<Rightarrow> Inl NullDeref
     | Some f \<Rightarrow>
         bind_res (call f (task_arg t) (m, s)) (\<lambda>(m1, s1).
         bind_res (free_cell (tasks m1) cur) (\<lambda>T.
         Inr (Returned 0, At_lock, m1\<lparr>tasks := T\<rparr>, s1))))"

section \<open>Creating, feeding and destroying a pool\<close>

text \<open>
  The library addresses of the start routine \<open>threadpool_scheduler\<close>, and what the environment
  decides when a pool is made: whether there is memory for the thread array, the addresses of the
  pool's mutex, condition and threads, what the uninitialised \<open>no_of_running_threads\<close> holds, and
  what \<open>clone\<close> answers.
\<close>

definition worker_routine :: nat where "worker_routine = 7"

record pool_env =
  array_ok :: bool
  mutex_at :: nat
  cond_at :: nat
  threads_at :: nat
  junk_running :: int
  clone_env :: clone_result

text \<open>The first result says whether all threads were made.\<close>

fun create_workers ::
  "int \<Rightarrow> pool_env \<Rightarrow> nat \<Rightarrow> nat \<Rightarrow> nat \<Rightarrow> pool_mem \<times> lib \<Rightarrow> (bool \<times> pool_mem \<times> lib) res" where
  "create_workers tid env pool i 0 (m, s) = Inr (True, m, s)"
| "create_workers tid env pool i (Suc n) (m, s) =
     bind_res (mypthread_create tid (clone_env env) (threads_at env + i) worker_routine (int pool) s)
       (\<lambda>(r, s1).
     if r \<noteq> Returned 0 then Inr (False, m, s1)
     else
       bind_res (modify_pool (Some pool) (\<lambda>p. p\<lparr>no_of_threads := no_of_threads p + 1,
          no_of_running_threads := no_of_running_threads p + 1\<rparr>) m) (\<lambda>m1.
       create_workers tid env pool (Suc i) n (m1, s1)))"

definition create_threadpool ::
  "int \<Rightarrow> pool_env \<Rightarrow> int \<Rightarrow> int \<Rightarrow> int \<Rightarrow> int \<Rightarrow> pool_mem \<times> lib \<Rightarrow> (ptr \<times> pool_mem \<times> lib) res" where
  "create_threadpool tid env cores hyper num_threads_in_pool mode = (\<lambda>(m, s).
     let s1 = mypthread_init cores hyper mode s in
     if num_threads_in_pool \<le> 0 \<or> num_threads_in_pool > MAXT_IN_POOL then Inr (None, m, s1)
     else
       let (pool, P) = malloc (pools m)
         \<lparr>no_of_threads = num_threads_in_pool, no_of_tasks_in_Q = 0,
           no_of_running_threads = junk_running env, pool_mutex = mutex_at env,
           pool_cond = cond_at env, pool_threads = threads_at env,
           taskQ_front = None, taskQ_rear = None\<rparr>
       in case pool of
            None \<Rightarrow> Inr (None, m, s1)
          | Some a \<Rightarrow>
              if \<not> array_ok env then Inr (None, m\<lparr>pools := P\<rparr>, s1)
              else
                let m1 = new_array (threads_at env) (nat num_threads_in_pool) (m\<lparr>pools := P\<rparr>) in
                bind_res (mypthread_mutex_init (mutex_at env) s1) (\<lambda>(r1, s2).
                if r1 \<noteq> Returned 0 then Inr (None, m1, s2)
                else
                  bind_res (mypthread_cond_init (cond_at env) s2) (\<lambda>(r2, s3).
                  if r2 \<noteq> Returned 0 then Inr (None, m1, s3)
                  else
                    bind_res (create_workers tid env a 0 (nat num_threads_in_pool) (m1, s3))
                      (\<lambda>(made, m4, s4). Inr (if made then pool else None, m4, s4)))))"

text \<open>
  The test \<open>&(pool->no_of_threads) == &(pool->no_of_tasks_in_Q)\<close> compares the addresses of two
  fields and is never true, so the task is always pushed. The test of the arguments only prints.
\<close>

definition dispatch ::
  "int \<Rightarrow> ptr \<Rightarrow> nat option \<Rightarrow> int \<Rightarrow> pool_mem \<times> lib \<Rightarrow> (outcome \<times> pool_mem \<times> lib) res" where
  "dispatch tid from_me dispatch_to_here a = (\<lambda>(m, s).
     bind_res (make_task dispatch_to_here a m) (\<lambda>(mytask, m1).
     bind_res (load (pools m1) from_me) (\<lambda>p.
     bind_res (mypthread_mutex_lock tid (pool_mutex p) s) (\<lambda>(locked, s1).
     case locked of
       Returned _ \<Rightarrow>
         bind_res (push_task from_me mytask m1) (\<lambda>m2.
         bind_res (mypthread_cond_signal (pool_cond p) s1) (\<lambda>(_, s2).
         bind_res (mypthread_cond_signal (pool_cond p) s2) (\<lambda>(_, s3).
         bind_res (mypthread_mutex_unlock (pool_mutex p) s3) (\<lambda>(_, s4).
         bind_res (mypthread_yield tid s4) (\<lambda>(out, s5). Inr (out, m2, s5))))))
     | _ \<Rightarrow> Inr (locked, m1, s1)))))"

text \<open>
  The control blocks of the pool's threads are in its array, so with its release they are gone from
  the library's store.
\<close>

definition destroy_threadpool :: "int \<Rightarrow> ptr \<Rightarrow> pool_mem \<times> lib \<Rightarrow> (outcome \<times> pool_mem \<times> lib) res" where
  "destroy_threadpool tid destroyme = (\<lambda>(m, s).
     bind_res (load (pools m) destroyme) (\<lambda>p.
     bind_res (free_array (pool_threads p) m) (\<lambda>(n, m1).
     bind_res (mypthread_mutex_destroy (pool_mutex p) (s\<lparr>thr := drop_threads (pool_threads p) n (thr s)\<rparr>)) (\<lambda>(_, s1).
     bind_res (mypthread_cond_destroy (pool_cond p) s1) (\<lambda>(_, s2).
     bind_res (mypthread_exit tid s2) (\<lambda>(out, s3). Inr (out, m1, s3)))))))"

section \<open>The task queue as a list\<close>

type_synonym job = "nat option \<times> int"

abbreviation mktask :: "ptr \<Rightarrow> job \<Rightarrow> ptr \<Rightarrow> task" where
  "mktask prev j n \<equiv> \<lparr>task_func = fst j, task_arg = snd j, task_next = n\<rparr>"

definition task_queue :: "nat \<Rightarrow> pool_mem \<Rightarrow> (nat \<times> job) list \<Rightarrow> bool" where
  "task_queue a m xs \<longleftrightarrow>
     (\<exists>p. cells (pools m) a = Some p \<and> no_of_tasks_in_Q p = int (length xs) \<and>
          queue_rep mktask (tasks m) (taskQ_front p) (taskQ_rear p) xs) \<and> heap_ok (tasks m)"

lemma modify_pool_eq:
  "cells (pools m) a = Some p \<Longrightarrow>
   modify_pool (Some a) f m = Inr (m\<lparr>pools := (pools m)\<lparr>cells := (cells (pools m))(a \<mapsto> f p)\<rparr>\<rparr>)"
  by (simp add: modify_pool_def)

lemma modify_task_eq:
  "cells (tasks m) a = Some t \<Longrightarrow>
   modify_task (Some a) f m = Inr (m\<lparr>tasks := (tasks m)\<lparr>cells := (cells (tasks m))(a \<mapsto> f t)\<rparr>\<rparr>)"
  by (simp add: modify_task_def)

text \<open>A new task, queued, and the task at the front, taken and released.\<close>

definition queue_job :: "nat \<Rightarrow> job \<Rightarrow> pool_mem \<Rightarrow> pool_mem res" where
  "queue_job a j m = bind_res (make_task (fst j) (snd j) m) (\<lambda>(t, m1). push_task (Some a) t m1)"

definition next_job :: "nat \<Rightarrow> pool_mem \<Rightarrow> (job option \<times> pool_mem) res" where
  "next_job a m =
     bind_res (load (pools m) (Some a)) (\<lambda>p.
     if no_of_tasks_in_Q p = 0 then Inr (None, m)
     else bind_res (take_task (Some a) m) (\<lambda>(cur, m1).
          bind_res (load (tasks m1) cur) (\<lambda>t.
          bind_res (free_cell (tasks m1) cur) (\<lambda>T.
          Inr (Some (task_func t, task_arg t), m1\<lparr>tasks := T\<rparr>)))))"

lemma make_task_eq:
  "0 < room (tasks m) \<Longrightarrow> make_task func a m = Inr (Some (fresh (tasks m)),
     m\<lparr>tasks := (tasks m)\<lparr>cells := (cells (tasks m))(fresh (tasks m) \<mapsto> mktask None (func, a) None),
                         fresh := Suc (fresh (tasks m)), room := room (tasks m) - 1\<rparr>\<rparr>)"
  by (simp add: make_task_def malloc_room)

lemma queue_job_rep:
  assumes q: "task_queue a m xs" and room: "0 < room (tasks m)"
  obtains m' where "queue_job a j m = Inr m'" "task_queue a m' (xs @ [(fresh (tasks m), j)])"
    "Suc (room (tasks m')) = room (tasks m)" "\<forall>b. b \<noteq> a \<longrightarrow> cells (pools m') b = cells (pools m) b"
proof -
  from q obtain p where p: "cells (pools m) a = Some p" "no_of_tasks_in_Q p = int (length xs)"
    "queue_rep mktask (tasks m) (taskQ_front p) (taskQ_rear p) xs" and ok: "heap_ok (tasks m)"
    by (auto simp: task_queue_def)
  let ?f = "fresh (tasks m)"
  let ?T = "push_heap mktask (tasks m) xs j"
  let ?p = "p\<lparr>taskQ_front := if xs = [] then Some ?f else taskQ_front p, taskQ_rear := Some ?f,
              no_of_tasks_in_Q := no_of_tasks_in_Q p + 1\<rparr>"
  let ?m = "m\<lparr>tasks := ?T, pools := (pools m)\<lparr>cells := (cells (pools m))(a \<mapsto> ?p)\<rparr>\<rparr>"
  have "queue_job a j m = Inr ?m"
  proof (cases xs rule: rev_cases)
    case Nil
    with p(1,2) room show ?thesis
      by (simp add: queue_job_def make_task_eq push_task_def modify_pool_eq modify_task_eq push_heap_def)
  next
    case (snoc ys x)
    have l: "taskQ_rear p = Some (fst x)"
      "cells (tasks m) (fst x) = Some (mktask (last_addr None ys) (snd x) None)"
      using queue_rep_last [OF p(3) [unfolded snoc]] by simp_all
    have "fst x \<noteq> ?f" using queue_rep_addr [OF p(3) ok] snoc by auto
    with p(1,2) l snoc room show ?thesis
      by (simp add: queue_job_def make_task_eq push_task_def modify_pool_eq modify_task_eq push_heap_def
          fun_upd_twist)
  qed
  moreover have "task_queue a ?m (xs @ [(?f, j)])"
    using queue_rep_push [OF p(3) ok, of j] heap_ok_push [OF p(3) ok, of j] p(2)
    by (simp add: task_queue_def)
  ultimately show ?thesis using room by (intro that [of ?m]) simp_all
qed

lemma take_task_rep:
  assumes q: "task_queue a m (x # xs)"
  obtains m' where "take_task (Some a) m = Inr (Some (fst x), m')" "tasks m' = tasks m"
    "cells (tasks m) (fst x) = Some (mktask None (snd x) (first_addr xs None))"
    "\<forall>T. (\<forall>y\<in>set xs. cells T (fst y) = cells (tasks m) (fst y)) \<and> heap_ok T \<longrightarrow>
       task_queue a (m'\<lparr>tasks := T\<rparr>) xs"
    "\<forall>b. b \<noteq> a \<longrightarrow> cells (pools m') b = cells (pools m) b"
    "\<exists>p p'. cells (pools m) a = Some p \<and> cells (pools m') a = Some p' \<and>
       pool_mutex p' = pool_mutex p \<and> pool_cond p' = pool_cond p \<and> no_of_tasks_in_Q p' = int (length xs)"
proof -
  from q obtain p where p: "cells (pools m) a = Some p" "no_of_tasks_in_Q p = 1 + int (length xs)"
    "queue_rep mktask (tasks m) (taskQ_front p) (taskQ_rear p) (x # xs)"
    by (auto simp: task_queue_def)
  then have c: "cells (tasks m) (fst x) = Some (mktask None (snd x) (first_addr xs None))"
    "taskQ_front p = Some (fst x)" by (auto simp: queue_rep_def chain_rep_def)
  let ?p = "p\<lparr>no_of_tasks_in_Q := int (length xs), taskQ_front := first_addr xs None,
              taskQ_rear := if xs = [] then None else taskQ_rear p\<rparr>"
  let ?m = "m\<lparr>pools := (pools m)\<lparr>cells := (cells (pools m))(a \<mapsto> ?p)\<rparr>\<rparr>"
  have "take_task (Some a) m = Inr (Some (fst x), ?m)"
  proof (cases xs)
    case Nil
    with p(1,2) c show ?thesis by (simp add: take_task_def modify_pool_eq Let_def)
  next
    case (Cons y ys)
    then have "?p = p\<lparr>no_of_tasks_in_Q := int (length xs), taskQ_front := first_addr xs None\<rparr>" by simp
    with Cons p(1,2) c show ?thesis by (simp add: take_task_def modify_pool_eq Let_def)
  qed
  moreover have "task_queue a (?m\<lparr>tasks := T\<rparr>) xs"
    if T: "\<forall>y\<in>set xs. cells T (fst y) = cells (tasks m) (fst y)" "heap_ok T" for T
  proof -
    have "dll mktask (tasks m) (Some (fst x)) xs None" using p(3) by (simp add: queue_rep_def chain_rep_def)
    then have "dll mktask T (Some (fst x)) xs None" using dll_cong_cells [of xs T "tasks m" mktask] T(1) by blast
    moreover have "dll mktask T (Some (fst x)) xs None = dll mktask T None xs None"
      by (cases xs) simp_all
    ultimately show ?thesis
      using p(3) T(2) by (auto simp: task_queue_def queue_rep_def chain_rep_def)
  qed
  ultimately show ?thesis using c(1) p(1) by (intro that [of ?m]) auto
qed

lemma next_job_rep:
  assumes q: "task_queue a m (x # xs)"
  obtains m' where "next_job a m = Inr (Some (snd x), m')" "task_queue a m' xs"
    "room (tasks m') = Suc (room (tasks m))"
proof -
  obtain m1 where m1: "take_task (Some a) m = Inr (Some (fst x), m1)" "tasks m1 = tasks m"
    "cells (tasks m) (fst x) = Some (mktask None (snd x) (first_addr xs None))"
    "\<forall>T. (\<forall>y\<in>set xs. cells T (fst y) = cells (tasks m) (fst y)) \<and> heap_ok T \<longrightarrow>
       task_queue a (m1\<lparr>tasks := T\<rparr>) xs"
    "\<forall>b. b \<noteq> a \<longrightarrow> cells (pools m1) b = cells (pools m) b"
    "\<exists>p p'. cells (pools m) a = Some p \<and> cells (pools m1) a = Some p' \<and>
       pool_mutex p' = pool_mutex p \<and> pool_cond p' = pool_cond p \<and> no_of_tasks_in_Q p' = int (length xs)"
    by (rule take_task_rep [OF q])
  from q obtain p where p: "cells (pools m) a = Some p" "no_of_tasks_in_Q p = 1 + int (length xs)"
    and ok: "heap_ok (tasks m)" and d: "fst x \<notin> fst ` set xs"
    by (auto simp: task_queue_def queue_rep_def chain_rep_def)
  let ?T = "(tasks m)\<lparr>cells := (cells (tasks m))(fst x := None), room := Suc (room (tasks m))\<rparr>"
  have "heap_ok ?T" using ok by (auto simp: heap_ok_iff split: if_splits)
  moreover have "\<forall>y\<in>set xs. fst y \<noteq> fst x" using d by (metis image_eqI)
  then have "\<forall>y\<in>set xs. cells ?T (fst y) = cells (tasks m) (fst y)" by simp
  ultimately have "task_queue a (m1\<lparr>tasks := ?T\<rparr>) xs" using m1(4) by blast
  moreover have "next_job a m = Inr (Some (snd x), m1\<lparr>tasks := ?T\<rparr>)"
    using p m1(1,2,3) by (simp add: next_job_def)
  ultimately show ?thesis by (intro that [of "m1\<lparr>tasks := ?T\<rparr>"]) simp_all
qed

text \<open>The task queue provides the first-in first-out interface, bounded by the memory for tasks.\<close>

definition jobs :: "nat \<Rightarrow> pool_mem \<Rightarrow> job list \<Rightarrow> bool" where
  "jobs a m js \<longleftrightarrow> (\<exists>xs. task_queue a m xs \<and> map snd xs = js)"

interpretation tq: fifo "jobs a" "\<lambda>_. True" "\<lambda>m. room (tasks m)" "queue_job a" "next_job a" for a
proof unfold_locales
  fix m js j
  assume "jobs a m js" and r: "0 < room (tasks m)"
  then obtain xs where xs: "task_queue a m xs" "map snd xs = js" by (auto simp: jobs_def)
  obtain m' where "queue_job a j m = Inr m'" "task_queue a m' (xs @ [(fresh (tasks m), j)])"
    "Suc (room (tasks m')) = room (tasks m)" "\<forall>b. b \<noteq> a \<longrightarrow> cells (pools m') b = cells (pools m) b"
    by (rule queue_job_rep [OF xs(1) r])
  with xs(2) show "\<exists>m'. queue_job a j m = Inr m' \<and> jobs a m' (js @ [j]) \<and> Suc (room (tasks m')) = room (tasks m)"
    unfolding jobs_def by force
next
  fix m j js
  assume "jobs a m (j # js)"
  then obtain x xs where xs: "task_queue a m (x # xs)" "snd x = j" "map snd xs = js"
    by (auto simp: jobs_def)
  obtain m' where "next_job a m = Inr (Some (snd x), m')" "task_queue a m' xs"
    "room (tasks m') = Suc (room (tasks m))"
    by (rule next_job_rep [OF xs(1)])
  with xs show "\<exists>m'. next_job a m = Inr (Some j, m') \<and> jobs a m' js \<and> room (tasks m') = Suc (room (tasks m))"
    unfolding jobs_def by force
next
  fix m
  assume "jobs a m []"
  then show "next_job a m = Inr (None, m)"
    by (auto simp: jobs_def task_queue_def next_job_def)
qed

text \<open>What the creation of the workers counts.\<close>

lemma create_workers_counts:
  "\<lbrakk>create_workers tid env a i n (m, s) = Inr (True, m', s'); cells (pools m) a = Some p\<rbrakk> \<Longrightarrow>
   tasks m' = tasks m \<and> arrays m' = arrays m \<and> cells (pools m') a = Some (p\<lparr>no_of_threads := no_of_threads p + int n,
     no_of_running_threads := no_of_running_threads p + int n\<rparr>)"
proof (induction n arbitrary: i m s p)
  case (Suc n)
  from Suc.prems obtain out s1 where c: "create_workers tid env a (Suc i) n
      (m\<lparr>pools := (pools m)\<lparr>cells := (cells (pools m))(a \<mapsto> p\<lparr>no_of_threads := no_of_threads p + 1,
        no_of_running_threads := no_of_running_threads p + 1\<rparr>)\<rparr>\<rparr>, s1) = Inr (True, m', s')"
    by (auto simp: bind_res_Inr_iff modify_pool_eq split: if_splits)
  from Suc.IH [OF c] show ?case by (simp add: algebra_simps)
qed simp

end
