(* ===== verification/Net_IO.thy ===== *)
theory Net_IO
  imports C_Memory
begin

text \<open>
  Bytes over sockets. What the kernel does with a connection is given by two lists: what arrives on
  it (\<open>arrival\<close>), in pieces of any size, and how much each \<open>write\<close> takes (\<open>taking\<close>). \<open>sys_read\<close> and
  \<open>sys_write\<close> are the system calls on these lists; \<open>correct_read\<close>, \<open>correct_write\<close> and
  \<open>send_response\<close> are the routines of \<open>server/common.c\<close> on them. Bytes are \<open>char\<close>s.
\<close>

section \<open>The system calls\<close>

definition EINTR :: int where "EINTR = 4"
definition EBADF :: int where "EBADF = 9"
definition EAGAIN :: int where "EAGAIN = 11"

definition NUL :: char where "NUL = CHR 0x00"

text \<open>
  A piece of data arrives, the peer closes its end (every later \<open>read\<close> returns 0), or a \<open>read\<close>
  fails with an \<open>errno\<close>.
\<close>

datatype arrival = Bytes "char list" | Hangup | Read_fails int

text \<open>A \<open>write\<close> takes at most this many bytes, or fails with an \<open>errno\<close>.\<close>

datatype taking = Takes nat | Write_fails int

text \<open>
  \<open>read\<close> of up to \<open>n\<close> bytes: its result, the \<open>errno\<close> if it is -1, the bytes, and what has still to
  arrive. With nothing left to arrive the caller sleeps for ever.
\<close>

fun sys_read :: "nat \<Rightarrow> arrival list \<Rightarrow> (int \<times> int \<times> char list \<times> arrival list) res" where
  "sys_read n [] = Inl SysBlocked"
| "sys_read n (Bytes bs # es) =
     (if bs = [] then sys_read n es
      else Inr (int (length (take n bs)), 0, take n bs,
                if drop n bs = [] then es else Bytes (drop n bs) # es))"
| "sys_read n (Hangup # es) = Inr (0, 0, [], Hangup # es)"
| "sys_read n (Read_fails e # es) = Inr (-1, e, [], es)"

text \<open>\<open>write\<close> of the given bytes: its result, the \<open>errno\<close>, and the bytes taken.\<close>

fun sys_write :: "char list \<Rightarrow> taking \<Rightarrow> int \<times> int \<times> char list" where
  "sys_write bs (Takes k) = (int (length (take k bs)), 0, take k bs)"
| "sys_write bs (Write_fails e) = (-1, e, [])"

text \<open>The third argument of \<open>read\<close> and \<open>write\<close> is a \<open>size_t\<close>: a negative \<open>int\<close> wraps around.\<close>

definition as_size :: "int \<Rightarrow> nat" where "as_size n = nat (n mod 2 ^ 64)"

lemma as_size_nonneg: "0 \<le> n \<Longrightarrow> n < 2 ^ 64 \<Longrightarrow> as_size n = nat n"
  by (simp add: as_size_def)

text \<open>The kernel's copy of the bytes into the caller's buffer, at an offset.\<close>

definition put_bytes :: "char list \<Rightarrow> int \<Rightarrow> char list \<Rightarrow> char list res" where
  "put_bytes data off bs =
     (if nat off + length bs \<le> length data
      then Inr (take (nat off) data @ bs @ drop (nat off + length bs) data)
      else Inl BufferOverflow)"

text \<open>How much has still to be read: every data piece counts its bytes and itself.\<close>

fun weight :: "arrival list \<Rightarrow> nat" where
  "weight [] = 0"
| "weight (Bytes bs # es) = Suc (length bs) + weight es"
| "weight (_ # es) = Suc (weight es)"

lemma sys_read_weight:
  "sys_read n es = Inr (ret, e, bs, es') \<Longrightarrow> ret = -1 \<or> 0 < ret \<Longrightarrow> weight es' < weight es"
  by (induction n es rule: sys_read.induct) (auto split: if_splits)

section \<open>\<open>common.c\<close>\<close>

function read_loop ::
  "int \<Rightarrow> int \<Rightarrow> char list \<Rightarrow> arrival list \<Rightarrow> (int \<times> char list \<times> arrival list) res"
where
  "read_loop len sofar data es =
     (if sofar = len then Inr (len, data, es)
      else
        bind_res (sys_read (as_size (len - sofar)) es) (\<lambda>(ret, errno, bs, es1).
        if ret \<le> 0 then
          (if \<not> (ret = -1 \<and> (errno = EAGAIN \<or> errno = EINTR)) then Inr (ret, data, es1)
           else read_loop len sofar data es1)
        else
          bind_res (put_bytes data sofar bs) (\<lambda>data1.
          read_loop len (sofar + ret) data1 es1)))"
  by pat_completeness auto
termination
  by (relation "measure (\<lambda>(_, _, _, es). weight es)") (auto dest: sys_read_weight)

declare read_loop.simps [simp del]

definition correct_read ::
  "char list \<Rightarrow> int \<Rightarrow> arrival list \<Rightarrow> (int \<times> char list \<times> arrival list) res" where
  "correct_read data len es = read_loop len 0 data es"

text \<open>
  \<open>strlen\<close>: the characters before the first NUL. \<open>correct_write\<close> reads from the buffer \<open>data\<close>, and
  \<open>wire\<close> is what the peer has been sent.
\<close>

definition c_strlen :: "char list \<Rightarrow> int res" where
  "c_strlen data = (if NUL \<in> set data then Inr (int (length (takeWhile (\<lambda>c. c \<noteq> NUL) data)))
                    else Inl BufferOverflow)"

definition get_bytes :: "char list \<Rightarrow> int \<Rightarrow> nat \<Rightarrow> char list res" where
  "get_bytes data off n =
     (if nat off + n \<le> length data then Inr (take n (drop (nat off) data)) else Inl BufferOverflow)"

fun write_loop ::
  "int \<Rightarrow> int \<Rightarrow> char list \<Rightarrow> char list \<Rightarrow> taking list \<Rightarrow> (int \<times> char list \<times> taking list) res"
where
  "write_loop len sofar data wire ts =
     (if sofar = len then Inr (len, wire, ts)
      else
        case ts of
          [] \<Rightarrow> Inl SysBlocked
        | t # ts1 \<Rightarrow>
            bind_res (get_bytes data sofar (as_size (len - sofar))) (\<lambda>bs.
            let (ret, errno, sent) = sys_write bs t in
            if ret \<le> 0 then
              (if \<not> (ret = -1 \<and> (errno = EAGAIN \<or> errno = EINTR)) then Inr (ret, wire, ts1)
               else write_loop len sofar data wire ts1)
            else write_loop len (sofar + ret) data (wire @ sent) ts1))"

declare write_loop.simps [simp del]

definition correct_write ::
  "char list \<Rightarrow> int \<Rightarrow> char list \<Rightarrow> taking list \<Rightarrow> (int \<times> char list \<times> taking list) res" where
  "correct_write data len wire ts =
     bind_res (if len = -1 then c_strlen data else Inr len) (\<lambda>len1.
     write_loop len1 0 data wire ts)"

definition send_response ::
  "char list \<Rightarrow> int \<Rightarrow> char list \<Rightarrow> taking list \<Rightarrow> (char list \<times> taking list) res" where
  "send_response response response_length wire ts =
     bind_res (correct_write response response_length wire ts) (\<lambda>(_, wire1, ts1). Inr (wire1, ts1))"

section \<open>What arrives\<close>

text \<open>
  The bytes a reader that does not give up can get, and how they end: nothing more comes, the peer
  has closed, or the connection fails. Interrupted reads do not count.
\<close>

datatype ending = Waits | Closes | Breaks

fun incoming :: "arrival list \<Rightarrow> char list \<times> ending" where
  "incoming [] = ([], Waits)"
| "incoming (Bytes bs # es) = (bs @ fst (incoming es), snd (incoming es))"
| "incoming (Hangup # es) = ([], Closes)"
| "incoming (Read_fails e # es) =
     (if e = EAGAIN \<or> e = EINTR then incoming es else ([], Breaks))"

lemma sys_read_cases [consumes 1, case_names blocked data again closed broken]:
  assumes "0 < n"
  obtains "sys_read n es = Inl SysBlocked" "incoming es = ([], Waits)"
  | bs es' where "sys_read n es = Inr (int (length bs), 0, bs, es')" "bs \<noteq> []" "length bs \<le> n"
      "incoming es = (bs @ fst (incoming es'), snd (incoming es'))"
  | e es' where "sys_read n es = Inr (-1, e, [], es')" "e = EAGAIN \<or> e = EINTR" "incoming es = incoming es'"
  | es' where "sys_read n es = Inr (0, 0, [], es')" "incoming es = ([], Closes)"
  | e es' where "sys_read n es = Inr (-1, e, [], es')" "e \<noteq> EAGAIN" "e \<noteq> EINTR" "incoming es = ([], Breaks)"
  using assms
proof (induction n es arbitrary: thesis rule: sys_read.induct)
  case (2 n bs es)
  show ?case
  proof (cases "bs = []")
    case True
    with 2 show ?thesis by fastforce
  next
    case False
    have c: "bs = take n bs @ drop n bs" by simp
    show ?thesis
    proof (rule "2.prems"(2))
      show "sys_read n (Bytes bs # es) = Inr (int (length (take n bs)), 0, take n bs,
          if drop n bs = [] then es else Bytes (drop n bs) # es)" using False by simp
      show "incoming (Bytes bs # es) =
          (take n bs @ fst (incoming (if drop n bs = [] then es else Bytes (drop n bs) # es)),
           snd (incoming (if drop n bs = [] then es else Bytes (drop n bs) # es)))"
        by (simp add: append_assoc [symmetric] del: append_assoc)
    qed (use False "2.prems"(6) in auto)
  qed
qed fastforce+

text \<open>
  \<open>correct_read\<close> completely: with enough bytes coming it fills the buffer with the next \<open>len\<close> of
  them, in whatever pieces they arrive; otherwise it answers what ends the stream.
\<close>

definition read_outcome ::
  "int \<Rightarrow> nat \<Rightarrow> char list \<Rightarrow> arrival list \<Rightarrow> (int \<times> char list \<times> arrival list) res \<Rightarrow> bool" where
  "read_outcome len need data es r \<longleftrightarrow>
     (if need \<le> length (fst (incoming es))
      then \<exists>es'. r = Inr (len, take (nat len - need) data @ take need (fst (incoming es)) @ drop (nat len) data, es') \<and>
             incoming es' = (drop need (fst (incoming es)), snd (incoming es))
      else case snd (incoming es) of
             Waits \<Rightarrow> r = Inl SysBlocked
           | Closes \<Rightarrow> \<exists>data' es'. r = Inr (0, data', es')
           | Breaks \<Rightarrow> \<exists>data' es'. r = Inr (-1, data', es'))"

lemma put_bytes_ok:
  "\<lbrakk>0 \<le> off; nat off + length bs \<le> length data\<rbrakk> \<Longrightarrow>
   put_bytes data off bs = Inr (take (nat off) data @ bs @ drop (nat off + length bs) data)"
  by (simp add: put_bytes_def)

lemma read_loop_outcome:
  assumes "0 \<le> sofar" and "sofar \<le> len" and "len < 2 ^ 31" and "nat len \<le> length data"
  shows "read_outcome len (nat (len - sofar)) data es (read_loop len sofar data es)"
  using assms
proof (induction len sofar data es rule: read_loop.induct)
  case (1 len sofar data es)
  show ?case
  proof (cases "sofar = len")
    case True
    then show ?thesis by (simp add: read_outcome_def read_loop.simps)
  next
    case False
    with "1.prems" have pos: "0 < nat (len - sofar)" and sz: "as_size (len - sofar) = nat (len - sofar)"
      by (simp_all add: as_size_nonneg)
    from pos show ?thesis
    proof (cases rule: sys_read_cases [where es = es])
      case blocked
      with False pos sz show ?thesis by (simp add: read_outcome_def read_loop.simps)
    next
      case (data bs es')
      let ?d = "take (nat sofar) data @ bs @ drop (nat sofar + length bs) data"
      have put: "put_bytes data sofar bs = Inr ?d"
        using "1.prems" data(3) by (intro put_bytes_ok) auto
      have l: "nat len \<le> length ?d" using "1.prems" data(3) by auto
      have step: "read_loop len sofar data es = read_loop len (sofar + int (length bs)) ?d es'"
        using False sz data(1,2) put by (subst read_loop.simps) simp
      have IH: "read_outcome len (nat (len - (sofar + int (length bs)))) ?d es'
          (read_loop len (sofar + int (length bs)) ?d es')"
        using "1.IH"(2) [OF False, of _ "int (length bs)" _ 0 _ bs] False sz data(1,2,3) put "1.prems" l
        by auto
      have n: "nat (len - (sofar + int (length bs))) = nat (len - sofar) - length bs" by simp
      have k: "nat len - nat (len - sofar) = nat sofar"
        "nat len - (nat (len - sofar) - length bs) = nat sofar + length bs"
        using "1.prems" data(3) by auto
      have a: "take (nat sofar + length bs) ?d = take (nat sofar) data @ bs"
        using "1.prems" data(3) by simp
      have b: "drop (nat len) ?d = drop (nat len) data"
        using "1.prems" data(3) by (auto simp: min_def)
      have c: "(nat (len - sofar) \<le> length (bs @ fst (incoming es'))) =
          (nat (len - sofar) - length bs \<le> length (fst (incoming es')))" by auto
      have e: "take (nat (len - sofar)) (bs @ fst (incoming es')) =
          bs @ take (nat (len - sofar) - length bs) (fst (incoming es'))"
        "drop (nat (len - sofar)) (bs @ fst (incoming es')) =
          drop (nat (len - sofar) - length bs) (fst (incoming es'))"
        using data(3) by simp_all
      show ?thesis
        using IH unfolding step n read_outcome_def k a b data(4) fst_conv snd_conv c e
        by (simp only: append_assoc)
    next
      case (again e es')
      with "1.IH"(1) [OF False] "1.prems" False sz show ?thesis
        by (subst read_loop.simps) (auto simp: read_outcome_def)
    next
      case (closed es')
      with False pos sz show ?thesis
        by (simp add: read_outcome_def read_loop.simps EAGAIN_def EINTR_def)
    next
      case (broken e es')
      with False pos sz show ?thesis by (simp add: read_outcome_def read_loop.simps)
    qed
  qed
qed

section \<open>What is sent\<close>

lemma write_loop_len [simp]: "write_loop len len data wire ts = Inr (len, wire, ts)"
  by (subst write_loop.simps) simp

lemma write_loop_blocked [simp]:
  "sofar \<noteq> len \<Longrightarrow> write_loop len sofar data wire [] = Inl SysBlocked"
  by (subst write_loop.simps) simp

text \<open>One turn of the loop, within the bounds of the buffer.\<close>

lemma write_loop_Cons:
  assumes "0 \<le> sofar" "sofar < len" "len < 2 ^ 31" "nat len \<le> length data"
  shows "write_loop len sofar data wire (Takes 0 # ts) = Inr (0, wire, ts)"
    and "0 < k \<Longrightarrow> write_loop len sofar data wire (Takes k # ts) =
      write_loop len (min len (sofar + int k)) data
        (wire @ take (min k (nat (len - sofar))) (drop (nat sofar) data)) ts"
    and "write_loop len sofar data wire (Write_fails e # ts) =
      (if e = EAGAIN \<or> e = EINTR then write_loop len sofar data wire ts else Inr (-1, wire, ts))"
proof -
  have sz: "as_size (len - sofar) = nat (len - sofar)" using assms by (simp add: as_size_nonneg)
  have g: "get_bytes data sofar (nat (len - sofar)) = Inr (take (nat (len - sofar)) (drop (nat sofar) data))"
    using assms by (auto simp: get_bytes_def)
  show "write_loop len sofar data wire (Takes 0 # ts) = Inr (0, wire, ts)"
    using assms sz g by (subst write_loop.simps) simp
  show "write_loop len sofar data wire (Write_fails e # ts) =
      (if e = EAGAIN \<or> e = EINTR then write_loop len sofar data wire ts else Inr (-1, wire, ts))"
    using assms sz g by (subst write_loop.simps) simp
  assume k: "0 < k"
  have m: "min (min k (nat (len - sofar))) (length (drop (nat sofar) data)) = min k (nat (len - sofar))"
    using assms by auto
  have s: "sofar + int (min (nat (len - sofar)) k) = min len (sofar + int k)" using assms by auto
  have p: "0 < min k (nat (len - sofar))" using k assms by auto
  show "write_loop len sofar data wire (Takes k # ts) =
      write_loop len (min len (sofar + int k)) data
        (wire @ take (min k (nat (len - sofar))) (drop (nat sofar) data)) ts"
    using assms sz g m p s by (subst write_loop.simps) (auto simp: take_take min.assoc)
qed

text \<open>
  Whatever the kernel takes at a time, the bytes sent are a prefix of the buffer, and all \<open>len\<close> of
  them when \<open>correct_write\<close> answers \<open>len\<close>; and it does answer \<open>len\<close> when the kernel takes enough.
\<close>

lemma take_more: "take a xs @ take b (drop a xs) = take (a + b) xs"
  by (simp add: take_add)

lemma write_loop_prefix:
  assumes "0 \<le> sofar" "sofar \<le> len" "len < 2 ^ 31" "nat len \<le> length data"
    and "write_loop len sofar data (w @ take (nat sofar) data) ts = Inr (ret, wire, ts')"
  shows "(ret = len \<and> wire = w @ take (nat len) data) \<or>
    (ret \<le> 0 \<and> (\<exists>k < nat len. wire = w @ take k data))"
  using assms
proof (induction ts arbitrary: sofar)
  case Nil
  then show ?case by (cases "sofar = len") auto
next
  case (Cons t ts)
  show ?case
  proof (cases "sofar = len")
    case True
    with Cons.prems show ?thesis by auto
  next
    case False
    with Cons.prems have lt: "sofar < len" by simp
    note C = write_loop_Cons [OF Cons.prems(1) lt Cons.prems(3,4)]
    have ex: "\<exists>k < nat len. w @ take (nat sofar) data = w @ take k data"
      using lt Cons.prems(1) by (intro exI [of _ "nat sofar"]) auto
    show ?thesis
    proof (cases t)
      case (Takes k)
      show ?thesis
      proof (cases "k = 0")
        case True
        with Takes C(1) Cons.prems(5) ex show ?thesis by auto
      next
        case False
        have n: "nat sofar + min k (nat (len - sofar)) = nat (min len (sofar + int k))"
          using Cons.prems(1) lt by auto
        from False Cons.prems(5) Takes C(2) [of k] have
          "write_loop len (min len (sofar + int k)) data
             (w @ take (nat (min len (sofar + int k))) data) ts = Inr (ret, wire, ts')"
          by (simp add: take_more n)
        from Cons.IH [OF _ _ Cons.prems(3,4) this] Cons.prems(1) lt show ?thesis by auto
      qed
    next
      case (Write_fails e)
      with Cons.prems(5) C(3) ex Cons.IH [OF Cons.prems(1-4)] show ?thesis by (auto split: if_splits)
    qed
  qed
qed

fun taken :: "taking list \<Rightarrow> nat" where
  "taken [] = 0"
| "taken (Takes k # ts) = k + taken ts"
| "taken (_ # ts) = taken ts"

definition steady :: "taking list \<Rightarrow> bool" where
  "steady ts \<longleftrightarrow> (\<forall>t\<in>set ts. case t of Takes k \<Rightarrow> 0 < k | Write_fails e \<Rightarrow> e = EAGAIN \<or> e = EINTR)"

lemma write_loop_completes:
  assumes "0 \<le> sofar" "sofar \<le> len" "len < 2 ^ 31" "nat len \<le> length data"
    and "steady ts" and "nat (len - sofar) \<le> taken ts"
  shows "\<exists>wire ts'. write_loop len sofar data w ts = Inr (len, wire, ts')"
  using assms
proof (induction ts arbitrary: sofar w)
  case (Cons t ts)
  show ?case
  proof (cases "sofar = len")
    case False
    with Cons.prems have lt: "sofar < len" by simp
    note C = write_loop_Cons [OF Cons.prems(1) lt Cons.prems(3,4)]
    from Cons.prems(5) have st: "steady ts" by (simp add: steady_def)
    show ?thesis
    proof (cases t)
      case (Takes k)
      with Cons.prems have k: "0 < k" "nat (len - min len (sofar + int k)) \<le> taken ts"
        by (auto simp: steady_def)
      have b: "0 \<le> min len (sofar + int k)" "min len (sofar + int k) \<le> len" using Cons.prems(1,2) by auto
      from Cons.IH [OF b Cons.prems(3,4) st k(2)] Takes C(2) [OF k(1)] show ?thesis by simp
    next
      case (Write_fails e)
      with Cons.prems C(3) Cons.IH [OF Cons.prems(1-4) st] show ?thesis by (auto simp: steady_def)
    qed
  qed simp
qed auto

lemma write_loop_stop:
  assumes "0 \<le> sofar" "sofar \<le> len" "len < 2 ^ 31" "nat len \<le> length data"
    and "write_loop len sofar data w ts = Inl e"
  shows "e = SysBlocked"
  using assms
proof (induction ts arbitrary: sofar w)
  case Nil
  then show ?case by (cases "sofar = len") auto
next
  case (Cons t ts)
  show ?case
  proof (cases "sofar = len")
    case False
    with Cons.prems have lt: "sofar < len" by simp
    note C = write_loop_Cons [OF Cons.prems(1) lt Cons.prems(3,4)]
    show ?thesis
    proof (cases t)
      case (Takes k)
      have b: "0 \<le> min len (sofar + int k)" "min len (sofar + int k) \<le> len"
        using Cons.prems(1,2) by auto
      from Takes C(1) C(2) [of k] Cons.IH [OF b Cons.prems(3,4)] Cons.prems(5) show ?thesis
        by (cases "k = 0") auto
    next
      case (Write_fails e)
      with Cons.prems(5) C(3) Cons.IH [OF Cons.prems(1-4)] show ?thesis by (auto split: if_splits)
    qed
  qed (use Cons.prems in simp)
qed

section \<open>The routines of \<open>common.c\<close> as a whole\<close>

lemma correct_read_enough:
  assumes "0 \<le> len" "len < 2 ^ 31" "nat len \<le> length data" "nat len \<le> length (fst (incoming es))"
  obtains es' where "correct_read data len es =
      Inr (len, take (nat len) (fst (incoming es)) @ drop (nat len) data, es')"
    "incoming es' = (drop (nat len) (fst (incoming es)), snd (incoming es))"
  using read_loop_outcome [of 0 len data es] assms by (auto simp: read_outcome_def correct_read_def)

text \<open>Every outcome of \<open>correct_read\<close> and \<open>correct_write\<close> within the bounds of the buffer.\<close>

lemma length_put_bytes: "put_bytes data off bs = Inr d \<Longrightarrow> length d = length data"
  by (auto simp: put_bytes_def split: if_splits)

lemma length_read_loop: "read_loop len sofar data es = Inr (r, d, es') \<Longrightarrow> length d = length data"
proof (induction len sofar data es rule: read_loop.induct)
  case (1 len sofar data es)
  note R = "1.prems" [unfolded read_loop.simps [of len sofar data es]]
  show ?case
  proof (cases "sofar = len")
    case False
    with R obtain ret e bs es1 where s: "sys_read (as_size (len - sofar)) es = Inr (ret, e, bs, es1)"
      by (auto elim: bind_res_InrE)
    show ?thesis
    proof (cases "ret \<le> 0")
      case True
      with R False s "1.IH"(1) [OF False s refl refl refl True] show ?thesis by (simp split: if_splits)
    next
      case pos: False
      with R False s obtain d1 where d1: "put_bytes data sofar bs = Inr d1"
        "read_loop len (sofar + ret) d1 es1 = Inr (r, d, es')"
        by (auto elim: bind_res_InrE)
      from "1.IH"(2) [OF False s refl refl refl pos d1] length_put_bytes [OF d1(1)] show ?thesis by simp
    qed
  qed (use R in simp)
qed

lemma correct_read_cases:
  assumes "0 \<le> len" "len < 2 ^ 31" "nat len \<le> length data"
  obtains "correct_read data len es = Inl SysBlocked"
  | r d es' where "correct_read data len es = Inr (r, d, es')" "length d = length data" "r = len \<or> r \<le> 0"
proof (cases "correct_read data len es")
  case (Inl e)
  then have "e = SysBlocked"
    using read_loop_outcome [of 0 len data es] assms
    by (auto simp: read_outcome_def correct_read_def split: if_splits ending.splits)
  with Inl that(1) show ?thesis by simp
next
  case (Inr x)
  obtain r d es' where x: "x = (r, d, es')" by (cases x) auto
  have "r = len \<or> r \<le> 0"
    using read_loop_outcome [of 0 len data es] assms Inr x
    by (auto simp: read_outcome_def correct_read_def split: if_splits ending.splits)
  with Inr x that(2) length_read_loop show ?thesis by (auto simp: correct_read_def)
qed

lemma send_response_cases:
  assumes "0 \<le> len" "len < 2 ^ 31" "nat len \<le> length data"
  obtains "send_response data len w ts = Inl SysBlocked"
  | w' ts' where "send_response data len w ts = Inr (w', ts')"
proof (cases "send_response data len w ts")
  case (Inl e)
  then have "write_loop len 0 data w ts = Inl e"
    using assms(1) by (auto simp: send_response_def correct_write_def elim!: bind_res.elims)
  with write_loop_stop [of 0 len data w ts e] assms Inl that(1) show ?thesis by simp
next
  case (Inr x)
  with that(2) show ?thesis by (cases x) auto
qed

lemma correct_write_whole:
  assumes "0 \<le> len" "len < 2 ^ 31" "nat len \<le> length data" "steady ts" "nat len \<le> taken ts"
  obtains ts' where "correct_write data len w ts = Inr (len, w @ take (nat len) data, ts')"
proof -
  obtain wire ts' where wr: "write_loop len 0 data w ts = Inr (len, wire, ts')"
    using write_loop_completes [of 0 len data ts w] assms by auto
  have "write_loop len 0 data (w @ take (nat 0) data) ts = Inr (len, wire, ts')" using wr by simp
  from write_loop_prefix [OF _ _ assms(2,3) this] assms(1) have "wire = w @ take (nat len) data" by auto
  with wr assms(1) show ?thesis by (intro that [of ts']) (simp add: correct_write_def)
qed

end
