(* ===== verification/Sockets.thy ===== *)
theory Sockets
  imports Utilities Net_IO "HOL-Library.Word"
begin

unbundle bit_operations_syntax

text \<open>
  The small files of \<open>server/SocketLibrary\<close>: \<open>sprim.c\<close>, \<open>sconnect.c\<close>, \<open>slisten.c\<close>, \<open>saccept.c\<close> and
  \<open>sportnum.c\<close>. The name services and the system calls are the environment's (\<open>sys_env\<close>); what the
  files keep is the pair \<open>serrno\<close>, \<open>sename\<close>, and which descriptors they have opened.
\<close>

section \<open>Constants and data\<close>

definition SE_NOERR :: int where "SE_NOERR = 0"
definition SE_SYSERR :: int where "SE_SYSERR = 1"
definition SE_UNKAF :: int where "SE_UNKAF = 2"
definition SE_UNKHOST :: int where "SE_UNKHOST = 3"
definition SE_UNKSERV :: int where "SE_UNKSERV = 4"
definition SE_UNKPROT :: int where "SE_UNKPROT = 5"
definition SE_NONMEM :: int where "SE_NONMEM = 6"

lemmas se_defs = SE_NOERR_def SE_SYSERR_def SE_UNKAF_def SE_UNKHOST_def SE_UNKSERV_def SE_UNKPROT_def
  SE_NONMEM_def

definition AF_INET :: int where "AF_INET = 2"
definition PF_INET :: int where "PF_INET = 2"
definition SOCK_STREAM :: int where "SOCK_STREAM = 1"

text \<open>An address and a port as they lie in memory, in network byte order.\<close>

record sockaddr_in =
  sin_family :: int
  sin_addr :: "32 word"
  sin_port :: "16 word"

record sock_lib =
  serrno :: int
  sename :: "string option"
  open_fds :: "int list"

text \<open>
  What the system answers: \<open>inet_addr\<close>; \<open>gethostbyname\<close> (address family and address);
  \<open>getservbyname\<close> (port in network byte order); \<open>getprotobyname\<close>; the system calls, negative for a
  failure; \<open>getsockname\<close> (result, address family, port); \<open>select\<close> on one descriptor; the \<open>errno\<close> of a
  failed call and the text of \<open>sys_errlist\<close> for it.
\<close>

record sys_env =
  inet_addr :: "string \<Rightarrow> 32 word"
  gethostbyname :: "string \<Rightarrow> (int \<times> 32 word) option"
  getservbyname :: "string \<Rightarrow> string \<Rightarrow> 16 word option"
  getprotobyname :: "string \<Rightarrow> int option"
  socket_call :: "int \<Rightarrow> int \<Rightarrow> int \<Rightarrow> int"
  bind_call :: "int \<Rightarrow> sockaddr_in \<Rightarrow> int"
  connect_call :: "int \<Rightarrow> sockaddr_in \<Rightarrow> int"
  listen_call :: "int \<Rightarrow> int \<Rightarrow> int"
  accept_call :: "int \<Rightarrow> int"
  getsockname_call :: "int \<Rightarrow> int \<times> int \<times> 16 word"
  select_read :: "int \<Rightarrow> int"
  last_errno :: int
  sys_errlist :: "int \<Rightarrow> string"

section \<open>\<open>sprim.c\<close>\<close>

text \<open>\<open>htons\<close> on a little endian machine: the two bytes change places.\<close>

definition htons :: "16 word \<Rightarrow> 16 word" where
  "htons w = push_bit 8 w OR drop_bit 8 w"

definition first_char :: "string \<Rightarrow> char" where
  "first_char s = (case s of [] \<Rightarrow> NUL | c # _ \<Rightarrow> c)"

definition sclrerr :: "sock_lib \<Rightarrow> sock_lib" where
  "sclrerr l = l\<lparr>serrno := SE_NOERR, sename := None\<rparr>"

text \<open>The two halves of \<open>make_inetaddr\<close>: the host address and the port.\<close>

definition inet_host ::
  "sys_env \<Rightarrow> string option \<Rightarrow> sockaddr_in \<Rightarrow> sock_lib \<Rightarrow> int \<times> sockaddr_in \<times> sock_lib" where
  "inet_host env hostname a l =
     (case hostname of
        None \<Rightarrow> (0, a\<lparr>sin_addr := 0\<rparr>, l)
      | Some h \<Rightarrow>
          if isdigit (first_char h) then (0, a\<lparr>sin_addr := inet_addr env h\<rparr>, l)
          else (case gethostbyname env h of
                  None \<Rightarrow> (-1, a, l\<lparr>serrno := SE_UNKHOST, sename := Some ''gethostbyname''\<rparr>)
                | Some (addrtype, addr) \<Rightarrow>
                    if addrtype \<noteq> AF_INET then (-1, a, l\<lparr>serrno := SE_UNKAF\<rparr>)
                    else (0, a\<lparr>sin_addr := addr\<rparr>, l)))"

definition inet_port ::
  "sys_env \<Rightarrow> string option \<Rightarrow> sockaddr_in \<Rightarrow> sock_lib \<Rightarrow> int \<times> sockaddr_in \<times> sock_lib" where
  "inet_port env servicename a l =
     (case servicename of
        None \<Rightarrow> (0, a\<lparr>sin_port := 0\<rparr>, l)
      | Some v \<Rightarrow>
          if isdigit (first_char v) then (0, a\<lparr>sin_port := htons (word_of_int (atoi v))\<rparr>, l)
          else (case getservbyname env v ''tcp'' of
                  None \<Rightarrow> (-1, a, l\<lparr>serrno := SE_UNKSERV, sename := Some ''getservbyname''\<rparr>)
                | Some s_port \<Rightarrow> (0, a\<lparr>sin_port := s_port\<rparr>, l)))"

definition make_inetaddr ::
  "sys_env \<Rightarrow> string option \<Rightarrow> string option \<Rightarrow> sockaddr_in \<Rightarrow> sock_lib \<Rightarrow> int \<times> sockaddr_in \<times> sock_lib" where
  "make_inetaddr env hostname servicename inaddr l =
     (let (r, a, l1) = inet_host env hostname (inaddr\<lparr>sin_family := AF_INET\<rparr>) (sclrerr l)
      in if r < 0 then (r, a, l1) else inet_port env servicename a l1)"

definition protonumber :: "sys_env \<Rightarrow> string \<Rightarrow> sock_lib \<Rightarrow> int \<times> sock_lib" where
  "protonumber env protoname l =
     (case getprotobyname env protoname of
        None \<Rightarrow> (-1, (sclrerr l)\<lparr>serrno := SE_UNKPROT, sename := Some ''getprotobyname''\<rparr>)
      | Some p_proto \<Rightarrow> (p_proto, sclrerr l))"

definition s_errlist :: "string list" where
  "s_errlist = [''no error'', ''system error'', ''unknown address family'', ''unknown host'',
     ''unknown service'', ''unknown protocol'', ''out of memory'']"

text \<open>What \<open>sperror\<close> prints; reading \<open>s_errlist\<close> past its end is the stop \<open>BufferOverflow\<close>.\<close>

definition sperror :: "sys_env \<Rightarrow> string \<Rightarrow> sock_lib \<Rightarrow> string res" where
  "sperror env msg l =
     (let start = msg @ '': '' @ (case sename l of None \<Rightarrow> '''' | Some n \<Rightarrow> n @ '': '')
      in if serrno l = SE_SYSERR then Inr (start @ sys_errlist env (last_errno env) @ [newline])
         else if 0 \<le> serrno l \<and> nat (serrno l) < length s_errlist
              then Inr (start @ s_errlist ! nat (serrno l) @ [newline])
              else Inl BufferOverflow)"

section \<open>\<open>sconnect.c\<close>, \<open>slisten.c\<close>, \<open>saccept.c\<close>, \<open>sportnum.c\<close>\<close>

definition sys_failed :: "string \<Rightarrow> sock_lib \<Rightarrow> int \<times> sock_lib" where
  "sys_failed call l = (-1, l\<lparr>serrno := SE_SYSERR, sename := Some call\<rparr>)"

text \<open>The two addresses on the stack start with unknown contents, \<open>remote\<close> and \<open>local\<close>.\<close>

definition sconnect ::
  "sys_env \<Rightarrow> sockaddr_in \<Rightarrow> sockaddr_in \<Rightarrow> string \<Rightarrow> string \<Rightarrow> sock_lib \<Rightarrow> int \<times> sock_lib" where
  "sconnect env remote local hostname servicename l =
     (let (r1, remote1, l1) = make_inetaddr env (Some hostname) (Some servicename) remote (sclrerr l)
      in if r1 < 0 then (-1, l1)
      else let (protonum, l2) = protonumber env ''tcp'' l1
      in if protonum < 0 then (-1, l2)
      else let s = socket_call env PF_INET SOCK_STREAM protonum
      in if s < 0 then sys_failed ''socket'' l2
      else let (r2, local1, l3) = make_inetaddr env None None local (l2\<lparr>open_fds := s # open_fds l2\<rparr>)
      in if r2 < 0 then (-1, l3)
      else if bind_call env s local1 < 0 then sys_failed ''bind'' l3
      else if connect_call env s remote1 < 0 then sys_failed ''connect'' l3
      else (s, l3))"

definition slisten :: "sys_env \<Rightarrow> sockaddr_in \<Rightarrow> string \<Rightarrow> sock_lib \<Rightarrow> int \<times> sock_lib" where
  "slisten env inaddr servicename l =
     (let (protonum, l1) = protonumber env ''tcp'' (sclrerr l)
      in if protonum < 0 then (-1, l1)
      else let s = socket_call env PF_INET SOCK_STREAM protonum
      in if s < 0 then sys_failed ''socket'' l1
      else let (r, inaddr1, l2) =
             make_inetaddr env None (Some servicename) inaddr (l1\<lparr>open_fds := s # open_fds l1\<rparr>)
      in if r < 0 then (-1, l2)
      else if bind_call env s inaddr1 < 0 then sys_failed ''bind'' l2
      else if listen_call env s 3 < 0 then sys_failed ''listen'' l2
      else (s, l2))"

definition saccept :: "sys_env \<Rightarrow> int \<Rightarrow> sock_lib \<Rightarrow> int \<times> sock_lib" where
  "saccept env s l =
     (let l1 = sclrerr l; ns = accept_call env s
      in if ns < 0 then sys_failed ''accept'' l1 else (ns, l1\<lparr>open_fds := ns # open_fds l1\<rparr>))"

text \<open>\<open>test_accept\<close>: the result, and the new descriptor if there is one.\<close>

definition test_accept :: "sys_env \<Rightarrow> int \<Rightarrow> sock_lib \<Rightarrow> (int \<times> int option \<times> sock_lib) res" where
  "test_accept env socket_listen l =
     (let val = select_read env socket_listen
      in if val = 0 \<or> val = -1 then Inr (val, None, l)
      else let (socket_talk, l1) = saccept env socket_listen l
      in if socket_talk < 0 then
           (if last_errno env = EAGAIN then Inr (0, None, l1) else Inl (ExitProcess 1))
         else Inr (1, Some socket_talk, l1))"

definition sportnum :: "sys_env \<Rightarrow> int \<Rightarrow> sock_lib \<Rightarrow> int \<times> sock_lib" where
  "sportnum env s l =
     (case getsockname_call env s of (r, family, port) \<Rightarrow>
        if r < 0 then sys_failed ''getsockname'' (sclrerr l)
        else if family \<noteq> AF_INET then (-1, (sclrerr l)\<lparr>serrno := SE_UNKAF\<rparr>)
        else (uint port, sclrerr l))"

section \<open>Lemmas\<close>

lemma htons_htons [simp]: "htons (htons w) = w"
  by (rule bit_word_eqI) (auto simp: htons_def bit_simps dest: bit_imp_le_length)

lemma uint_htons: "uint (htons w) = uint w mod 256 * 256 + uint w div 256"
proof -
  have "push_bit 8 w AND drop_bit 8 w = 0"
    by (rule bit_word_eqI) (auto simp: bit_simps dest: bit_imp_le_length)
  then have "htons w = push_bit 8 w + drop_bit 8 w"
    by (simp add: htons_def disjunctive_add_eq_or)
  then have "uint (htons w) = (uint (push_bit 8 w) + uint (drop_bit 8 w)) mod 65536"
    by (simp add: uint_word_ariths)
  moreover have "uint (push_bit 8 w) = uint w mod 256 * 256"
    using mod_mult_mult2 [of "uint w" 256 256] by (simp add: push_bit_eq_mult uint_word_ariths)
  moreover have "uint (drop_bit 8 w) = uint w div 256"
    by (simp add: drop_bit_eq_div uint_div)
  moreover have "uint w div 256 < 256" "0 \<le> uint w div 256" using uint_bounded [of w] by (simp_all add: pos_imp_zdiv_nonneg_iff)
  moreover have "0 \<le> uint w mod 256" "uint w mod 256 < 256" by simp_all
  ultimately show ?thesis by (simp add: mod_pos_pos_trivial)
qed

text \<open>
  Every error code the files set has its text in \<open>s_errlist\<close>.
\<close>

definition serrno_ok :: "sock_lib \<Rightarrow> bool" where
  "serrno_ok l \<longleftrightarrow> serrno l \<in> {SE_NOERR, SE_SYSERR, SE_UNKAF, SE_UNKHOST, SE_UNKSERV, SE_UNKPROT, SE_NONMEM}"

lemma serrno_ok_simps [simp]:
  "serrno_ok (sclrerr l)" "serrno_ok (l\<lparr>sename := n\<rparr>) = serrno_ok l" "serrno_ok (l\<lparr>open_fds := f\<rparr>) = serrno_ok l"
  "serrno_ok (l\<lparr>serrno := e\<rparr>) \<longleftrightarrow> e \<in> {SE_NOERR, SE_SYSERR, SE_UNKAF, SE_UNKHOST, SE_UNKSERV, SE_UNKPROT, SE_NONMEM}"
  by (simp_all add: serrno_ok_def sclrerr_def)

lemma make_inetaddr_ok: "make_inetaddr env h v a l = (r, a', l') \<Longrightarrow> serrno_ok l'"
  by (auto simp: make_inetaddr_def inet_host_def inet_port_def split: option.splits if_splits prod.splits)

lemma protonumber_ok: "protonumber env p l = (r, l') \<Longrightarrow> serrno_ok l'"
  by (auto simp: protonumber_def split: option.splits)

lemma sys_failed_ok [simp]: "serrno_ok (snd (sys_failed c l))"
  by (simp add: sys_failed_def)

lemma sconnect_ok: "serrno_ok (snd (sconnect env rem loc h v l))"
  by (auto simp: sconnect_def Let_def dest: make_inetaddr_ok protonumber_ok
      split: prod.splits)

lemma slisten_ok: "serrno_ok (snd (slisten env a v l))"
  by (auto simp: slisten_def Let_def dest: make_inetaddr_ok protonumber_ok
      split: prod.splits)

lemma saccept_ok: "serrno_ok (snd (saccept env s l))"
  by (auto simp: saccept_def Let_def)

lemma sportnum_ok: "serrno_ok (snd (sportnum env s l))"
  by (auto simp: sportnum_def Let_def sys_failed_def split: prod.splits)

lemma sperror_ok: "serrno_ok l \<Longrightarrow> \<exists>text. sperror env msg l = Inr (msg @ '': '' @ text)"
  by (auto simp: serrno_ok_def sperror_def se_defs s_errlist_def)

text \<open>The address of a service on the local machine.\<close>

lemma make_inetaddr_local:
  "isdigit (first_char v) \<Longrightarrow> make_inetaddr env None (Some v) a l =
     (0, \<lparr>sin_family = AF_INET, sin_addr = 0, sin_port = htons (word_of_int (atoi v))\<rparr>, sclrerr l)"
  by (cases a) (simp add: make_inetaddr_def inet_host_def inet_port_def)

lemma make_inetaddr_any:
  "make_inetaddr env None None a l = (0, \<lparr>sin_family = AF_INET, sin_addr = 0, sin_port = 0\<rparr>, sclrerr l)"
  by (cases a) (simp add: make_inetaddr_def inet_host_def inet_port_def)

lemma sclrerr_simps [simp]:
  "open_fds (sclrerr l) = open_fds l" "sclrerr (l\<lparr>open_fds := f\<rparr>) = (sclrerr l)\<lparr>open_fds := f\<rparr>"
  "sclrerr (sclrerr l) = sclrerr l"
  by (simp_all add: sclrerr_def)

lemma slisten_outcome:
  assumes "getprotobyname env ''tcp'' = Some p" "0 \<le> p" "0 \<le> socket_call env PF_INET SOCK_STREAM p"
    and "isdigit (first_char v)"
  shows "slisten env a v l =
    (let s = socket_call env PF_INET SOCK_STREAM p; l1 = (sclrerr l)\<lparr>open_fds := s # open_fds l\<rparr>
     in if bind_call env s \<lparr>sin_family = AF_INET, sin_addr = 0, sin_port = htons (word_of_int (atoi v))\<rparr> < 0
        then sys_failed ''bind'' l1
        else if listen_call env s 3 < 0 then sys_failed ''listen'' l1 else (s, l1))"
  using assms by (simp add: slisten_def protonumber_def make_inetaddr_local Let_def)

end
