(* ===== verification/Server.thy ===== *)
theory Server
  imports Threadpool Sockets
begin

text \<open>
  \<open>server/server.c\<close>, \<open>server/server_io.c\<close> and \<open>server/client.c\<close>. A connection is what arrives on it, how
  much the kernel takes of what is written, and what has been written; \<open>net\<close> has the open
  connections by descriptor, those that have been closed, the latest first, and the buffers that
  \<open>malloc\<close> gave.
\<close>

section \<open>Connections and buffers\<close>

definition REQUEST_SIZE :: int where "REQUEST_SIZE = 10"
definition RESPONSE_SIZE :: int where "RESPONSE_SIZE = 10"

record conn =
  inbox :: "arrival list"
  outbox :: "taking list"
  wire :: "char list"

record net =
  conns :: "int \<rightharpoonup> conn"
  closed :: "conn list"
  bufs :: "char list heap"

text \<open>On a descriptor that is not open every \<open>read\<close> and \<open>write\<close> fails with \<open>EBADF\<close>.\<close>

definition bad_conn :: conn where
  "bad_conn = \<lparr>inbox = [Read_fails EBADF], outbox = [Write_fails EBADF], wire = []\<rparr>"

definition conn_of :: "net \<Rightarrow> int \<Rightarrow> conn" where
  "conn_of n fd = (case conns n fd of None \<Rightarrow> bad_conn | Some c \<Rightarrow> c)"

definition set_conn :: "int \<Rightarrow> (conn \<Rightarrow> conn) \<Rightarrow> net \<Rightarrow> net" where
  "set_conn fd f n =
     (case conns n fd of None \<Rightarrow> n | Some c \<Rightarrow> n\<lparr>conns := (conns n)(fd \<mapsto> f c)\<rparr>)"

definition close_fd :: "int \<Rightarrow> net \<Rightarrow> net" where
  "close_fd fd n =
     (case conns n fd of
        None \<Rightarrow> n
      | Some c \<Rightarrow> n\<lparr>conns := (conns n)(fd := None), closed := c # closed n\<rparr>)"

section \<open>\<open>server.c\<close>\<close>

definition NUM_LOOPS :: nat where "NUM_LOOPS = 500000"
definition POOL_SIZE :: int where "POOL_SIZE = 20"

text \<open>
  A fresh buffer holds unknown bytes, \<open>junk\<close>; they are overwritten before the buffer is handed on.
\<close>

definition read_request :: "char list \<Rightarrow> int \<Rightarrow> net \<Rightarrow> (ptr \<times> net) res" where
  "read_request junk fd n =
     (let (request, B) = malloc (bufs n) (take (nat REQUEST_SIZE) (junk @ replicate (nat REQUEST_SIZE) NUL))
      in if request = None then Inl (ExitProcess (-1))
         else
           bind_res (load B request) (\<lambda>data.
           bind_res (correct_read data REQUEST_SIZE (inbox (conn_of n fd))) (\<lambda>(ret, data1, es).
           let n1 = set_conn fd (\<lambda>c. c\<lparr>inbox := es\<rparr>) n in
           bind_res (modify B request (\<lambda>_. data1)) (\<lambda>B1.
           if ret \<noteq> REQUEST_SIZE then
             bind_res (free_cell B1 request) (\<lambda>B2. Inr (None, n1\<lparr>bufs := B2\<rparr>))
           else Inr (request, n1\<lparr>bufs := B1\<rparr>)))))"

text \<open>One pass of exchanges of neighbours, and the passes of \<open>process_request\<close>.\<close>

definition swap_next :: "nat \<Rightarrow> char list \<Rightarrow> char list" where
  "swap_next i r =
     (let j = (i + 1) mod nat RESPONSE_SIZE; swap = r ! j; r1 = r[j := r ! i] in r1[i := swap])"

definition munge_pass :: "char list \<Rightarrow> char list" where
  "munge_pass r = fold swap_next [0..<nat RESPONSE_SIZE] r"

primrec munge :: "nat \<Rightarrow> char list \<Rightarrow> char list" where
  "munge 0 r = r"
| "munge (Suc j) r = munge j (munge_pass r)"

definition process_request :: "ptr \<Rightarrow> net \<Rightarrow> (ptr \<times> int \<times> net) res" where
  "process_request request n =
     (let (response, B) = malloc (bufs n) (replicate (nat RESPONSE_SIZE) NUL)
      in if response = None then Inl NullDeref
         else
           bind_res (load B request) (\<lambda>req.
           if length req < nat REQUEST_SIZE then Inl BufferOverflow
           else
             let copied = map (\<lambda>i. req ! (i mod nat REQUEST_SIZE)) [0..<nat RESPONSE_SIZE] in
             bind_res (modify B response (\<lambda>_. munge NUM_LOOPS copied)) (\<lambda>B1.
             Inr (response, RESPONSE_SIZE, n\<lparr>bufs := B1\<rparr>))))"

text \<open>Sending the buffer at an address.\<close>

definition send_buffer :: "int \<Rightarrow> ptr \<Rightarrow> int \<Rightarrow> net \<Rightarrow> net res" where
  "send_buffer fd response response_length n =
     bind_res (load (bufs n) response) (\<lambda>data.
     bind_res (send_response data response_length (wire (conn_of n fd)) (outbox (conn_of n fd)))
       (\<lambda>(w, ts). Inr (set_conn fd (\<lambda>c. c\<lparr>wire := w, outbox := ts\<rparr>) n)))"

text \<open>
  \<open>request_client\<close> with the routine that answers a request. The declaration
  \<open>int socket_talk = (int) socket_talk\<close> initialises the variable with itself and not with the argument
  \<open>stalk\<close>: the descriptor is whatever the stack held, \<open>stack_int\<close>.
\<close>

definition request_client ::
  "(ptr \<Rightarrow> net \<Rightarrow> (ptr \<times> int \<times> net) res) \<Rightarrow> char list \<Rightarrow> int \<Rightarrow> int \<Rightarrow> net \<Rightarrow> net res" where
  "request_client process junk stack_int stalk n =
     (let socket_talk = stack_int in
      bind_res (read_request junk socket_talk n) (\<lambda>(request, n1).
      bind_res
        (if request \<noteq> None then
           bind_res (process request n1) (\<lambda>(response, response_length, n2).
           if response \<noteq> None then
             bind_res (send_buffer socket_talk response response_length n2) (\<lambda>n3. Inr (response, n3))
           else Inr (None, n2))
         else Inr (None, n1)) (\<lambda>(response, n4).
      let n5 = close_fd socket_talk n4 in
      bind_res (free_cell (bufs n5) request) (\<lambda>B1.
      bind_res (free_cell B1 response) (\<lambda>B2.
      Inr (n5\<lparr>bufs := B2\<rparr>))))))"

definition setup_listen :: "sys_env \<Rightarrow> sockaddr_in \<Rightarrow> string \<Rightarrow> sock_lib \<Rightarrow> (int \<times> sock_lib) res" where
  "setup_listen env inaddr socketNumber l =
     (let (socket_listen, l1) = slisten env inaddr socketNumber l
      in if socket_listen < 0 then Inl (ExitProcess 1) else Inr (socket_listen, l1))"

text \<open>
  \<open>main\<close>: the start, which makes the pool and the listening socket, and one turn of the loop, which
  accepts a connection, dispatches it and counts. The address of \<open>request_client\<close> is \<open>client_routine\<close>.
  The clock and the line printed after ten dispatches are not modelled.
\<close>

definition client_routine :: nat where "client_routine = 11"

record server =
  srv_pool :: pool_mem
  srv_lib :: lib
  srv_socks :: sock_lib
  count_dispatches :: int

definition start_with ::
  "int \<Rightarrow> pool_env \<Rightarrow> int \<Rightarrow> int \<Rightarrow> sys_env \<Rightarrow> sockaddr_in \<Rightarrow> string list \<Rightarrow> int \<Rightarrow> server \<Rightarrow>
     (ptr \<times> int \<times> server) res" where
  "start_with tid penv cores hyper env inaddr argv pool_size v =
     (if length argv \<noteq> 2 then Inl (ExitProcess (-1))
      else
        bind_res (create_threadpool tid penv cores hyper pool_size 0 (srv_pool v, srv_lib v))
          (\<lambda>(pool, m, s).
        bind_res (setup_listen env inaddr (argv ! 1) (srv_socks v)) (\<lambda>(socket_listen, l).
        Inr (pool, socket_listen, v\<lparr>srv_pool := m, srv_lib := s, srv_socks := l\<rparr>))))"

definition server_start ::
  "int \<Rightarrow> pool_env \<Rightarrow> int \<Rightarrow> int \<Rightarrow> sys_env \<Rightarrow> sockaddr_in \<Rightarrow> string list \<Rightarrow> server \<Rightarrow>
     (ptr \<times> int \<times> server) res" where
  "server_start tid penv cores hyper env inaddr argv v =
     start_with tid penv cores hyper env inaddr argv POOL_SIZE v"

definition server_turn ::
  "int \<Rightarrow> sys_env \<Rightarrow> ptr \<Rightarrow> int \<Rightarrow> server \<Rightarrow> (outcome \<times> server) res" where
  "server_turn tid env pool socket_listen v =
     (let (socket_talk, l) = saccept env socket_listen (srv_socks v)
      in if socket_talk < 0 then Inl (ExitProcess 1)
         else
           bind_res (dispatch tid pool (Some client_routine) socket_talk (srv_pool v, srv_lib v))
             (\<lambda>(out, m, s).
           Inr (out, v\<lparr>srv_pool := m, srv_lib := s, srv_socks := l,
                       count_dispatches := count_dispatches v + 1\<rparr>)))"

section \<open>\<open>server_io.c\<close>\<close>

text \<open>
  The file differs from \<open>server.c\<close> in \<open>process_request\<close>: it reads the words of \<open>/tmp/test.txt\<close> into an
  array on its stack, prints them, and returns the array, without a response length. \<open>file\<close> is what
  the file holds, None if it cannot be opened; the array is a cell that is released when the
  function returns. \<open>scan_word\<close> is \<open>fscanf\<close> with \<open>%s\<close>, into an array of \<open>cap\<close> bytes.
\<close>

definition scan_word :: "nat \<Rightarrow> string \<Rightarrow> (string option \<times> string) res" where
  "scan_word cap input =
     (let rest = dropWhile isspace input; word = takeWhile (\<lambda>c. \<not> isspace c) rest
      in if rest = [] then Inr (None, [])
         else if cap < length word + 1 then Inl BufferOverflow
         else Inr (Some word, dropWhile (\<lambda>c. \<not> isspace c) rest))"

definition store_string :: "string \<Rightarrow> char list \<Rightarrow> char list" where
  "store_string s buff = s @ NUL # drop (length s + 1) buff"

text \<open>\<open>fgets\<close> into the array: at the end of the file the array keeps its contents.\<close>

definition fgets_into :: "nat \<Rightarrow> char list \<times> string \<Rightarrow> char list \<times> string" where
  "fgets_into cap = (\<lambda>(buff, input).
     if input = [] then (buff, input)
     else let line = fgets_chars (cap - 1) input
          in (store_string line buff, drop (length line) input))"

definition process_request_io ::
  "string option \<Rightarrow> char list \<Rightarrow> int \<Rightarrow> ptr \<Rightarrow> net \<Rightarrow> (ptr \<times> int \<times> net) res" where
  "process_request_io file junk stack_len request n =
     (case file of
        None \<Rightarrow> Inl NullDeref
      | Some text \<Rightarrow>
          bind_res (scan_word 255 text) (\<lambda>(word, rest).
          let buff = take 255 (junk @ replicate 255 NUL);
              buff1 = (case word of None \<Rightarrow> buff | Some w \<Rightarrow> store_string w buff);
              (buff3, _) = fgets_into 255 (fgets_into 255 (buff1, rest));
              frame = (bufs n)\<lparr>cells := (cells (bufs n))(fresh (bufs n) \<mapsto> buff3),
                               fresh := Suc (fresh (bufs n))\<rparr>;
              left = frame\<lparr>cells := (cells frame)(fresh (bufs n) := None)\<rparr>
          in Inr (Some (fresh (bufs n)), stack_len, n\<lparr>bufs := left\<rparr>)))"

text \<open>The rest of the file repeats \<open>server.c\<close>, with a pool of ten threads.\<close>

definition read_request_io :: "char list \<Rightarrow> int \<Rightarrow> net \<Rightarrow> (ptr \<times> net) res" where
  "read_request_io = read_request"

definition request_client_io ::
  "string option \<Rightarrow> char list \<Rightarrow> int \<Rightarrow> char list \<Rightarrow> int \<Rightarrow> int \<Rightarrow> net \<Rightarrow> net res" where
  "request_client_io file buff_junk stack_len = request_client (process_request_io file buff_junk stack_len)"

definition setup_listen_io :: "sys_env \<Rightarrow> sockaddr_in \<Rightarrow> string \<Rightarrow> sock_lib \<Rightarrow> (int \<times> sock_lib) res" where
  "setup_listen_io = setup_listen"

definition server_start_io ::
  "int \<Rightarrow> pool_env \<Rightarrow> int \<Rightarrow> int \<Rightarrow> sys_env \<Rightarrow> sockaddr_in \<Rightarrow> string list \<Rightarrow> server \<Rightarrow>
     (ptr \<times> int \<times> server) res" where
  "server_start_io tid penv cores hyper env inaddr argv v =
     start_with tid penv cores hyper env inaddr argv 10 v"

definition server_turn_io ::
  "int \<Rightarrow> sys_env \<Rightarrow> ptr \<Rightarrow> int \<Rightarrow> server \<Rightarrow> (outcome \<times> server) res" where
  "server_turn_io tid env pool socket_listen v =
     bind_res (server_turn tid env pool socket_listen v) (\<lambda>(out, v1).
     Inr (out, v1\<lparr>count_dispatches := count_dispatches v\<rparr>))"

section \<open>\<open>client.c\<close>\<close>

text \<open>
  One turn of the client's loop on a connection that \<open>sconnect\<close> gave it: the request is written and,
  if all of it went out, the response is read. The result is what is printed, and the response.
\<close>

definition client_request :: "char list" where
  "client_request = map (\<lambda>i. char_of ((i :: nat) mod 255)) [0..<nat REQUEST_SIZE]"

definition client_turn :: "int \<Rightarrow> char list \<Rightarrow> net \<Rightarrow> (int \<times> char list \<times> net) res" where
  "client_turn socket_talk response n =
     (let c = conn_of n socket_talk in
      bind_res (correct_write client_request REQUEST_SIZE (wire c) (outbox c)) (\<lambda>(result, w, ts).
      let n1 = set_conn socket_talk (\<lambda>c. c\<lparr>wire := w, outbox := ts\<rparr>) n in
      bind_res
        (if result = REQUEST_SIZE then
           bind_res (correct_read response RESPONSE_SIZE (inbox (conn_of n1 socket_talk)))
             (\<lambda>(r, d, es). Inr (r, d, set_conn socket_talk (\<lambda>c. c\<lparr>inbox := es\<rparr>) n1))
         else Inr (result, response, n1))
        (\<lambda>(r, d, n2). Inr (r, d, close_fd socket_talk n2))))"

text \<open>\<open>main\<close> up to the connection: the arguments and \<open>sconnect\<close>.\<close>

definition client_connect ::
  "sys_env \<Rightarrow> sockaddr_in \<Rightarrow> sockaddr_in \<Rightarrow> string list \<Rightarrow> sock_lib \<Rightarrow> (int \<times> sock_lib) res" where
  "client_connect env remote local argv l =
     (if length argv \<noteq> 3 then Inl (ExitProcess 1)
      else let (socket_talk, l1) = sconnect env remote local (argv ! 1) (argv ! 2) l
           in if socket_talk < 0 then Inl (ExitProcess 1) else Inr (socket_talk, l1))"

section \<open>What \<open>process_request\<close> computes\<close>

lemma munge_pass_rotate:
  assumes "length r = 10"
  shows "munge_pass r = hd r # rotate1 (tl r)"
proof -
  obtain a b c d e f g h i j where "r = [a, b, c, d, e, f, g, h, i, j]"
    using assms by (auto simp: eval_nat_numeral length_Suc_conv)
  moreover have "munge_pass [a, b, c, d, e, f, g, h, i, j] = a # [c, d, e, f, g, h, i, j, b]"
    by code_simp
  ultimately show ?thesis by simp
qed

lemma munge_rotate: "length r = 10 \<Longrightarrow> munge n r = hd r # rotate n (tl r)"
proof (induction n arbitrary: r)
  case 0
  then show ?case by (cases r) auto
next
  case (Suc n)
  then have "length (munge_pass r) = 10" by (simp add: munge_pass_rotate)
  with Suc show ?case by (simp add: munge_pass_rotate rotate1_rotate_swap)
qed

definition munged :: "char list \<Rightarrow> char list" where
  "munged r = hd r # rotate 5 (tl r)"

lemma munge_all: "length r = 10 \<Longrightarrow> munge NUM_LOOPS r = munged r"
  by (simp add: munge_rotate munged_def NUM_LOOPS_def rotate_conv_mod [of 500000])

lemma length_munged [simp]: "length r = 10 \<Longrightarrow> length (munged r) = 10"
  by (simp add: munged_def)

lemma copy_request: "length req = 10 \<Longrightarrow> map (\<lambda>i. req ! (i mod 10)) [0..<10] = req"
  by (rule nth_equalityI) auto

lemma process_request_result:
  assumes "0 < room (bufs n)" "heap_ok (bufs n)" "cells (bufs n) a = Some req" "length req = 10"
  shows "process_request (Some a) n = Inr (Some (fresh (bufs n)), 10, n\<lparr>bufs :=
    (bufs n)\<lparr>cells := (cells (bufs n))(fresh (bufs n) \<mapsto> munged req),
             fresh := Suc (fresh (bufs n)), room := room (bufs n) - 1\<rparr>\<rparr>)"
  using assms heap_ok_less [OF assms(2,3)]
  by (simp add: process_request_def malloc_room REQUEST_SIZE_def RESPONSE_SIZE_def munge_all copy_request)

section \<open>Reading a request and sending a response\<close>

abbreviation fresh_buf :: "net \<Rightarrow> char list \<Rightarrow> char list heap" where
  "fresh_buf n d \<equiv> (bufs n)\<lparr>cells := (cells (bufs n))(fresh (bufs n) \<mapsto> d),
     fresh := Suc (fresh (bufs n)), room := room (bufs n) - 1\<rparr>"

lemma set_conn_simps [simp]:
  "bufs (set_conn fd f n) = bufs n" "closed (set_conn fd f n) = closed n"
  "set_conn fd f (n\<lparr>bufs := B\<rparr>) = (set_conn fd f n)\<lparr>bufs := B\<rparr>"
  by (simp_all add: set_conn_def split: option.splits)

lemma close_fd_simps [simp]:
  "bufs (close_fd fd n) = bufs n" "close_fd fd (n\<lparr>bufs := B\<rparr>) = (close_fd fd n)\<lparr>bufs := B\<rparr>"
  by (simp_all add: close_fd_def split: option.splits)

lemma conn_of_bufs [simp]: "conn_of (n\<lparr>bufs := B\<rparr>) fd = conn_of n fd"
  by (simp add: conn_of_def)

lemma read_request_full:
  assumes "0 < room (bufs n)" and "10 \<le> length (fst (incoming (inbox (conn_of n fd))))"
  obtains es where "read_request junk fd n = Inr (Some (fresh (bufs n)),
      (set_conn fd (\<lambda>c. c\<lparr>inbox := es\<rparr>) n)\<lparr>bufs :=
         fresh_buf n (take 10 (fst (incoming (inbox (conn_of n fd)))))\<rparr>)"
    "incoming es = (drop 10 (fst (incoming (inbox (conn_of n fd)))), snd (incoming (inbox (conn_of n fd))))"
proof -
  let ?d = "take 10 (junk @ replicate 10 NUL)"
  have l: "length ?d = 10" by simp
  obtain es where es: "correct_read ?d 10 (inbox (conn_of n fd)) =
      Inr (10, take (nat 10) (fst (incoming (inbox (conn_of n fd)))) @ drop (nat 10) ?d, es)"
    "incoming es = (drop (nat 10) (fst (incoming (inbox (conn_of n fd)))), snd (incoming (inbox (conn_of n fd))))"
    by (rule correct_read_enough [of 10 ?d]) (use assms(2) l in simp_all)
  with assms show ?thesis
    by (intro that [of es]) (simp_all add: read_request_def REQUEST_SIZE_def malloc_room)
qed

text \<open>Without enough bytes \<open>read_request\<close> gives its buffer back; with no memory it ends the process.\<close>

lemma read_request_cases:
  assumes "heap_ok (bufs n)"
  obtains (no_memory) "room (bufs n) = 0" "read_request junk fd n = Inl (ExitProcess (-1))"
  | (blocked) "read_request junk fd n = Inl SysBlocked"
  | (failed) es B where "read_request junk fd n = Inr (None, (set_conn fd (\<lambda>c. c\<lparr>inbox := es\<rparr>) n)\<lparr>bufs := B\<rparr>)"
      "cells B = cells (bufs n)" "room B = room (bufs n)"
  | (got) es d where "read_request junk fd n = Inr (Some (fresh (bufs n)),
        (set_conn fd (\<lambda>c. c\<lparr>inbox := es\<rparr>) n)\<lparr>bufs := fresh_buf n d\<rparr>)"
      "length d = 10" "0 < room (bufs n)"
proof (cases "room (bufs n) = 0")
  case True
  with no_memory show ?thesis by (simp add: read_request_def malloc_room)
next
  case False
  let ?d = "take 10 (junk @ replicate 10 NUL)"
  have l: "length ?d = 10" by simp
  have nl: "nat 10 \<le> length ?d" by simp
  consider (sleeps) "correct_read ?d 10 (inbox (conn_of n fd)) = Inl SysBlocked"
    | (returns) r d es where "correct_read ?d 10 (inbox (conn_of n fd)) = Inr (r, d, es)" "length d = length ?d"
    by (rule correct_read_cases [OF _ _ nl, of "inbox (conn_of n fd)"]) auto
  then show ?thesis
  proof cases
    case sleeps
    with False blocked show ?thesis by (simp add: read_request_def REQUEST_SIZE_def malloc_room)
  next
    case (returns r d es)
    note 4 = returns
    with l have ld: "length d = 10" by simp
    show ?thesis
    proof (cases "r = 10")
      case True
      with False 4(1) ld got [where es = es and d = d] show ?thesis
        by (simp add: read_request_def REQUEST_SIZE_def malloc_room)
    next
      case r: False
      let ?B = "(fresh_buf n d)\<lparr>cells := (cells (fresh_buf n d))(fresh (bufs n) := None), room := room (bufs n)\<rparr>"
      from r False 4(1) have "read_request junk fd n = Inr (None, (set_conn fd (\<lambda>c. c\<lparr>inbox := es\<rparr>) n)\<lparr>bufs := ?B\<rparr>)"
        by (simp add: read_request_def REQUEST_SIZE_def malloc_room)
      with failed [where es = es and B = ?B] heap_ok_fresh [OF assms] show ?thesis by (auto simp: fun_upd_idem)
    qed
  qed
qed

end
