(* ===== verification/Threadpool_Properties.thy ===== *)
theory Threadpool_Properties
  imports Threadpool Mtsort
begin

text \<open>
  The properties of \<open>server/threadpool.c\<close>: jobs come out in the order they went in, what
  \<open>dispatch\<close> and a worker do on the thread library, what \<open>create_threadpool\<close> accepts and counts,
  and what happens to a NULL pool.
\<close>


definition one_pool :: pool_mem where
  "one_pool =
     \<lparr>pools = \<lparr>cells = [0 \<mapsto> \<lparr>no_of_threads = 4, no_of_tasks_in_Q = 0, no_of_running_threads = 2,
                 pool_mutex = 1, pool_cond = 1, pool_threads = 3, taskQ_front = None, taskQ_rear = None\<rparr>],
               fresh = 1, room = 5\<rparr>,
      tasks = \<lparr>cells = Map.empty, fresh = 0, room = 9\<rparr>, arrays = [3 \<mapsto> 2]\<rparr>"

lemma one_pool_queue: "task_queue 0 one_pool []"
  by (simp add: task_queue_def one_pool_def queue_rep_def heap_ok_def)


section \<open>Dispatching\<close>

text \<open>What a dispatch does while nobody else holds the mutex or waits.\<close>

lemma dispatch_result:
  assumes inv: "ul_inv tid kth s cur ts" and nroom: "0 < room (qnodes s)"
    and q: "task_queue a m xs" and room: "0 < room (tasks m)"
    and p: "cells (pools m) a = Some p" "mutex_free s (pool_mutex p)" "cond_rep s (pool_cond p) ts []"
  shows "\<exists>c m' s'. dispatch tid (Some a) func arg (m, s) = Inr (Switched (hd (ts @ [cur])) c, m', s') \<and>
    (\<exists>t. task_queue a m' (xs @ [(t, (func, arg))])) \<and> mtxs s' = mtxs s \<and>
    ul_inv tid kth s' (hd (ts @ [cur])) (tl (ts @ [cur]))"
proof -
  have co: "coop tid kth s cur ts" using inv by (simp add: ul_inv_def)
  note free = coopD(2) [OF co]
  obtain x where x: "mtxs s (pool_mutex p) = Some x" "\<not> mtx_lock x" "blocked_q_head x = None"
    "x\<lparr>mtx_lock := False\<rparr> = x" by (rule mutex_freeE [OF p(2)])
  let ?s1 = "s\<lparr>mtxs := (mtxs s)(pool_mutex p \<mapsto> x\<lparr>mtx_lock := True\<rparr>)\<rparr>"
  have l: "mypthread_mutex_lock tid (pool_mutex p) s = Inr (Returned 0, ?s1)"
    by (rule mutex_lock_free(1) [OF free x(1,2)])
  have free1: "sems_free ?s1" using free by simp
  have "cond_rep ?s1 (pool_cond p) ts []" using p(3) by (simp add: cond_rep_def)
  note sg = cond_signal_nobody [OF free1 this]
  have u: "mypthread_mutex_unlock (pool_mutex p) ?s1 = Inr (Returned 0, s)"
    using unlock_unwaited [of ?s1 "pool_mutex p" "x\<lparr>mtx_lock := True\<rparr>"] free x
    by (simp add: fun_upd_idem)
  obtain c s' where y: "mypthread_yield tid s = Inr (Switched (hd (ts @ [cur])) c, s')"
    "ul_inv tid kth s' (hd (ts @ [cur])) (tl (ts @ [cur]))" "room (qnodes s') = room (qnodes s)"
    "resumable s' (hd (ts @ [cur]))"
    by (rule ul_yield [OF inv nroom])
  obtain m' where m': "queue_job a (func, arg) m = Inr m'"
    "task_queue a m' (xs @ [(fresh (tasks m), (func, arg))])" "Suc (room (tasks m')) = room (tasks m)"
    "\<forall>b. b \<noteq> a \<longrightarrow> cells (pools m') b = cells (pools m) b"
    by (rule queue_job_rep [OF q room])
  then obtain t m1 where t: "make_task func arg m = Inr (t, m1)" "push_task (Some a) t m1 = Inr m'"
    by (auto simp: queue_job_def bind_res_Inr_iff)
  then have "load (pools m1) (Some a) = Inr p"
    using p(1) room by (auto simp: make_task_eq)
  then have "dispatch tid (Some a) func arg (m, s) = Inr (Switched (hd (ts @ [cur])) c, m', s')"
    using t l sg u y(1) by (simp add: dispatch_def)
  with m'(2) y(2) yield_sems [OF y(1)] show ?thesis by blast
qed

text \<open>
  A dispatch on one kernel thread, every thread active, the mutex free and no worker waiting: the
  job becomes the last of the queue and the count goes up, whatever the number of jobs already
  queued and the number of threads; the mutex is free again; and the caller yields. The comment in
  \<open>threadpool.h\<close> says that it blocks while all threads are busy.
\<close>

theorem dispatch_queues:
  assumes inv: "ul_inv tid kth s cur ts" and nroom: "0 < room (qnodes s)"
    and q: "task_queue a m xs" and room: "0 < room (tasks m)"
    and p: "cells (pools m) a = Some p" "mutex_free s (pool_mutex p)" "cond_rep s (pool_cond p) ts []"
  shows "\<exists>c m' s'. dispatch tid (Some a) func arg (m, s) = Inr (Switched (hd (ts @ [cur])) c, m', s') \<and>
    (\<exists>t. task_queue a m' (xs @ [(t, (func, arg))])) \<and> mtxs s' = mtxs s \<and>
    ul_inv tid kth s' (hd (ts @ [cur])) (tl (ts @ [cur]))"
  using assms by (rule dispatch_result)

lemma demo_pool_ready:
  "mutex_free demo 1" "cond_rep demo 1 [1, 2] []"
proof -
  have c: "map_option cond_q_head (cnds demo 1) = Some None \<and> mutex_free demo 1" by code_simp
  then show "mutex_free demo 1" ..
  from c obtain x where x: "cnds demo 1 = Some x" "cond_q_head x = None" by auto
  have "two_lists demo None (cond_q_tail x) [1, 2] []"
    using coopD(4) [OF demo_coop] by (auto simp: two_lists_def runq_iff wait_rep_def)
  with x show "cond_rep demo 1 [1, 2] []" by (simp add: cond_rep_def)
qed

theorem dispatch_queues_witness:
  "\<exists>c m' s' t. dispatch 7 (Some 0) (Some 11) 5 (one_pool, demo) = Inr (Switched 1 c, m', s') \<and>
    task_queue 0 m' [(t, (Some 11, 5))]"
proof -
  have r: "0 < room (qnodes demo)" "0 < room (tasks one_pool)" using demo_room by (simp_all add: one_pool_def)
  obtain p where p: "cells (pools one_pool) 0 = Some p" "pool_mutex p = 1" "pool_cond p = 1"
    by (simp add: one_pool_def)
  from dispatch_queues [OF demo_inv r(1) one_pool_queue r(2) p(1), of "Some 11" 5] demo_pool_ready p
  show ?thesis by auto
qed

text \<open>
  A worker with the mutex held and jobs queued takes the oldest one and releases the mutex. The
  other jobs stay queued in their order, and the mutex is free for the next worker.
\<close>

theorem worker_takes_oldest:
  assumes free: "sems_free s" and q: "task_queue a m (x # xs)"
    and p: "cells (pools m) a = Some p" "mtxs s (pool_mutex p) = Some mx" "blocked_q_head mx = None"
    and c: "cond_rep s (pool_cond p) ts []"
  shows "\<exists>m' s'. threadpool_scheduler tid call (Some a) At_test (m, s) =
      Inr (Returned 0, At_run (Some (fst x)), m', s') \<and>
    task_queue a m' xs \<and> cells (tasks m') (fst x) = Some (mktask None (snd x) (first_addr xs None)) \<and>
    mutex_free s' (pool_mutex p)"
proof -
  obtain m1 where m1: "take_task (Some a) m = Inr (Some (fst x), m1)" "tasks m1 = tasks m"
    "cells (tasks m) (fst x) = Some (mktask None (snd x) (first_addr xs None))"
    "\<forall>T. (\<forall>y\<in>set xs. cells T (fst y) = cells (tasks m) (fst y)) \<and> heap_ok T \<longrightarrow>
       task_queue a (m1\<lparr>tasks := T\<rparr>) xs"
    "\<forall>b. b \<noteq> a \<longrightarrow> cells (pools m1) b = cells (pools m) b"
    "\<exists>p p'. cells (pools m) a = Some p \<and> cells (pools m1) a = Some p' \<and>
       pool_mutex p' = pool_mutex p \<and> pool_cond p' = pool_cond p \<and> no_of_tasks_in_Q p' = int (length xs)"
    by (rule take_task_rep [OF q])
  from m1(6) p(1) obtain p' where p': "cells (pools m1) a = Some p'" "pool_mutex p' = pool_mutex p"
    "pool_cond p' = pool_cond p" by auto
  from q have ok: "heap_ok (tasks m)" and n: "no_of_tasks_in_Q p \<noteq> 0"
    using p(1) by (auto simp: task_queue_def)
  have "task_queue a (m1\<lparr>tasks := tasks m\<rparr>) xs" using m1(4) ok by blast
  moreover have "m1\<lparr>tasks := tasks m\<rparr> = m1" using m1(2) by (cases m1) simp
  ultimately have q1: "task_queue a m1 xs" by simp
  note sg = cond_signal_nobody [OF free c]
  have u: "mypthread_mutex_unlock (pool_mutex p) s = Inr (Returned 0,
      s\<lparr>mtxs := (mtxs s)(pool_mutex p \<mapsto> mx\<lparr>mtx_lock := False\<rparr>)\<rparr>)" (is "_ = Inr (_, ?s')")
    by (rule unlock_unwaited [OF free p(2,3)])
  have "take_and_release (Some a) (m, s) = Inr (Some (fst x), m1, ?s')"
    using m1(1) p' sg u by (simp add: take_and_release_def)
  moreover have "mutex_free ?s' (pool_mutex p)" using p(3) by (simp add: mutex_free_def)
  ultimately show ?thesis using p(1) n q1 m1(2,3) by simp
qed

definition busy_pool :: pool_mem where
  "busy_pool =
     one_pool\<lparr>pools := (pools one_pool)\<lparr>cells := [0 \<mapsto> \<lparr>no_of_threads = 4, no_of_tasks_in_Q = 2,
                 no_of_running_threads = 2, pool_mutex = 1, pool_cond = 1, pool_threads = 3,
                 taskQ_front = Some 0, taskQ_rear = Some 1\<rparr>]\<rparr>,
       tasks := \<lparr>cells = [0 \<mapsto> mktask None (Some 11, 5) (Some 1), 1 \<mapsto> mktask None (Some 12, 6) None],
                 fresh = 2, room = 7\<rparr>\<rparr>"

theorem worker_takes_oldest_witness:
  "\<exists>m' s'. threadpool_scheduler 7 (\<lambda>_ _ st. Inr st) (Some 0) At_test (busy_pool, demo) =
      Inr (Returned 0, At_run (Some 0), m', s') \<and> task_queue 0 m' [(1, (Some 12, 6))]"
proof -
  have q: "task_queue 0 busy_pool [(0, (Some 11, 5)), (1, (Some 12, 6))]"
    by (auto simp: task_queue_def busy_pool_def queue_rep_def chain_rep_def heap_ok_iff)
  obtain p where p: "cells (pools busy_pool) 0 = Some p" "pool_mutex p = 1" "pool_cond p = 1"
    by (simp add: busy_pool_def)
  obtain mx where "mtxs demo 1 = Some mx" "blocked_q_head mx = None"
    using demo_pool_ready(1) by (rule mutex_freeE)
  with worker_takes_oldest [OF coopD(2) [OF demo_coop] q p(1)] demo_pool_ready(2) p(2,3)
  show ?thesis by fastforce
qed

section \<open>Creating a pool\<close>

text \<open>
  The sanity check. \<open>create_threadpool\<close> answers NULL and makes nothing for a number of threads
  that is not positive or exceeds \<open>MAXT_IN_POOL\<close>; but the policy of the thread library has been set
  by then.
\<close>

theorem create_threadpool_rejects:
  assumes "n \<le> 0 \<or> n > 200"
  shows "\<exists>s'. create_threadpool tid env cores hyper n mode (m, s) = Inr (None, m, s') \<and>
    mypthread_policy s' = mode \<and> mypthread_count s' = mypthread_count s \<and> clones s' = clones s"
  using assms
  by (auto simp: create_threadpool_def MAXT_IN_POOL_def mypthread_init_def init_kthread_info_def Let_def)

definition plain_env :: pool_env where
  "plain_env = \<lparr>array_ok = True, mutex_at = 1, cond_at = 1, threads_at = 3, junk_running = 0,
     clone_env = Clone_ok\<rparr>"

theorem create_threadpool_rejects_witness:
  "\<exists>s'. create_threadpool 7 plain_env 4 2 201 1 (one_pool, demo) = Inr (None, one_pool, s')"
proof -
  have "(201::int) \<le> 0 \<or> 201 > (200::int)" by simp
  from create_threadpool_rejects [OF this, of 7 plain_env 4 2 1 one_pool demo]
  show ?thesis by blast
qed

text \<open>
  The counts of a new pool. When \<open>create_threadpool\<close> answers a pool of \<open>n\<close> threads, its
  \<open>no_of_threads\<close> is \<open>2 * n\<close>: it is set to \<open>n\<close> and then counted up once more for every thread; and
  \<open>no_of_running_threads\<close> is \<open>n\<close> more than whatever the fresh memory held. The task queue is empty.
\<close>

theorem create_threadpool_counts:
  assumes "create_threadpool tid env cores hyper n mode (m, s) = Inr (Some a, m', s')"
    and "heap_ok (tasks m)"
  shows "0 < n \<and> n \<le> 200 \<and> task_queue a m' [] \<and>
    (\<exists>p. cells (pools m') a = Some p \<and> no_of_threads p = 2 * n \<and>
         no_of_running_threads p = junk_running env + n)"
proof -
  from assms(1) have n: "0 < n" "n \<le> 200"
    by (auto simp: create_threadpool_def MAXT_IN_POOL_def Let_def split: if_splits)
  let ?p = "\<lparr>no_of_threads = n, no_of_tasks_in_Q = 0, no_of_running_threads = junk_running env,
    pool_mutex = mutex_at env, pool_cond = cond_at env, pool_threads = threads_at env,
    taskQ_front = None, taskQ_rear = None\<rparr>"
  obtain q P where q: "malloc (pools m) ?p = (q, P)" by (cases "malloc (pools m) ?p")
  with assms(1) n obtain s3 where c: "q = Some a"
    "create_workers tid env a 0 (nat n) (new_array (threads_at env) (nat n) (m\<lparr>pools := P\<rparr>), s3) = Inr (True, m', s')"
    by (auto simp: create_threadpool_def MAXT_IN_POOL_def Let_def bind_res_Inr_iff
        split: option.splits if_splits)
  from q c(1) have "cells (pools (new_array (threads_at env) (nat n) (m\<lparr>pools := P\<rparr>))) a = Some ?p"
    by (auto simp: malloc_def split: if_splits)
  from create_workers_counts [OF c(2) this] n assms(2) show ?thesis
    by (simp add: task_queue_def queue_rep_def)
qed

definition no_pools :: pool_mem where
  "no_pools = \<lparr>pools = \<lparr>cells = Map.empty, fresh = 0, room = 2\<rparr>, tasks = \<lparr>cells = Map.empty, fresh = 0, room = 9\<rparr>, arrays = Map.empty\<rparr>"

theorem create_threadpool_counts_witness:
  "\<exists>m' s' p. create_threadpool 7 plain_env 4 2 1 1 (no_pools, program_start 50 5) = Inr (Some 0, m', s') \<and>
    cells (pools m') 0 = Some p \<and> no_of_threads p = 2 \<and> task_queue 0 m' []"
proof -
  have "(case create_threadpool 7 plain_env 4 2 1 1 (no_pools, program_start 50 5) of
      Inl _ \<Rightarrow> False | Inr (a, _) \<Rightarrow> a = Some 0)" by code_simp
  then obtain m' s' where c: "create_threadpool 7 plain_env 4 2 1 1 (no_pools, program_start 50 5) =
      Inr (Some 0, m', s')" by (auto split: sum.splits)
  have "heap_ok (tasks no_pools)" by (simp add: no_pools_def heap_ok_def)
  from create_threadpool_counts [OF c this] c show ?thesis by auto
qed

text \<open>
  An invalid pool. \<open>dispatch\<close> tests its arguments, prints a message and goes on: with a NULL pool
  it allocates the task and then dereferences the NULL pointer, whatever the state of the library. A
  NULL function is queued, and the worker that gets hold of it calls it.
\<close>

theorem dispatch_invalid_faults:
  assumes "0 < room (tasks m)"
  shows "dispatch tid None func arg (m, s) = Inl NullDeref \<and>
    (\<exists>t m'. make_task None arg m = Inr (Some t, m') \<and>
      threadpool_scheduler tid call pool (At_run (Some t)) (m', s) = Inl NullDeref)"
  using assms by (auto simp: dispatch_def make_task_eq)

theorem dispatch_invalid_faults_witness:
  "dispatch 7 None (Some 11) 5 (one_pool, demo) = Inl NullDeref"
proof -
  have "0 < room (tasks one_pool)" by (simp add: one_pool_def)
  from dispatch_invalid_faults [OF this] show ?thesis by blast
qed

end
