(* ===== verification/Server_Properties.thy ===== *)
theory Server_Properties
  imports Server Threadpool_Properties
begin

text \<open>
  The properties of \<open>server/common.c\<close>, \<open>server.c\<close>, \<open>server_io.c\<close> and \<open>client.c\<close>: what is read and written
  does not depend on the pieces the kernel hands over, what a response is, that a request gives back
  its memory, and the whole way of a request from the client to the server and back.
\<close>

section \<open>Shared facts\<close>

lemma heap_ok_fresh_buf: "heap_ok (bufs n) \<Longrightarrow> heap_ok (fresh_buf n d)"
  by (auto simp: heap_ok_iff less_Suc_eq split: if_splits)

lemma heap_ok_Suc: "heap_ok h \<Longrightarrow> cells h (Suc (fresh h)) = None"
  by (cases "cells h (Suc (fresh h))") (auto dest: heap_ok_less)

text \<open>The memory with the request \<open>d\<close> and its response in it, on top of that of \<open>n\<close>.\<close>

abbreviation both_bufs :: "net \<Rightarrow> char list \<Rightarrow> char list heap" where
  "both_bufs n d \<equiv> (bufs n)\<lparr>cells := (cells (bufs n))(fresh (bufs n) \<mapsto> d, Suc (fresh (bufs n)) \<mapsto> munged d),
     fresh := Suc (Suc (fresh (bufs n))), room := room (bufs n) - 1 - 1\<rparr>"

lemma process_after_read:
  assumes "heap_ok (bufs n)" "length d = 10" "1 < room (bufs n)"
  shows "process_request (Some (fresh (bufs n))) (m\<lparr>bufs := fresh_buf n d\<rparr>) =
    Inr (Some (Suc (fresh (bufs n))), 10, m\<lparr>bufs := both_bufs n d\<rparr>)"
  using process_request_result [of "m\<lparr>bufs := fresh_buf n d\<rparr>" "fresh (bufs n)" d]
    heap_ok_fresh_buf [OF assms(1)] assms by simp

lemma process_no_memory:
  "room (bufs n) = 1 \<Longrightarrow> process_request p (m\<lparr>bufs := fresh_buf n d\<rparr>) = Inl NullDeref"
  by (simp add: process_request_def malloc_room)

lemma free_both:
  assumes "heap_ok (bufs n)" "1 < room (bufs n)"
  obtains B where "bind_res (free_cell (both_bufs n d) (Some (fresh (bufs n))))
      (\<lambda>B1. free_cell B1 (Some (Suc (fresh (bufs n))))) = Inr B"
    "cells B = cells (bufs n)" "room B = room (bufs n)" "heap_ok B"
proof -
  have "(cells (bufs n))(fresh (bufs n) := None, Suc (fresh (bufs n)) := None) = cells (bufs n)"
    using heap_ok_fresh [OF assms(1)] heap_ok_Suc [OF assms(1)] by (auto simp: fun_eq_iff)
  moreover have "Suc (Suc (room (bufs n) - Suc (Suc 0))) = room (bufs n)" using assms(2) by simp
  moreover have "heap_ok ((both_bufs n d)\<lparr>cells := cells (bufs n), room := room (bufs n)\<rparr>)"
    using assms(1) by (auto simp: heap_ok_iff less_Suc_eq)
  ultimately show ?thesis
    by (intro that [where B = "(both_bufs n d)\<lparr>cells := cells (bufs n), room := room (bufs n)\<rparr>"])
      (simp_all add: fun_upd_twist)
qed

text \<open>
  C20: \<open>request_client\<close> gives back what it takes. Whatever arrives on the descriptor, however the
  kernel takes the response, and whichever descriptor the stack holds: when it returns, the memory
  of the request and of the response has been released, each once, and nothing else has. The only
  ways not to return are a connection that goes silent and a lack of memory.
\<close>

theorem request_client_memory:
  assumes ok: "heap_ok (bufs n)"
  shows "case request_client process_request junk fd stalk n of
      Inr n' \<Rightarrow> cells (bufs n') = cells (bufs n) \<and> room (bufs n') = room (bufs n)
    | Inl e \<Rightarrow> e = SysBlocked \<or> (e = ExitProcess (-1) \<and> room (bufs n) = 0) \<or>
        (e = NullDeref \<and> room (bufs n) = 1)"
  using ok
proof (cases rule: read_request_cases [of n junk fd])
  case (got es d)
  show ?thesis
  proof (cases "room (bufs n) = 1")
    case True
    with got(1) process_no_memory show ?thesis by (simp add: request_client_def)
  next
    case False
    with got(3) have r: "1 < room (bufs n)" by simp
    let ?n1 = "set_conn fd (\<lambda>c. c\<lparr>inbox := es\<rparr>) n"
    note pr = process_after_read [OF ok got(2) r, of ?n1]
    obtain B where B: "bind_res (free_cell (both_bufs n d) (Some (fresh (bufs n))))
      (\<lambda>B1. free_cell B1 (Some (Suc (fresh (bufs n))))) = Inr B"
      "cells B = cells (bufs n)" "room B = room (bufs n)" by (rule free_both [OF ok r])
    have lm: "nat 10 \<le> length (munged d)" using got(2) by simp
    consider "send_response (munged d) 10 (wire (conn_of ?n1 fd)) (outbox (conn_of ?n1 fd)) = Inl SysBlocked"
      | w ts where "send_response (munged d) 10 (wire (conn_of ?n1 fd)) (outbox (conn_of ?n1 fd)) = Inr (w, ts)"
      by (rule send_response_cases [OF _ _ lm]) auto
    then show ?thesis
      using got(1) pr B by cases (auto simp: request_client_def send_buffer_def)
  qed
qed (auto simp: request_client_def)

text \<open>Three open connections for the examples.\<close>

definition requests :: "char list" where "requests = map (\<lambda>i. char_of (i + 65 :: nat)) [0..<10]"

definition demo_net :: net where
  "demo_net =
     \<lparr>conns = [4 \<mapsto> \<lparr>inbox = [Bytes (take 3 requests), Read_fails EINTR, Bytes (drop 3 requests)],
                     outbox = [Takes 4, Write_fails EAGAIN, Takes 50], wire = []\<rparr>,
               5 \<mapsto> \<lparr>inbox = [Bytes (take 7 requests), Hangup], outbox = [], wire = []\<rparr>],
      closed = [],
      bufs = \<lparr>cells = Map.empty, fresh = 0, room = 8\<rparr>\<rparr>"

lemma demo_net_ok: "heap_ok (bufs demo_net)" "1 < room (bufs demo_net)"
  by (simp_all add: demo_net_def heap_ok_def)

theorem request_client_memory_witness:
  "case request_client process_request [] 5 4 demo_net of
     Inr n' \<Rightarrow> cells (bufs n') = Map.empty \<and> room (bufs n') = 8
   | Inl e \<Rightarrow> e = SysBlocked"
  using request_client_memory [OF demo_net_ok(1), of "[]" 5 4]
  by (simp add: demo_net_def split: sum.splits)

section \<open>Reading and writing\<close>

text \<open>
  C26: \<open>correct_read\<close> reads a fixed number of bytes. Whatever the pieces the bytes arrive in and
  however often a read is interrupted: when \<open>len\<close> bytes come before the end of the stream, it answers
  \<open>len\<close>, the buffer starts with exactly these bytes and keeps the rest of its contents, and the bytes
  after them are still there for the next call. Otherwise it answers 0 when the peer closes, -1 when
  the connection breaks, and sleeps for ever when nothing more comes.
\<close>

theorem correct_read_outcome:
  assumes "0 \<le> len" "len < 2 ^ 31" "nat len \<le> length data"
  shows "if nat len \<le> length (fst (incoming es))
    then \<exists>es'. correct_read data len es =
           Inr (len, take (nat len) (fst (incoming es)) @ drop (nat len) data, es') \<and>
         incoming es' = (drop (nat len) (fst (incoming es)), snd (incoming es))
    else case snd (incoming es) of
           Waits \<Rightarrow> correct_read data len es = Inl SysBlocked
         | Closes \<Rightarrow> \<exists>data' es'. correct_read data len es = Inr (0, data', es')
         | Breaks \<Rightarrow> \<exists>data' es'. correct_read data len es = Inr (-1, data', es')"
proof -
  have "take (nat len - nat len) data = []" by simp
  with read_loop_outcome [OF order.refl assms, of es] show ?thesis
    unfolding correct_read_def read_outcome_def diff_zero by (simp only: append_Nil)
qed

theorem correct_read_outcome_witness:
  "(\<exists>es'. correct_read (replicate 4 NUL) 4 [Bytes ''ab'', Read_fails EINTR, Bytes ''cdef''] =
      Inr (4, ''abcd'', es') \<and> incoming es' = (''ef'', Waits)) \<and>
   (\<exists>d es'. correct_read (replicate 4 NUL) 4 [Bytes ''ab'', Hangup] = Inr (0, d, es'))"
  using correct_read_outcome [of 4 "replicate 4 NUL" "[Bytes ''ab'', Read_fails EINTR, Bytes ''cdef'']"]
    correct_read_outcome [of 4 "replicate 4 NUL" "[Bytes ''ab'', Hangup]"]
  by simp

text \<open>
  C27: what \<open>correct_write\<close> sends \<open>correct_read\<close> receives. Any buffer, written with partial and
  interrupted writes of any sizes, and arriving in pieces of any sizes, before whatever the peer sends
  next, is read back byte for byte.
\<close>

theorem write_then_read:
  assumes len: "0 \<le> len" "len < 2 ^ 31" "nat len \<le> length data" "nat len \<le> length buf"
    and w: "correct_write data len w0 ts = Inr (len, w0 @ w, ts')" "0 < len"
    and es: "fst (incoming es) = w @ later"
  shows "\<exists>es'. correct_read buf len es = Inr (len, take (nat len) data @ drop (nat len) buf, es') \<and>
    fst (incoming es') = later"
proof -
  have "write_loop len 0 data (w0 @ take (nat 0) data) ts = Inr (len, w0 @ w, ts')"
    using w len(1) by (simp add: correct_write_def)
  from write_loop_prefix [OF _ _ len(2,3) this] w(2) have sent: "w = take (nat len) data" by auto
  then have "nat len \<le> length (fst (incoming es))" using es len(3) by simp
  with correct_read_enough [OF len(1,2,4), of es] es sent len(3) show ?thesis
    by (metis (no_types, lifting) append_eq_conv_conj fst_conv length_take min_absorb2)
qed

theorem write_then_read_witness:
  "\<exists>es'. correct_read (replicate 5 NUL) 3 [Bytes ''x'', Bytes ''yzrest''] =
     Inr (3, ''xyz'' @ replicate 2 NUL, es') \<and> fst (incoming es') = ''rest''"
proof -
  have w: "correct_write ''xyz'' 3 [] [Takes 1, Write_fails EINTR, Takes 9] = Inr (3, [] @ ''xyz'', [])"
    by code_simp
  from write_then_read [OF _ _ _ _ w, of "replicate 5 NUL" "[Bytes ''x'', Bytes ''yzrest'']" "''rest''"]
  show ?thesis by (simp add: numeral_3_eq_3 numeral_2_eq_2)
qed

section \<open>Requests\<close>

text \<open>
  C28: what the server computes. The 500000 passes of exchanges in \<open>process_request\<close> keep the first byte
  of a request and rotate the other nine by five places; the request itself and every other buffer
  keep their contents.
\<close>

theorem process_request_rotates:
  assumes "0 < room (bufs n)" "heap_ok (bufs n)" "cells (bufs n) a = Some (c # cs)" "length cs = 9"
  shows "\<exists>b n'. process_request (Some a) n = Inr (Some b, 10, n') \<and>
    cells (bufs n') = (cells (bufs n))(b \<mapsto> c # drop 5 cs @ take 5 cs) \<and> cells (bufs n) b = None"
  using process_request_result [OF assms(1-3)] assms
  by (simp add: munged_def rotate_drop_take)

theorem process_request_rotates_witness:
  "\<exists>b n'. process_request (Some 3)
       (demo_net\<lparr>bufs := \<lparr>cells = [3 \<mapsto> ''0123456789''], fresh = 4, room = 2\<rparr>\<rparr>) = Inr (Some b, 10, n') \<and>
     cells (bufs n') b = Some ''0678912345''"
proof -
  let ?n = "demo_net\<lparr>bufs := \<lparr>cells = [3 \<mapsto> ''0123456789''], fresh = 4, room = 2\<rparr>\<rparr>"
  have "0 < room (bufs ?n)" "heap_ok (bufs ?n)" "cells (bufs ?n) 3 = Some (CHR ''0'' # ''123456789'')"
    "length ''123456789'' = 9" by (simp_all add: heap_ok_iff)
  from process_request_rotates [OF this] show ?thesis by (auto simp: fun_upd_def)
qed

text \<open>A request that arrives whole is answered.\<close>

lemma request_client_answer:
  assumes ok: "heap_ok (bufs n)" "1 < room (bufs n)"
    and c: "conns n fd = Some c" "10 \<le> length (fst (incoming (inbox c)))"
    and out: "steady (outbox c)" "10 \<le> taken (outbox c)"
  obtains n' c' where "request_client process_request junk fd stalk n = Inr n'" "conns n' = (conns n)(fd := None)"
    "closed n' = c' # closed n" "wire c' = wire c @ munged (take 10 (fst (incoming (inbox c))))"
    "incoming (inbox c') = (drop 10 (fst (incoming (inbox c))), snd (incoming (inbox c)))"
    "heap_ok (bufs n')" "room (bufs n') = room (bufs n)"
proof -
  let ?d = "take 10 (fst (incoming (inbox c)))"
  have cf: "conn_of n fd = c" using c(1) by (simp add: conn_of_def)
  have ld: "length ?d = 10" using c(2) by simp
  obtain es where es: "read_request junk fd n = Inr (Some (fresh (bufs n)),
      (set_conn fd (\<lambda>c. c\<lparr>inbox := es\<rparr>) n)\<lparr>bufs := fresh_buf n ?d\<rparr>)"
    "incoming es = (drop 10 (fst (incoming (inbox c))), snd (incoming (inbox c)))"
    by (rule read_request_full [of n fd junk, unfolded cf]) (use ok(2) c(2) in auto)
  let ?n1 = "set_conn fd (\<lambda>c. c\<lparr>inbox := es\<rparr>) n"
  note pr = process_after_read [OF ok(1) ld ok(2), of ?n1]
  obtain B where B: "bind_res (free_cell (both_bufs n ?d) (Some (fresh (bufs n))))
      (\<lambda>B1. free_cell B1 (Some (Suc (fresh (bufs n))))) = Inr B"
      "cells B = cells (bufs n)" "room B = room (bufs n)" "heap_ok B" by (rule free_both [OF ok])
  have lm: "nat 10 \<le> length (munged ?d)" using ld by simp
  obtain ts where "correct_write (munged ?d) 10 (wire c) (outbox c) =
      Inr (10, wire c @ take (nat 10) (munged ?d), ts)"
    by (rule correct_write_whole [OF _ _ lm out(1), of "wire c"]) (use out(2) in auto)
  then have s: "send_response (munged ?d) 10 (wire c) (outbox c) = Inr (wire c @ munged ?d, ts)"
    using ld by (simp add: send_response_def)
  let ?c = "c\<lparr>inbox := es, wire := wire c @ munged ?d, outbox := ts\<rparr>"
  have "request_client process_request junk fd stalk n =
      Inr (n\<lparr>conns := (conns n)(fd := None), closed := ?c # closed n, bufs := B\<rparr>)"
    using es(1) pr s B(1) c(1)
    by (auto simp: request_client_def send_buffer_def conn_of_def set_conn_def close_fd_def bind_res_assoc
        bind_res_Inr_iff)
  then show ?thesis by (rule that [where c' = ?c]) (use es(2) B in simp_all)
qed


definition server_side :: net where
  "server_side =
     \<lparr>conns = [4 \<mapsto> \<lparr>inbox = [Bytes (take 3 client_request), Bytes (drop 3 client_request)],
                     outbox = [Takes 4, Write_fails EAGAIN, Takes 50], wire = []\<rparr>],
      closed = [], bufs = \<lparr>cells = Map.empty, fresh = 0, room = 8\<rparr>\<rparr>"

definition client_side :: net where
  "client_side =
     \<lparr>conns = [6 \<mapsto> \<lparr>inbox = [Read_fails EINTR, Bytes (map char_of [0, 6 :: nat]),
                       Bytes (map char_of [7, 8, 9, 1, 2, 3, 4, 5 :: nat])],
                     outbox = [Takes 2, Takes 8], wire = []\<rparr>],
      closed = [], bufs = \<lparr>cells = Map.empty, fresh = 0, room = 0\<rparr>\<rparr>"


text \<open>
  C39: the descriptor. \<open>request_client\<close> never uses its argument: with whatever the stack holds not an
  open descriptor, it returns with the dispatched connection \<open>stalk\<close>, and every other, as it was:
  unread, unanswered and open.
\<close>

theorem request_client_ignores_argument:
  assumes "conns n stack_int = None" and "0 < room (bufs n)" and "conns n stalk = Some c"
  shows "\<exists>n'. request_client process_request junk stack_int stalk n = Inr n' \<and>
    conns n' = conns n \<and> closed n' = closed n \<and>
    (\<forall>other. request_client process_request junk stack_int other n = Inr n')"
proof -
  let ?d = "take 10 (junk @ replicate 10 NUL)"
  have "correct_read ?d 10 [Read_fails EBADF] = Inr (-1, ?d, [])"
    by (simp add: correct_read_def read_loop.simps [of _ 0] EBADF_def EAGAIN_def EINTR_def)
  with assms(1,2) show ?thesis
    by (simp add: request_client_def read_request_def conn_of_def bad_conn_def malloc_room
        REQUEST_SIZE_def set_conn_def close_fd_def)
qed

theorem request_client_ignores_argument_witness:
  "\<exists>n'. request_client process_request [] 9 4 demo_net = Inr n' \<and> conns n' = conns demo_net"
proof -
  obtain c where "conns demo_net 4 = Some c" by (simp add: demo_net_def)
  moreover have "conns demo_net 9 = None" "0 < room (bufs demo_net)" by (simp_all add: demo_net_def)
  ultimately show ?thesis using request_client_ignores_argument [of demo_net 9 4 c "[]"] by blast
qed

text \<open>
  C40: \<open>server_io.c\<close> cannot answer. Whatever complete request arrives and whatever \<open>/tmp/test.txt\<close> holds,
  \<open>request_client\<close> stops: without the file on the NULL \<open>FILE\<close>, with a first word of 255 characters or
  more on the overflow of the array, else on the use of the array after its function has returned.
\<close>

theorem server_io_never_answers:
  assumes "0 < room (bufs n)" "heap_ok (bufs n)" "10 \<le> length (fst (incoming (inbox (conn_of n fd))))"
  shows "request_client_io file buff_junk stack_len junk fd stalk n =
    Inl (case file of
           None \<Rightarrow> NullDeref
         | Some text \<Rightarrow>
             if 255 \<le> length (takeWhile (\<lambda>c. \<not> isspace c) (dropWhile isspace text))
             then BufferOverflow else Dangling)"
proof -
  obtain es where es: "read_request junk fd n = Inr (Some (fresh (bufs n)),
      (set_conn fd (\<lambda>c. c\<lparr>inbox := es\<rparr>) n)\<lparr>bufs :=
         fresh_buf n (take 10 (fst (incoming (inbox (conn_of n fd)))))\<rparr>)"
    by (rule read_request_full [OF assms(1,3)])
  have blank: "length (takeWhile P (dropWhile isspace xs)) = 0" if "\<forall>x\<in>set xs. isspace x" for P xs
    using that by (simp add: dropWhile_eq_Nil_conv [THEN iffD2])
  show ?thesis
    by (auto simp: blank request_client_io_def request_client_def es process_request_io_def scan_word_def Let_def
        send_buffer_def case_prod_unfold split: option.splits)
qed

theorem server_io_never_answers_witness:
  "request_client_io (Some ''hello world'') [] 10 [] 4 4 demo_net = Inl Dangling"
proof -
  have "length requests = 10" by (simp add: requests_def)
  then have l: "10 \<le> length (fst (incoming (inbox (conn_of demo_net 4))))"
    by (simp add: conn_of_def demo_net_def)
  have r: "0 < room (bufs demo_net)" by (simp add: demo_net_def)
  have w: "\<not> 255 \<le> length (takeWhile (\<lambda>c. \<not> isspace c) (dropWhile isspace ''hello world''))"
    by (simp add: isspace_def)
  from server_io_never_answers [OF r demo_net_ok(1) l, of "Some ''hello world''" "[]" 10 "[]" 4] w
  show ?thesis by simp
qed

section \<open>The server's loop\<close>

text \<open>
  One turn of the server's loop. A connection that is accepted, with the pool's mutex free and no
  worker waiting, becomes the last job of the pool's queue, as a call of \<open>request_client\<close> on its
  descriptor; the count of dispatches goes up, the jobs queued before keep their places, and the
  listening thread gives the processor to the next thread. A failed accept ends the process.
\<close>

theorem server_turn_queues:
  assumes inv: "ul_inv tid kth (srv_lib v) cur ts" and nroom: "0 < room (qnodes (srv_lib v))"
    and q: "task_queue a (srv_pool v) xs" and room: "0 < room (tasks (srv_pool v))"
    and p: "cells (pools (srv_pool v)) a = Some p" "mutex_free (srv_lib v) (pool_mutex p)"
      "cond_rep (srv_lib v) (pool_cond p) ts []"
  shows "if accept_call env socket < 0 then server_turn tid env (Some a) socket v = Inl (ExitProcess 1)
    else \<exists>c v' t. server_turn tid env (Some a) socket v = Inr (Switched (hd (ts @ [cur])) c, v') \<and>
      task_queue a (srv_pool v') (xs @ [(t, (Some client_routine, accept_call env socket))]) \<and>
      count_dispatches v' = count_dispatches v + 1 \<and>
      open_fds (srv_socks v') = accept_call env socket # open_fds (srv_socks v) \<and>
      ul_inv tid kth (srv_lib v') (hd (ts @ [cur])) (tl (ts @ [cur]))"
proof (cases "accept_call env socket < 0")
  case False
  from dispatch_result [OF inv nroom q room p, of "Some client_routine" "accept_call env socket"] False
  show ?thesis by (auto simp: server_turn_def saccept_def Let_def)
qed (simp add: server_turn_def saccept_def sys_failed_def)

definition demo_env :: sys_env where
  "demo_env =
     \<lparr>inet_addr = \<lambda>_. 0, gethostbyname = \<lambda>_. None, getservbyname = \<lambda>_ _. None,
      getprotobyname = [''tcp'' \<mapsto> 6], socket_call = \<lambda>_ _ _. 3, bind_call = \<lambda>_ _. 0,
      connect_call = \<lambda>_ _. 0, listen_call = \<lambda>_ _. 0, accept_call = \<lambda>_. 4,
      getsockname_call = \<lambda>_. (0, 2, 80), select_read = \<lambda>_. 1, last_errno = 111,
      sys_errlist = \<lambda>_. ''Connection refused''\<rparr>"

definition demo_server :: server where
  "demo_server = \<lparr>srv_pool = one_pool, srv_lib = demo,
     srv_socks = \<lparr>serrno = 0, sename = None, open_fds = [3]\<rparr>, count_dispatches = 0\<rparr>"

theorem server_turn_queues_witness:
  "\<exists>c v' t. server_turn 7 demo_env (Some 0) 3 demo_server = Inr (Switched 1 c, v') \<and>
     task_queue 0 (srv_pool v') [(t, (Some client_routine, 4))] \<and> open_fds (srv_socks v') = [4, 3]"
proof -
  let ?v = demo_server
  have v: "srv_lib ?v = demo" "srv_pool ?v = one_pool" by (simp_all add: demo_server_def)
  have r: "0 < room (qnodes (srv_lib ?v))" "0 < room (tasks (srv_pool ?v))"
    using demo_room by (simp_all add: v one_pool_def)
  obtain p where p: "cells (pools one_pool) 0 = Some p" "pool_mutex p = 1" "pool_cond p = 1"
    by (simp add: one_pool_def)
  have q: "task_queue 0 (srv_pool ?v) []" using one_pool_queue by (simp add: v)
  have p': "cells (pools (srv_pool ?v)) 0 = Some p" "mutex_free (srv_lib ?v) (pool_mutex p)"
    "cond_rep (srv_lib ?v) (pool_cond p) [1, 2] []" using p demo_pool_ready by (simp_all add: v)
  have inv: "ul_inv 7 0 (srv_lib ?v) main_thread [1, 2]" using demo_inv by (simp add: v)
  from server_turn_queues [OF inv r(1) q r(2) p', of demo_env 3]
  show ?thesis by (auto simp: demo_env_def demo_server_def)
qed

end
