(* ===== verification/Pool_Run.thy ===== *)
theory Pool_Run
  imports Threadpool Fork_Start
begin

text \<open>
  The pool of \<open>server/threadpool.c\<close> at work, on one kernel thread: what happens between a dispatch and
  the moment the dispatching thread goes on. The locale \<open>worker_pool\<close> is what a program has to
  provide: workers that run \<open>threadpool_scheduler\<close>, and the jobs they are given.
\<close>

section \<open>A signal\<close>

text \<open>What \<open>mypthread_cond_signal\<close> does for a running thread: the first waiter, if any, is woken.\<close>

definition signalled ::
  "int \<Rightarrow> nat \<Rightarrow> nat \<Rightarrow> nat \<Rightarrow> nat list \<Rightarrow> nat list \<Rightarrow> lib \<Rightarrow> lib \<Rightarrow> bool" where
  "signalled tid kth cnd x ts ws s s' \<longleftrightarrow>
     coop tid kth s' x ts \<and> cond_rep s' cnd ts (tl ws) \<and> mtxs s' = mtxs s \<and>
     (\<forall>t. active (thr s') (Some t) \<longleftrightarrow> active (thr s) (Some t) \<or> t \<in> set (take 1 ws)) \<and>
     room (qnodes s') + length (tl ws) = room (qnodes s) + length ws \<and> (\<forall>y. ctx_of s' y = ctx_of s y)"

lemma signal_one:
  assumes co: "coop tid kth s x ts" and c: "cond_rep s cnd ts ws"
  obtains s' where "mypthread_cond_signal cnd s = Inr (Returned 0, s')" "signalled tid kth cnd x ts ws s s'"
proof (cases ws)
  case Nil
  with cond_signal_nobody [OF coopD(2) [OF co]] c co show ?thesis
    by (intro that [of s]) (simp_all add: signalled_def)
next
  case (Cons w ws')
  obtain s' tw where s': "mypthread_cond_signal cnd s = Inr (Returned 0, s')" "coop tid kth s' x ts"
    "cond_rep s' cnd ts ws'" "thr s w = Some tw" "thr s' = (thr s)(w \<mapsto> tw\<lparr>th_state := PS_ACTIVE\<rparr>)"
    "room (qnodes s') = Suc (room (qnodes s))" "mtxs s' = mtxs s" "\<forall>y. ctx_of s' y = ctx_of s y"
    by (rule signal_coop [OF co c [unfolded Cons]])
  have "active (thr s') (Some t) \<longleftrightarrow> active (thr s) (Some t) \<or> t = w" for t
    using s'(5) by (simp add: active_def)
  with s' Cons show ?thesis by (intro that [of s']) (simp_all add: signalled_def)
qed

section \<open>The pool between its jobs\<close>

text \<open>
  The pool at address \<open>a\<close>, its mutex, its condition and the address and length of its array, with the
  jobs \<open>js\<close> queued.
\<close>

definition pool_at :: "nat \<Rightarrow> nat \<Rightarrow> nat \<Rightarrow> nat \<times> nat \<Rightarrow> (nat \<times> job) list \<Rightarrow> pool_mem \<Rightarrow> bool" where
  "pool_at a mtx cnd arr js m \<longleftrightarrow> task_queue a m js \<and> arrays m (fst arr) = Some (snd arr) \<and>
     (\<exists>p. cells (pools m) a = Some p \<and> pool_mutex p = mtx \<and> pool_cond p = cnd \<and> pool_threads p = fst arr)"

lemma pool_atE:
  assumes "pool_at a mtx cnd arr js m"
  obtains p where "cells (pools m) a = Some p" "pool_mutex p = mtx" "pool_cond p = cnd"
    "no_of_tasks_in_Q p = int (length js)" "task_queue a m js" "pool_threads p = fst arr"
    "arrays m (fst arr) = Some (snd arr)"
  using assms by (auto simp: pool_at_def task_queue_def)

text \<open>Taking a task leaves the arrays alone.\<close>

lemma take_task_arrays:
  assumes "take_task (Some a) m = Inr (c, m')" and "cells (pools m) a = Some p" and "cells (pools m') a = Some p'"
  shows "arrays m' = arrays m" and "pool_threads p' = pool_threads p"
  using assms
  by (auto simp: take_task_def modify_pool_def bind_res_Inr_iff Let_def split: if_splits)

text \<open>A worker, which holds the mutex, takes the only job; the count drops to 0, so it signals.\<close>

lemma pool_takes:
  assumes pa: "pool_at a mtx cnd arr [(t, j)] m" and co: "coop tid kth s x ts" and c: "cond_rep s cnd ts ws"
    and mx: "mtxs s mtx = Some mx" "blocked_q_head mx = None"
  obtains m' s' where
    "threadpool_scheduler tid call (Some a) At_test (m, s) = Inr (Returned 0, At_run (Some t), m',
       s'\<lparr>mtxs := (mtxs s)(mtx \<mapsto> mx\<lparr>mtx_lock := False\<rparr>)\<rparr>)"
    "signalled tid kth cnd x ts ws s s'" "tasks m' = tasks m" "cells (tasks m) t = Some (mktask None j None)"
    "\<forall>T. heap_ok T \<longrightarrow> pool_at a mtx cnd arr [] (m'\<lparr>tasks := T\<rparr>)"
proof -
  obtain p where p: "cells (pools m) a = Some p" "pool_mutex p = mtx" "pool_cond p = cnd"
    "no_of_tasks_in_Q p = int (length [(t, j)])" "task_queue a m [(t, j)]" "pool_threads p = fst arr"
    "arrays m (fst arr) = Some (snd arr)" by (rule pool_atE [OF pa])
  obtain m' where m': "take_task (Some a) m = Inr (Some (fst (t, j)), m')" "tasks m' = tasks m"
    "cells (tasks m) (fst (t, j)) = Some (mktask None (snd (t, j)) (first_addr ([]::(nat \<times> job) list) None))"
    "\<forall>T. (\<forall>y\<in>set ([]::(nat \<times> job) list). cells T (fst y) = cells (tasks m) (fst y)) \<and> heap_ok T \<longrightarrow>
       task_queue a (m'\<lparr>tasks := T\<rparr>) []"
    "\<forall>b. b \<noteq> a \<longrightarrow> cells (pools m') b = cells (pools m) b"
    "\<exists>p p'. cells (pools m) a = Some p \<and> cells (pools m') a = Some p' \<and>
       pool_mutex p' = pool_mutex p \<and> pool_cond p' = pool_cond p \<and> no_of_tasks_in_Q p' = int (length ([]::(nat \<times> job) list))"
    by (rule take_task_rep [OF p(5)])
  from m'(6) p obtain p' where p': "cells (pools m') a = Some p'" "pool_mutex p' = mtx" "pool_cond p' = cnd"
    "no_of_tasks_in_Q p' = 0" by auto
  note ar = take_task_arrays [OF m'(1) p(1) p'(1)]
  obtain s' where s': "mypthread_cond_signal cnd s = Inr (Returned 0, s')" "signalled tid kth cnd x ts ws s s'"
    by (rule signal_one [OF co c])
  then have free: "sems_free s'" and mt: "mtxs s' = mtxs s" by (auto simp: signalled_def dest: coopD(2))
  have "mypthread_mutex_unlock mtx s' = Inr (Returned 0, s'\<lparr>mtxs := (mtxs s)(mtx \<mapsto> mx\<lparr>mtx_lock := False\<rparr>)\<rparr>)"
    using unlock_unwaited [OF free, of mtx mx] mx mt by simp
  then have "take_and_release (Some a) (m, s) =
      Inr (Some t, m', s'\<lparr>mtxs := (mtxs s)(mtx \<mapsto> mx\<lparr>mtx_lock := False\<rparr>)\<rparr>)"
    using m'(1) p' s'(1) by (simp add: take_and_release_def)
  then have "threadpool_scheduler tid call (Some a) At_test (m, s) = Inr (Returned 0, At_run (Some t), m',
       s'\<lparr>mtxs := (mtxs s)(mtx \<mapsto> mx\<lparr>mtx_lock := False\<rparr>)\<rparr>)"
    using p by simp
  moreover have "pool_at a mtx cnd arr [] (m'\<lparr>tasks := T\<rparr>)" if "heap_ok T" for T
    using that m'(4) p' p(6,7) ar by (simp add: pool_at_def)
  ultimately show ?thesis using s'(2) m'(2,3) by (intro that [of m' s']) simp_all
qed

text \<open>A dispatch by a thread that finds the mutex free: two signals, and a yield.\<close>

lemma dispatch_signals:
  assumes pa: "pool_at a mtx cnd arr [] m" and room: "0 < room (tasks m)" and mu: "mutex_free s mtx"
    and co: "coop tid kth s x ts" and c: "cond_rep s cnd ts ws"
  obtains m' s' where
    "\<And>out s5. mypthread_yield tid s' = Inr (out, s5) \<Longrightarrow> dispatch tid (Some a) f v (m, s) = Inr (out, m', s5)"
    "coop tid kth s' x ts" "cond_rep s' cnd ts (tl (tl ws))" "mtxs s' = mtxs s"
    "\<forall>t. active (thr s') (Some t) \<longleftrightarrow> active (thr s) (Some t) \<or> t \<in> set (take 2 ws)"
    "room (qnodes s') + length (tl (tl ws)) = room (qnodes s) + length ws" "\<forall>y. ctx_of s' y = ctx_of s y"
    "pool_at a mtx cnd arr [(fresh (tasks m), (f, v))] m'" "Suc (room (tasks m')) = room (tasks m)"
proof -
  obtain p where p: "cells (pools m) a = Some p" "pool_mutex p = mtx" "pool_cond p = cnd"
    "no_of_tasks_in_Q p = int (length ([]::(nat \<times> job) list))" "task_queue a m []" "pool_threads p = fst arr"
    "arrays m (fst arr) = Some (snd arr)" by (rule pool_atE [OF pa])
  obtain mx where mx: "mtxs s mtx = Some mx" "\<not> mtx_lock mx" "blocked_q_head mx = None"
    "mx\<lparr>mtx_lock := False\<rparr> = mx" by (rule mutex_freeE [OF mu])
  let ?M = "(mtxs s)(mtx \<mapsto> mx\<lparr>mtx_lock := True\<rparr>)"
  have l: "mypthread_mutex_lock tid mtx s = Inr (Returned 0, s\<lparr>mtxs := ?M\<rparr>)"
    by (rule mutex_lock_free(1) [OF coopD(2) [OF co] mx(1,2)])
  have co1: "coop tid kth (s\<lparr>mtxs := ?M\<rparr>) x ts" and c1: "cond_rep (s\<lparr>mtxs := ?M\<rparr>) cnd ts ws"
    using co c by simp_all
  obtain s1 where s1: "mypthread_cond_signal cnd (s\<lparr>mtxs := ?M\<rparr>) = Inr (Returned 0, s1)"
    "signalled tid kth cnd x ts ws (s\<lparr>mtxs := ?M\<rparr>) s1" by (rule signal_one [OF co1 c1])
  then have co2: "coop tid kth s1 x ts" and c2: "cond_rep s1 cnd ts (tl ws)" by (simp_all add: signalled_def)
  obtain s2 where s2: "mypthread_cond_signal cnd s1 = Inr (Returned 0, s2)"
    "signalled tid kth cnd x ts (tl ws) s1 s2" by (rule signal_one [OF co2 c2])
  have mt: "mtxs s2 = ?M" and co3: "coop tid kth s2 x ts" using s1(2) s2(2) by (simp_all add: signalled_def)
  let ?s3 = "s2\<lparr>mtxs := mtxs s\<rparr>"
  have u: "mypthread_mutex_unlock mtx s2 = Inr (Returned 0, ?s3)"
    using unlock_unwaited [OF coopD(2) [OF co3], of mtx "mx\<lparr>mtx_lock := True\<rparr>"] mx mt by (simp add: fun_upd_idem)
  obtain m' where m': "queue_job a (f, v) m = Inr m'" "task_queue a m' ([] @ [(fresh (tasks m), (f, v))])"
    "Suc (room (tasks m')) = room (tasks m)" "\<forall>b. b \<noteq> a \<longrightarrow> cells (pools m') b = cells (pools m) b"
    by (rule queue_job_rep [OF p(5) room])
  then obtain t m1 where t: "make_task f v m = Inr (t, m1)" "push_task (Some a) t m1 = Inr m'"
    by (auto simp: queue_job_def bind_res_Inr_iff)
  then have "load (pools m1) (Some a) = Inr p" using p(1) room by (auto simp: make_task_eq)
  then have d: "dispatch tid (Some a) f v (m, s) = bind_res (mypthread_yield tid ?s3) (\<lambda>(out, s5). Inr (out, m', s5))"
    using t p l s1(1) s2(1) u by (simp add: dispatch_def)
  have "pool_at a mtx cnd arr [(fresh (tasks m), (f, v))] m'"
  proof -
    from m'(1) p room have "arrays m' = arrays m \<and>
        (\<exists>p'. cells (pools m') a = Some p' \<and> pool_mutex p' = mtx \<and> pool_cond p' = cnd \<and> pool_threads p' = fst arr)"
      by (auto simp: queue_job_def make_task_eq push_task_def modify_pool_eq modify_task_eq)
    with m'(2) p(7) show ?thesis by (simp add: pool_at_def)
  qed
  moreover have "set (take 2 ws) = set (take 1 ws) \<union> set (take 1 (tl ws))"
    by (cases ws; cases "tl ws") auto
  ultimately show ?thesis
    using s1(2) s2(2) d m'(3)
    by (intro that [of ?s3 m']) (simp_all add: signalled_def disj_ac)
qed

section \<open>The interface\<close>

text \<open>
  \<open>worker at\<close> is the frame of a worker that stands at \<open>at\<close>; \<open>mem\<close> and \<open>put\<close> read and write the pool's
  memory in the shared data; \<open>job f v\<close> is what the routine \<open>f\<close> does with argument \<open>v\<close>. The routines
  run outside the library and leave the pool alone.
\<close>

locale worker_pool =
  fixes tid :: int and P :: "('f, 'd) program" and worker :: "worker_at \<Rightarrow> 'f"
    and a mtx cnd :: nat and arr :: "nat \<times> nat" and mem :: "'d \<Rightarrow> pool_mem" and put :: "pool_mem \<Rightarrow> 'd \<Rightarrow> 'd"
    and job :: "nat \<Rightarrow> int \<Rightarrow> 'd \<Rightarrow> 'd res"
  assumes tests: "(\<And>cur. at \<noteq> At_run cur) \<Longrightarrow> code P tid (worker at) d s =
      bind_res (threadpool_scheduler tid (\<lambda>_ _ st. Inr st) (Some a) at (mem d, s)) (\<lambda>(out, at', m, s').
      Inr (Calls out (worker at'), put m d, s'))"
    and takes: "threadpool_scheduler tid (\<lambda>_ _ st. Inr st) (Some a) At_test (mem d, s) =
        Inr (Returned 0, At_run cur, m, s') \<Longrightarrow>
      code P tid (worker At_test) d s = Inr (Calls (Returned 0) (worker (At_run cur)), put m d, s')"
    and runs: "\<lbrakk>load (tasks (mem d)) cur = Inr t; task_func t = Some f; job f (task_arg t) d = Inr d';
        free_cell (tasks (mem d)) cur = Inr T\<rbrakk> \<Longrightarrow>
      code P tid (worker (At_run cur)) d s =
        Inr (Calls (Returned 0) (worker At_lock), put ((mem d)\<lparr>tasks := T\<rparr>) d', s)"
    and stops: "\<lbrakk>load (tasks (mem d)) cur = Inr t; task_func t = Some f; job f (task_arg t) d = Inl e\<rbrakk> \<Longrightarrow>
      code P tid (worker (At_run cur)) d s = Inl e"
    and starts: "start_frame P worker_routine (int a) = worker At_lock"
    and mem_put [simp]: "mem (put m d) = m" and put_put [simp]: "put m (put m' d) = put m d"
    and put_mem [simp]: "put (mem d) d = d"
    and job_put: "job f v (put m d) = bind_res (job f v d) (\<lambda>d'. Inr (put m d'))"
begin

text \<open>A worker that gets the processor stands before the lock of the mutex, or inside that call.\<close>

definition door :: "'f place \<Rightarrow> bool" where
  "door p \<longleftrightarrow> p = At (worker At_lock) \<or> p = In_lock mtx (Some (worker At_test))"

definition at_door :: "(nat \<Rightarrow> 'f place) \<Rightarrow> lib \<Rightarrow> nat \<Rightarrow> bool" where
  "at_door st s t \<longleftrightarrow> (\<exists>c q. ctx_of s t = Some c \<and> resumed P c (st t) = Inr q \<and> door q)"

text \<open>
  The main thread runs in \<open>f\<close>. The run queue has the workers \<open>act\<close>, which may run, and behind them
  the workers \<open>blk\<close>, which wait for the condition, in this order.
\<close>

definition resting :: "nat \<Rightarrow> 'f \<Rightarrow> (nat \<Rightarrow> 'f place) \<Rightarrow> lib \<Rightarrow> nat list \<Rightarrow> nat list \<Rightarrow> bool" where
  "resting kth f st s act blk \<longleftrightarrow>
     coop tid kth s main_thread (act @ blk) \<and> cond_rep s cnd (act @ blk) blk \<and>
     (\<forall>t\<in>set act. active (thr s) (Some t)) \<and> (\<forall>t\<in>set blk. \<not> active (thr s) (Some t)) \<and>
     (\<forall>t\<in>set (act @ blk). at_door st s t) \<and> mutex_free s mtx \<and> st main_thread = At f \<and>
     length (act @ blk) < room (qnodes s) + length blk"

text \<open>
  Worker \<open>x\<close> runs; the main thread, to go on in \<open>f\<close>, stands behind the workers that have not waited
  again since it left the processor, and \<open>new\<close> are those that have.
\<close>

definition stage ::
  "nat \<Rightarrow> 'f \<Rightarrow> (nat \<Rightarrow> 'f place) \<Rightarrow> lib \<Rightarrow> nat \<Rightarrow> nat list \<Rightarrow> nat list \<Rightarrow> nat list \<Rightarrow> bool" where
  "stage kth f st s x act blk new \<longleftrightarrow>
     coop tid kth s x (act @ blk @ main_thread # new) \<and>
     cond_rep s cnd (act @ blk @ main_thread # new) (blk @ new) \<and>
     (\<forall>t\<in>insert main_thread (set act). active (thr s) (Some t)) \<and>
     (\<forall>t\<in>set (blk @ new). \<not> active (thr s) (Some t)) \<and>
     (\<forall>t\<in>set (act @ blk @ new). at_door st s t) \<and> mutex_free s mtx \<and> door (st x) \<and>
     ready P st s main_thread f \<and>
     Suc (length (act @ blk @ new)) < room (qnodes s) + length (blk @ new)"

text \<open>The running worker locks the mutex.\<close>

lemma stage_locks:
  assumes sg: "stage kth f st s x act blk new" and p: "pool_at a mtx cnd arr js (mem d)"
  obtains mx where "mtxs s mtx = Some mx" "blocked_q_head mx = None" "mx\<lparr>mtx_lock := False\<rparr> = mx"
    "reaches tid P (config x st d s) (config x (st(x := At (worker At_test))) d
       (s\<lparr>mtxs := (mtxs s)(mtx \<mapsto> mx\<lparr>mtx_lock := True\<rparr>)\<rparr>))"
proof -
  from sg have mu: "mutex_free s mtx" and free: "sems_free s" and dr: "door (st x)"
    by (auto simp: stage_def dest: coopD(2))
  obtain mx where mx: "mtxs s mtx = Some mx" "\<not> mtx_lock mx" "blocked_q_head mx = None"
    "mx\<lparr>mtx_lock := False\<rparr> = mx" by (rule mutex_freeE [OF mu])
  have l: "mypthread_mutex_lock tid mtx s = Inr (Returned 0, s\<lparr>mtxs := (mtxs s)(mtx \<mapsto> mx\<lparr>mtx_lock := True\<rparr>)\<rparr>)"
    by (rule mutex_lock_free(1) [OF free mx(1,2)])
  obtain pl where pl: "cells (pools (mem d)) a = Some pl" "pool_mutex pl = mtx" by (rule pool_atE [OF p])
  from dr consider "st x = At (worker At_lock)" | "st x = In_lock mtx (Some (worker At_test))"
    by (auto simp: door_def)
  then have "machine_step tid P (config x st d s) = Inr (Runs (config x (st(x := At (worker At_test))) d
       (s\<lparr>mtxs := (mtxs s)(mtx \<mapsto> mx\<lparr>mtx_lock := True\<rparr>)\<rparr>)))"
    using l pl tests [of At_lock] by cases (simp_all add: machine_step_def)
  from reaches_step [OF this] mx show ?thesis by (intro that)
qed

text \<open>With nothing to do it waits, and the first active thread of the queue goes on.\<close>

lemma stage_switch:
  assumes sg: "stage kth f st s x act blk new" and p: "pool_at a mtx cnd arr [] (mem d)"
    and ts: "act @ blk @ main_thread # new = as @ y # bs" and na: "\<forall>t\<in>set as. \<not> active (thr s) (Some t)"
    and ya: "active (thr s) (Some y)" and q: "ctx_of s y = Some c" "resumed P c (st y) = Inr q"
  obtains s' where
    "reaches tid P (config x st d s) (config y (st(x := At (worker At_test), y := q)) d s')"
    "coop tid kth s' y (as @ bs @ [x])" "cond_rep s' cnd (as @ bs @ [x]) (blk @ new @ [x])"
    "\<forall>t. active (thr s') (Some t) \<longleftrightarrow> t \<noteq> x \<and> active (thr s) (Some t)" "mutex_free s' mtx"
    "\<forall>t\<in>set (as @ y # bs). ctx_of s' t = ctx_of s t \<and> t \<noteq> x"
    "at_door (st(x := At (worker At_test), y := q)) s' x" "Suc (room (qnodes s')) = room (qnodes s)"
proof -
  obtain mx where mx: "mtxs s mtx = Some mx" "blocked_q_head mx = None" "mx\<lparr>mtx_lock := False\<rparr> = mx"
    "reaches tid P (config x st d s) (config x (st(x := At (worker At_test))) d
       (s\<lparr>mtxs := (mtxs s)(mtx \<mapsto> mx\<lparr>mtx_lock := True\<rparr>)\<rparr>))"
    by (rule stage_locks [OF sg p])
  let ?s1 = "s\<lparr>mtxs := (mtxs s)(mtx \<mapsto> mx\<lparr>mtx_lock := True\<rparr>)\<rparr>"
  have co: "coop tid kth s x (as @ y # bs)" and c1: "cond_rep ?s1 cnd (as @ y # bs) (blk @ new)"
    using sg by (simp_all add: stage_def ts)
  then have co1: "coop tid kth ?s1 x (as @ y # bs)" by simp
  have rm: "1 < room (qnodes ?s1)" using sg by (simp add: stage_def)
  have m1: "mtxs ?s1 mtx = Some (mx\<lparr>mtx_lock := True\<rparr>)" "blocked_q_head (mx\<lparr>mtx_lock := True\<rparr>) = None"
    using mx(2) by simp_all
  obtain tc where tc: "thr ?s1 x = Some tc" using coop_cur [OF co1] by metis
  have na1: "\<forall>t\<in>set as. \<not> active (thr ?s1) (Some t)" and ya1: "active (thr ?s1) (Some y)" using na ya by simp_all
  obtain c' s' where s': "mypthread_cond_wait tid cnd mtx ?s1 = Inr (Switched y c', s')"
    "coop tid kth s' y (as @ bs @ [x])" "cond_rep s' cnd (as @ bs @ [x]) ((blk @ new) @ [x])"
    "thr s' = (thr ?s1)(x \<mapsto> tc\<lparr>th_state := PS_BLOCKED\<rparr>)"
    "mtxs s' = (mtxs ?s1)(mtx \<mapsto> mx\<lparr>mtx_lock := True\<rparr>\<lparr>mtx_lock := False\<rparr>)"
    "ctx_of ?s1 y = Some c'" "ctx_of s' x = Some (Ctx_saved (Resume_cond_wait mtx))"
    "\<forall>t\<in>set (as @ y # bs). ctx_of s' t = ctx_of ?s1 t" "Suc (room (qnodes s')) = room (qnodes ?s1)"
    by (rule cond_wait_blocks [OF co1 c1 m1 rm refl na1 ya1 tc])
  have d: "x \<notin> set (as @ y # bs)" using coopD(5) [OF co] by simp
  then have ne: "y \<noteq> x" by auto
  have cc: "c' = c" using s'(6) q(1) by simp
  obtain pl where pl: "cells (pools (mem d)) a = Some pl" "pool_mutex pl = mtx" "pool_cond pl = cnd"
    "no_of_tasks_in_Q pl = int (length ([]::(nat \<times> job) list))" by (rule pool_atE [OF p])
  have "machine_step tid P (config x (st(x := At (worker At_test))) d ?s1) =
      Inr (Runs (config y (st(x := At (worker At_test), y := q)) d s'))"
    using s'(1) cc pl tests [of At_test d ?s1] ne q(2) by (simp add: machine_step_def Let_def)
  note r = reaches_trans [OF mx(4) reaches_step [OF this]]
  have "at_door (st(x := At (worker At_test), y := q)) s' x"
    using s'(7) ne by (simp add: at_door_def door_def)
  moreover have "mutex_free s' mtx" using s'(5) mx(2) by (simp add: mutex_free_def)
  moreover have "\<forall>t. active (thr s') (Some t) \<longleftrightarrow> t \<noteq> x \<and> active (thr s) (Some t)"
    using s'(4) by (simp add: active_def)
  ultimately show ?thesis using r s'(2,3,8,9) d by (intro that [of s']) auto
qed

lemma stage_waits:
  assumes sg: "stage kth f st s x (y # act) blk new" and p: "pool_at a mtx cnd arr [] (mem d)"
  obtains st' s' where "reaches tid P (config x st d s) (config y st' d s')"
    "stage kth f st' s' y act blk (new @ [x])"
proof -
  from sg obtain c q where q: "ctx_of s y = Some c" "resumed P c (st y) = Inr q" "door q"
    and ya: "active (thr s) (Some y)" by (auto simp: stage_def at_door_def)
  have ts: "(y # act) @ blk @ main_thread # new = [] @ y # act @ blk @ main_thread # new" by simp
  let ?st = "st(x := At (worker At_test), y := q)"
  obtain s' where s': "reaches tid P (config x st d s) (config y ?st d s')"
    "coop tid kth s' y ([] @ (act @ blk @ main_thread # new) @ [x])"
    "cond_rep s' cnd ([] @ (act @ blk @ main_thread # new) @ [x]) (blk @ new @ [x])"
    "\<forall>t. active (thr s') (Some t) \<longleftrightarrow> t \<noteq> x \<and> active (thr s) (Some t)" "mutex_free s' mtx"
    "\<forall>t\<in>set ([] @ y # act @ blk @ main_thread # new). ctx_of s' t = ctx_of s t \<and> t \<noteq> x"
    "at_door ?st s' x" "Suc (room (qnodes s')) = room (qnodes s)"
    by (rule stage_switch [OF sg p ts _ ya q(1,2)]) simp_all
  have "distinct ((y # act) @ blk @ main_thread # new)" using sg coopD(5) by (fastforce simp: stage_def)
  then have ny: "\<forall>t\<in>set (act @ blk @ main_thread # new). t \<noteq> y" by auto
  have "stage kth f ?st s' y act blk (new @ [x])"
    unfolding stage_def
  proof (intro conjI ballI)
    show "coop tid kth s' y (act @ blk @ main_thread # new @ [x])" using s'(2) by simp
    show "cond_rep s' cnd (act @ blk @ main_thread # new @ [x]) (blk @ new @ [x])" using s'(3) by simp
    show "active (thr s') (Some t)" if "t \<in> insert main_thread (set act)" for t
      using that sg s'(4,6) by (auto simp: stage_def)
    show "\<not> active (thr s') (Some t)" if "t \<in> set (blk @ new @ [x])" for t
      using that sg s'(4) by (auto simp: stage_def)
    show "at_door ?st s' t" if "t \<in> set (act @ blk @ new @ [x])" for t
    proof (cases "t = x")
      case False
      with that have t: "t \<in> set (act @ blk @ new)" by auto
      then have "at_door st s t" using sg by (auto simp: stage_def)
      moreover have "t \<noteq> y" "ctx_of s' t = ctx_of s t" using t ny s'(6) by auto
      ultimately show ?thesis using False by (simp add: at_door_def)
    qed (use s'(7) in simp)
    show "ready P ?st s' main_thread f"
    proof -
      have "main_thread \<noteq> y" "main_thread \<noteq> x" "ctx_of s' main_thread = ctx_of s main_thread" using ny s'(6) by auto
      then show ?thesis using sg by (simp add: stage_def ready_def)
    qed
    show "door (?st y)" using q(3) by simp
    show "Suc (length (act @ blk @ new @ [x])) < room (qnodes s') + length (blk @ new @ [x])"
      using sg s'(8) by (simp add: stage_def)
  qed (use s'(5) in simp)
  with s'(1) show ?thesis by (rule that)
qed

lemma stage_ends:
  assumes sg: "stage kth f st s x [] blk new" and p: "pool_at a mtx cnd arr [] (mem d)"
  obtains st' s' where "reaches tid P (config x st d s) (config main_thread st' d s')"
    "resting kth f st' s' [] (blk @ new @ [x])"
proof -
  from sg obtain c where q: "ctx_of s main_thread = Some c" "resumed P c (st main_thread) = Inr (At f)"
    and ya: "active (thr s) (Some main_thread)" and na: "\<forall>t\<in>set blk. \<not> active (thr s) (Some t)"
    by (auto simp: stage_def ready_def)
  have ts: "[] @ blk @ main_thread # new = blk @ main_thread # new" by simp
  let ?st = "st(x := At (worker At_test), main_thread := At f)"
  obtain s' where s': "reaches tid P (config x st d s) (config main_thread ?st d s')"
    "coop tid kth s' main_thread (blk @ new @ [x])" "cond_rep s' cnd (blk @ new @ [x]) (blk @ new @ [x])"
    "\<forall>t. active (thr s') (Some t) \<longleftrightarrow> t \<noteq> x \<and> active (thr s) (Some t)" "mutex_free s' mtx"
    "\<forall>t\<in>set (blk @ main_thread # new). ctx_of s' t = ctx_of s t \<and> t \<noteq> x"
    "at_door ?st s' x" "Suc (room (qnodes s')) = room (qnodes s)"
    by (rule stage_switch [OF sg p ts na ya q])
  have "distinct (blk @ main_thread # new)" using sg coopD(5) by (fastforce simp: stage_def)
  then have nm: "\<forall>t\<in>set (blk @ new). t \<noteq> main_thread" by auto
  have "resting kth f ?st s' [] (blk @ new @ [x])"
    unfolding resting_def
  proof (intro conjI ballI)
    show "\<not> active (thr s') (Some t)" if "t \<in> set (blk @ new @ [x])" for t
      using that sg s'(4) by (auto simp: stage_def)
    show "at_door ?st s' t" if "t \<in> set ([] @ blk @ new @ [x])" for t
    proof (cases "t = x")
      case False
      with that have t: "t \<in> set (blk @ new)" by auto
      then have "at_door st s t" using sg by (auto simp: stage_def)
      moreover have "t \<noteq> main_thread" "ctx_of s' t = ctx_of s t" using t nm s'(6) by auto
      ultimately show ?thesis using False by (simp add: at_door_def)
    qed (use s'(7) in simp)
    show "length ([] @ blk @ new @ [x]) < room (qnodes s') + length (blk @ new @ [x])"
      using sg s'(8) by (simp add: stage_def)
  qed (use s'(2,3,5) in simp_all)
  with s'(1) show ?thesis by (rule that)
qed

text \<open>Once the queue is empty all workers come to wait, and the main thread goes on.\<close>

lemma stage_drains:
  assumes "stage kth f st s x act blk new" and "pool_at a mtx cnd arr [] (mem d)"
  shows "\<exists>st' s' ws. reaches tid P (config x st d s) (config main_thread st' d s') \<and>
    resting kth f st' s' [] ws \<and> set ws = insert x (set (act @ blk @ new))"
  using assms(1)
proof (induction act arbitrary: x st s new)
  case Nil
  obtain st' s' where "reaches tid P (config x st d s) (config main_thread st' d s')"
    "resting kth f st' s' [] (blk @ new @ [x])" by (rule stage_ends [OF Nil.prems assms(2)])
  then show ?case by (intro exI [of _ st'] exI [of _ s'] exI [of _ "blk @ new @ [x]"]) simp
next
  case (Cons y act)
  obtain st1 s1 where 1: "reaches tid P (config x st d s) (config y st1 d s1)"
    "stage kth f st1 s1 y act blk (new @ [x])" by (rule stage_waits [OF Cons.prems assms(2)])
  from Cons.IH [OF 1(2)] reaches_trans [OF 1(1)] show ?case by fastforce
qed

text \<open>With a job in the queue the first worker takes it and wakes one that waits.\<close>

lemma stage_takes:
  assumes sg: "stage kth f st s x act blk []" and p: "pool_at a mtx cnd arr [(t, j)] (mem d)"
  obtains s' m' where
    "reaches tid P (config x st d s) (config x (st(x := At (worker (At_run (Some t))))) (put m' d) s')"
    "stage kth f (st(x := At (worker At_lock))) s' x (act @ take 1 blk) (tl blk) []"
    "tasks m' = tasks (mem d)" "cells (tasks (mem d)) t = Some (mktask None j None)"
    "\<forall>T. heap_ok T \<longrightarrow> pool_at a mtx cnd arr [] (m'\<lparr>tasks := T\<rparr>)"
proof -
  obtain mx where mx: "mtxs s mtx = Some mx" "blocked_q_head mx = None" "mx\<lparr>mtx_lock := False\<rparr> = mx"
    "reaches tid P (config x st d s) (config x (st(x := At (worker At_test))) d
       (s\<lparr>mtxs := (mtxs s)(mtx \<mapsto> mx\<lparr>mtx_lock := True\<rparr>)\<rparr>))"
    by (rule stage_locks [OF sg p])
  let ?s1 = "s\<lparr>mtxs := (mtxs s)(mtx \<mapsto> mx\<lparr>mtx_lock := True\<rparr>)\<rparr>"
  let ?ts = "act @ blk @ [main_thread]"
  have co: "coop tid kth ?s1 x ?ts" and c: "cond_rep ?s1 cnd ?ts blk" using sg by (simp_all add: stage_def)
  have m1: "mtxs ?s1 mtx = Some (mx\<lparr>mtx_lock := True\<rparr>)" "blocked_q_head (mx\<lparr>mtx_lock := True\<rparr>) = None"
    using mx(2) by simp_all
  obtain m1 s2 where 2: "threadpool_scheduler tid (\<lambda>_ _ st. Inr st) (Some a) At_test (mem d, ?s1) =
      Inr (Returned 0, At_run (Some t), m1, s2\<lparr>mtxs := (mtxs ?s1)(mtx \<mapsto> mx\<lparr>mtx_lock := True\<rparr>\<lparr>mtx_lock := False\<rparr>)\<rparr>)"
    "signalled tid kth cnd x ?ts blk ?s1 s2" "tasks m1 = tasks (mem d)"
    "cells (tasks (mem d)) t = Some (mktask None j None)"
    "\<forall>T. heap_ok T \<longrightarrow> pool_at a mtx cnd arr [] (m1\<lparr>tasks := T\<rparr>)"
    by (rule pool_takes [OF p co c m1, where call = "\<lambda>_ _ st. Inr st"])
  let ?s3 = "s2\<lparr>mtxs := mtxs s\<rparr>"
  have e: "(mtxs ?s1)(mtx \<mapsto> mx\<lparr>mtx_lock := True\<rparr>\<lparr>mtx_lock := False\<rparr>) = mtxs s"
    using mx(1,3) by (simp add: fun_upd_idem)
  have "reaches tid P (config x (st(x := At (worker At_test))) d ?s1)
      (config x (st(x := At (worker (At_run (Some t))))) (put m1 d) ?s3)"
    using takes [OF 2(1)] e by (intro reaches_step) (simp add: machine_step_def)
  note r = reaches_trans [OF mx(4) this]
  have d: "x \<notin> set ?ts" "distinct ?ts" using coopD(5) [OF co] by simp_all
  have tk: "take 1 blk @ tl blk = blk" by (cases blk) simp_all
  then have st: "set (take 1 blk) \<union> set (tl blk) = set blk" by (metis set_append)
  have ap: "(act @ take 1 blk) @ tl blk @ [main_thread] = ?ts" using tk by (metis append.assoc)
  have ln: "length (take 1 blk) + length (tl blk) = length blk" using tk by (metis length_append)
  have "stage kth f (st(x := At (worker At_lock))) ?s3 x (act @ take 1 blk) (tl blk) []"
    unfolding stage_def append_Nil2 ap
  proof (intro conjI ballI)
    show "coop tid kth ?s3 x ?ts" "cond_rep ?s3 cnd ?ts (tl blk)"
      using 2(2) by (simp_all add: signalled_def)
    have act: "active (thr ?s3) (Some t) \<longleftrightarrow> active (thr s) (Some t) \<or> t \<in> set (take 1 blk)" for t
      using 2(2) by (simp add: signalled_def)
    show "active (thr ?s3) (Some t)" if "t \<in> insert main_thread (set (act @ take 1 blk))" for t
      using that sg act [of t] by (auto simp: stage_def)
    show "\<not> active (thr ?s3) (Some t)" if "t \<in> set (tl blk)" for t
    proof -
      have "t \<in> set blk" using that st by blast
      moreover have "t \<notin> set (take 1 blk)" using that d(2) by (cases blk) auto
      ultimately show ?thesis using sg act [of t] by (simp add: stage_def)
    qed
    show "at_door (st(x := At (worker At_lock))) ?s3 t" if "t \<in> set ((act @ take 1 blk) @ tl blk)" for t
    proof -
      have t: "t \<in> set (act @ blk)" using that st by auto
      then have "at_door st s t" "t \<noteq> x" using sg d(1) by (auto simp: stage_def)
      moreover have "ctx_of ?s3 t = ctx_of s t" using 2(2) by (simp add: signalled_def)
      ultimately show ?thesis by (simp add: at_door_def)
    qed
    show "mutex_free ?s3 mtx" using sg by (simp add: stage_def mutex_free_def)
    show "door ((st(x := At (worker At_lock))) x)" by (simp add: door_def)
    have "ctx_of ?s3 main_thread = ctx_of s main_thread" "main_thread \<noteq> x" using 2(2) d(1) by (auto simp: signalled_def)
    then show "ready P (st(x := At (worker At_lock))) ?s3 main_thread f" using sg by (simp add: stage_def ready_def)
    have "room (qnodes ?s3) + length (tl blk) = room (qnodes s) + length blk" using 2(2) by (simp add: signalled_def)
    moreover have "Suc (length act + length blk) < room (qnodes s) + length blk" using sg by (simp add: stage_def)
    ultimately show "Suc (length ((act @ take 1 blk) @ tl blk)) < room (qnodes ?s3) + length (tl blk)"
      using ln by simp
  qed
  with r 2(3-5) show ?thesis by (intro that [of m1 ?s3]) simp_all
qed

text \<open>It runs the job, and comes back to the lock; or it stops the program as the job does.\<close>

lemma stage_works:
  assumes sg: "stage kth f st s x act blk []" and p: "pool_at a mtx cnd arr [(t, (Some g, v))] (mem d)"
    and j: "job g v d = Inr d'"
  obtains st' s' m' where "reaches tid P (config x st d s) (config x st' (put m' d') s')"
    "stage kth f st' s' x (act @ take 1 blk) (tl blk) []" "pool_at a mtx cnd arr [] m'"
    "room (tasks m') = Suc (room (tasks (mem d)))"
proof -
  let ?run = "st(x := At (worker (At_run (Some t))))" and ?st = "st(x := At (worker At_lock))"
  obtain s1 m1 where 1: "reaches tid P (config x st d s) (config x ?run (put m1 d) s1)"
    "stage kth f ?st s1 x (act @ take 1 blk) (tl blk) []"
    "tasks m1 = tasks (mem d)" "cells (tasks (mem d)) t = Some (mktask None (Some g, v) None)"
    "\<forall>T. heap_ok T \<longrightarrow> pool_at a mtx cnd arr [] (m1\<lparr>tasks := T\<rparr>)" by (rule stage_takes [OF sg p])
  let ?T = "(tasks (mem d))\<lparr>cells := (cells (tasks (mem d)))(t := None), room := Suc (room (tasks (mem d)))\<rparr>"
  have "code P tid (worker (At_run (Some t))) (put m1 d) s1 =
      Inr (Calls (Returned 0) (worker At_lock), put ((mem (put m1 d))\<lparr>tasks := ?T\<rparr>) (put m1 d'), s1)"
    by (rule runs [where t = "mktask None (Some g, v) None" and f = g]) (use 1(3,4) j in \<open>simp_all add: job_put\<close>)
  then have "reaches tid P (config x ?run (put m1 d) s1) (config x ?st (put (m1\<lparr>tasks := ?T\<rparr>) d') s1)"
    by (intro reaches_step) (simp add: machine_step_def)
  note r = reaches_trans [OF 1(1) this]
  have "heap_ok (tasks (mem d))" using p by (simp add: pool_at_def task_queue_def)
  then have "heap_ok ?T" by (auto simp: heap_ok_iff split: if_splits)
  then have "pool_at a mtx cnd arr [] (m1\<lparr>tasks := ?T\<rparr>)" using 1(5) by blast
  with r 1(2) show ?thesis by (intro that [of ?st "m1\<lparr>tasks := ?T\<rparr>" s1]) simp_all
qed

lemma stage_stops:
  assumes sg: "stage kth f st s x act blk []" and p: "pool_at a mtx cnd arr [(t, (Some g, v))] (mem d)"
    and j: "job g v d = Inl e"
  obtains M where "reaches tid P (config x st d s) M" "running M = x" "machine_step tid P M = Inl e"
proof -
  let ?run = "st(x := At (worker (At_run (Some t))))"
  obtain s1 m1 where 1: "reaches tid P (config x st d s) (config x ?run (put m1 d) s1)"
    "tasks m1 = tasks (mem d)" "cells (tasks (mem d)) t = Some (mktask None (Some g, v) None)"
    by (rule stage_takes [OF sg p])
  have "code P tid (worker (At_run (Some t))) (put m1 d) s1 = Inl e"
    by (rule stops [where t = "mktask None (Some g, v) None" and f = g]) (use 1(2,3) j in \<open>simp_all add: job_put\<close>)
  with 1(1) show ?thesis by (intro that [of "config x ?run (put m1 d) s1"]) (simp_all add: machine_step_def)
qed

text \<open>A dispatch of the main thread: the job is queued, and the first active worker has the processor.\<close>

lemma dispatch_switches:
  assumes rs: "resting kth f st s act blk" and ne: "act @ blk \<noteq> []" and p: "pool_at a mtx cnd arr [] (mem d)"
    and room: "0 < room (tasks (mem d))"
    and code: "code P tid f d s = bind_res (dispatch tid (Some a) (Some g) v (mem d, s)) (\<lambda>(out, m, s').
      Inr (Calls out f', put m d1, s'))"
  obtains st' s' m' t y act' blk' where "reaches tid P (config main_thread st d s) (config y st' (put m' d1) s')"
    "stage kth f' st' s' y act' blk' []" "set (act @ blk) = insert y (set (act' @ blk'))"
    "pool_at a mtx cnd arr [(t, (Some g, v))] m'" "Suc (room (tasks m')) = room (tasks (mem d))" "y \<noteq> main_thread"
proof -
  let ?ts = "act @ blk"
  have co: "coop tid kth s main_thread ?ts" and c: "cond_rep s cnd ?ts blk" and mu: "mutex_free s mtx"
    using rs by (simp_all add: resting_def)
  obtain m1 s1 where 1:
    "\<And>out s5. mypthread_yield tid s1 = Inr (out, s5) \<Longrightarrow> dispatch tid (Some a) (Some g) v (mem d, s) = Inr (out, m1, s5)"
    "coop tid kth s1 main_thread ?ts" "cond_rep s1 cnd ?ts (tl (tl blk))" "mtxs s1 = mtxs s"
    "\<forall>t. active (thr s1) (Some t) \<longleftrightarrow> active (thr s) (Some t) \<or> t \<in> set (take 2 blk)"
    "room (qnodes s1) + length (tl (tl blk)) = room (qnodes s) + length blk" "\<forall>y. ctx_of s1 y = ctx_of s y"
    "pool_at a mtx cnd arr [(fresh (tasks (mem d)), (Some g, v))] m1" "Suc (room (tasks m1)) = room (tasks (mem d))"
    by (rule dispatch_signals [OF p room mu co c, where f = "Some g" and v = v]) blast
  obtain y act' where y: "act @ take 2 blk = y # act'" using ne by (cases "act @ take 2 blk") auto
  let ?blk = "tl (tl blk)"
  have tk: "take 2 blk @ ?blk = blk" by (cases blk; cases "tl blk") auto
  then have ts: "?ts = [] @ y # act' @ ?blk" using y by (metis append.assoc append_Cons append_Nil)
  have sb: "set (take 2 blk) \<union> set ?blk = set blk" using tk by (metis set_append)
  have sa: "set (y # act') = set act \<union> set (take 2 blk)" unfolding y [symmetric] by simp
  have d: "main_thread \<notin> set ?ts" "distinct ?ts" using coopD(5) [OF co] by simp_all
  have ya: "active (thr s1) (Some y)" and acts: "\<forall>t\<in>set act'. active (thr s1) (Some t)"
    using 1(5) rs sa by (auto simp: resting_def)
  have dis: "set (take 2 blk) \<inter> set ?blk = {}" using d(2) tk by (metis distinct_append)
  have nact: "\<forall>t\<in>set ?blk. \<not> active (thr s1) (Some t)"
    using 1(5) rs sb dis by (auto simp: resting_def)
  have lb: "length ?blk \<le> length blk" by simp
  moreover have "length act < room (qnodes s)" using rs by (simp add: resting_def)
  ultimately have rm: "0 < room (qnodes s1)" using 1(6) by linarith
  obtain tc where tc: "thr s1 main_thread = Some tc" using coop_cur [OF 1(2)] by metis
  obtain c s2 where 2: "mypthread_yield tid s1 = Inr (Switched y c, s2)"
    "coop tid kth s2 y ([] @ (act' @ ?blk) @ [main_thread])" "cond_rep s2 cnd ([] @ (act' @ ?blk) @ [main_thread]) ?blk"
    "thr s2 = (thr s1)(main_thread \<mapsto> tc\<lparr>th_state := PS_ACTIVE\<rparr>)" "mtxs s2 = mtxs s1"
    "room (qnodes s2) = room (qnodes s1)" "ctx_of s1 y = Some c"
    "ctx_of s2 main_thread = Some (Ctx_saved Resume_yield)" "\<forall>t\<in>set ?ts. ctx_of s2 t = ctx_of s1 t"
    by (rule yield_waiting [OF 1(2,3) rm ts _ ya tc]) simp_all
  have yt: "y \<in> set ?ts" using ts by simp
  then have "at_door st s y" using rs by (auto simp: resting_def)
  with 1(7) 2(7) obtain q where q: "resumed P c (st y) = Inr q" "door q" by (auto simp: at_door_def)
  have ny: "y \<noteq> main_thread" "\<forall>t\<in>set (act' @ ?blk). t \<noteq> y \<and> t \<noteq> main_thread"
    using d ts by auto
  let ?st = "st(main_thread := At f', y := q)"
  have "machine_step tid P (config main_thread st d s) = Inr (Runs (config y ?st (put m1 d1) s2))"
    using rs code 1(1) [OF 2(1)] q(1) ny(1) by (simp add: machine_step_def resting_def Let_def)
  note r0 = reaches_step [OF this]
  have sg: "stage kth f' ?st s2 y act' ?blk []"
    unfolding stage_def append_Nil2
  proof (intro conjI ballI)
    show "coop tid kth s2 y (act' @ ?blk @ [main_thread])" using 2(2) by simp
    show "cond_rep s2 cnd (act' @ ?blk @ [main_thread]) ?blk" using 2(3) by simp
    show "active (thr s2) (Some t)" if "t \<in> insert main_thread (set act')" for t
      using that acts 2(4) by (auto simp: active_def)
    show "\<not> active (thr s2) (Some t)" if "t \<in> set ?blk" for t
      using that nact 2(4) ny(2) by (auto simp: active_def)
    show "at_door ?st s2 t" if "t \<in> set (act' @ ?blk)" for t
    proof -
      have "t \<in> set ?ts" using that ts by auto
      then have "at_door st s t" "ctx_of s2 t = ctx_of s t" using rs 1(7) 2(9) by (auto simp: resting_def)
      then show ?thesis using that ny(2) by (simp add: at_door_def)
    qed
    show "mutex_free s2 mtx" using mu 1(4) 2(5) by (simp add: mutex_free_def)
    show "door (?st y)" using q(2) by simp
    show "ready P ?st s2 main_thread f'" using 2(8) ny(1) by (simp add: ready_def)
    have "length ?ts = Suc (length (act' @ ?blk))" using ts by simp
    then show "Suc (length (act' @ ?blk)) < room (qnodes s2) + length ?blk"
      using rs 1(6) 2(6) by (simp add: resting_def)
  qed
  have "set ?ts = insert y (set (act' @ ?blk))" using ts by simp
  with r0 sg 1(8,9) ny(1) show ?thesis by (intro that [of y ?st m1 s2 act' ?blk]) simp_all
qed

text \<open>When it has the processor again its job has been done, and all workers wait.\<close>

lemma dispatch_served:
  assumes "resting kth f st s act blk" and "act @ blk \<noteq> []" and "pool_at a mtx cnd arr [] (mem d)"
    and "0 < room (tasks (mem d))"
    and "code P tid f d s = bind_res (dispatch tid (Some a) (Some g) v (mem d, s)) (\<lambda>(out, m, s').
      Inr (Calls out f', put m d1, s'))" and j: "job g v d1 = Inr d2"
  obtains st' s' m' ws where "reaches tid P (config main_thread st d s) (config main_thread st' (put m' d2) s')"
    "resting kth f' st' s' [] ws" "pool_at a mtx cnd arr [] m'" "room (tasks m') = room (tasks (mem d))"
    "set ws = set (act @ blk)"
proof -
  obtain st1 s1 m1 t y act' blk' where 1: "reaches tid P (config main_thread st d s) (config y st1 (put m1 d1) s1)"
    "stage kth f' st1 s1 y act' blk' []" "set (act @ blk) = insert y (set (act' @ blk'))"
    "pool_at a mtx cnd arr [(t, (Some g, v))] m1" "Suc (room (tasks m1)) = room (tasks (mem d))"
    by (rule dispatch_switches [OF assms(1-5)])
  have p1: "pool_at a mtx cnd arr [(t, (Some g, v))] (mem (put m1 d1))" and j1: "job g v (put m1 d1) = Inr (put m1 d2)"
    using 1(4) j by (simp_all add: job_put)
  obtain st3 s3 m3 where 3: "reaches tid P (config y st1 (put m1 d1) s1) (config y st3 (put m3 (put m1 d2)) s3)"
    "stage kth f' st3 s3 y (act' @ take 1 blk') (tl blk') []" "pool_at a mtx cnd arr [] m3"
    "room (tasks m3) = Suc (room (tasks (mem (put m1 d1))))"
    by (rule stage_works [OF 1(2) p1 j1])
  have p3: "pool_at a mtx cnd arr [] (mem (put m3 (put m1 d2)))" using 3(3) by simp
  from stage_drains [OF 3(2) p3] obtain st4 s4 ws where 4:
    "reaches tid P (config y st3 (put m3 (put m1 d2)) s3) (config main_thread st4 (put m3 (put m1 d2)) s4)"
    "resting kth f' st4 s4 [] ws" "set ws = insert y (set ((act' @ take 1 blk') @ tl blk' @ []))" by blast
  have "set ((act' @ take 1 blk') @ tl blk') = set (act' @ blk')" by (cases blk') simp_all
  then have "set ws = set (act @ blk)" using 4(3) 1(3) by simp
  moreover have "room (tasks m3) = room (tasks (mem d))" using 3(4) 1(5) by simp
  ultimately show ?thesis
    using reaches_trans [OF 1(1) reaches_trans [OF 3(1) 4(1)]] 4(2) 3(3) by (intro that [of st4 m3 s4 ws]) simp_all
qed

text \<open>A job that stops the program stops it inside the dispatch, on a worker.\<close>

lemma dispatch_stops:
  assumes "resting kth f st s act blk" and "act @ blk \<noteq> []" and "pool_at a mtx cnd arr [] (mem d)"
    and "0 < room (tasks (mem d))"
    and "code P tid f d s = bind_res (dispatch tid (Some a) (Some g) v (mem d, s)) (\<lambda>(out, m, s').
      Inr (Calls out f', put m d1, s'))" and j: "job g v d1 = Inl e"
  shows "\<exists>M. reaches tid P (config main_thread st d s) M \<and> running M \<in> set (act @ blk) \<and> machine_step tid P M = Inl e"
proof -
  obtain st1 s1 m1 t y act' blk' where 1: "reaches tid P (config main_thread st d s) (config y st1 (put m1 d1) s1)"
    "stage kth f' st1 s1 y act' blk' []" "set (act @ blk) = insert y (set (act' @ blk'))"
    "pool_at a mtx cnd arr [(t, (Some g, v))] m1"
    by (rule dispatch_switches [OF assms(1-5)])
  have p1: "pool_at a mtx cnd arr [(t, (Some g, v))] (mem (put m1 d1))" and j1: "job g v (put m1 d1) = Inl e"
    using 1(4) j by (simp_all add: job_put)
  obtain M where "reaches tid P (config y st1 (put m1 d1) s1) M" "running M = y" "machine_step tid P M = Inl e"
    by (rule stage_stops [OF 1(2) p1 j1])
  with 1(1,3) show ?thesis by (intro exI [of _ M]) (auto intro: reaches_trans)
qed

end

end
