(* ===== verification/Pool_Start.thy ===== *)
theory Pool_Start
  imports Pool_Run
begin

text \<open>
  The start of a program with a pool (policy \<open>ULONLY\<close>): \<open>create_threadpool\<close> registers the main thread and
  makes the workers, which stand in the run queue before their first lock.
\<close>

section \<open>Making the workers\<close>

abbreviation worker_start :: "nat \<Rightarrow> nat \<Rightarrow> nat \<times> int" where
  "worker_start a \<equiv> (\<lambda>_. (worker_routine, int a))"

lemma create_workers_forked:
  assumes fk: "forked tid kth (worker_start a) s0 (map (thread_at E) [0..<i]) s" and w: "well_started E n s0"
    and at: "\<forall>j<n. thread_at E j = threads_at env + j"
    and k: "i + k \<le> n" and p: "cells (pools m) a = Some p"
  shows "\<exists>m' s'. create_workers tid env a i k (m, s) = Inr (True, m', s') \<and>
    forked tid kth (worker_start a) s0 (map (thread_at E) [0..<i + k]) s' \<and> mtxs s' = mtxs s \<and> cnds s' = cnds s"
  using fk k p
proof (induction k arbitrary: i m s p)
  case (Suc k)
  then have i: "i < n" and le: "Suc i + k \<le> n" by simp_all
  note w' = well_startedD [OF w]
  have "[0..<n] = [0..<i] @ i # [Suc i..<n]" using i upt_add_eq_append [of 0 i "n - i"] by (simp add: upt_conv_Cons)
  with w'(2) have new: "thread_at E i \<notin> set (main_thread # map (thread_at E) [0..<i])" by auto
  have known: "thr s0 (thread_at E i) \<noteq> None" using w'(3) i by blast
  have r: "length (map (thread_at E) [0..<i]) < room (qnodes s0)" "Suc (length (map (thread_at E) [0..<i])) < room (ctxs s0)"
    using i w'(4,5) by simp_all
  obtain s1 where 1: "mypthread_create tid (clone_env env) (thread_at E i) worker_routine (int a) s =
      Inr (Returned 0, s1)" "forked tid kth (worker_start a) s0 (map (thread_at E) [0..<i] @ [thread_at E i]) s1"
    "mtxs s1 = mtxs s" "cnds s1 = cnds s"
    using forked_create [OF Suc.prems(1) new known r, where env = "clone_env env"] by auto
  let ?p = "p\<lparr>no_of_threads := no_of_threads p + 1, no_of_running_threads := no_of_running_threads p + 1\<rparr>"
  have m: "modify_pool (Some a) (\<lambda>p. p\<lparr>no_of_threads := no_of_threads p + 1,
      no_of_running_threads := no_of_running_threads p + 1\<rparr>) m =
    Inr (m\<lparr>pools := (pools m)\<lparr>cells := (cells (pools m))(a \<mapsto> ?p)\<rparr>\<rparr>)" (is "_ = Inr ?m")
    by (rule modify_pool_eq [OF Suc.prems(3)])
  have "forked tid kth (worker_start a) s0 (map (thread_at E) [0..<Suc i]) s1" "cells (pools ?m) a = Some ?p" using 1(2) by simp_all
  from Suc.IH [OF this(1) le this(2)] obtain m' s' where "create_workers tid env a (Suc i) k (?m, s1) = Inr (True, m', s')"
    "forked tid kth (worker_start a) s0 (map (thread_at E) [0..<Suc i + k]) s'" "mtxs s' = mtxs s1" "cnds s' = cnds s1" by blast
  moreover have "thread_at E i = threads_at env + i" using at i by blast
  ultimately show ?case using 1 m by simp
qed simp

text \<open>The pool's mutex and condition, as they are made.\<close>

abbreviation new_mutex :: mypthread_mutex_t where
  "new_mutex \<equiv> \<lparr>mtx_lock = False, blocked_q_head = None, blocked_q_tail = None\<rparr>"

abbreviation new_cond :: mypthread_cond_t where
  "new_cond \<equiv> \<lparr>cond_q_head = None, cond_q_tail = None\<rparr>"

lemma create_threadpool_forked:
  assumes w: "well_started E n s0" and at: "\<forall>j<n. thread_at E j = threads_at env + j"
    and n: "0 < n" "int n \<le> MAXT_IN_POOL" and ok: "array_ok env"
    and room: "0 < room (pools m)" and hp: "heap_ok (tasks m)"
    and obj: "mtxs s0 (mutex_at env) \<noteq> None" "cnds s0 (cond_at env) \<noteq> None" and mode: "mode = ULONLY"
  obtains m' s' where
    "create_threadpool tid env ncores nhyper (int n) mode (m, s0) = Inr (Some (fresh (pools m)), m', s')"
    "\<exists>s1. forked tid (fresh (kths s0)) (worker_start (fresh (pools m))) s1 (map (thread_at E) [0..<n]) s' \<and> room (qnodes s1) = room (qnodes s0)"
    "mtxs s' (mutex_at env) = Some new_mutex" "cnds s' (cond_at env) = Some new_cond"
    "pool_at (fresh (pools m)) (mutex_at env) (cond_at env) (threads_at env, n) [] m'" "tasks m' = tasks m"
proof -
  let ?a = "fresh (pools m)"
  let ?p = "\<lparr>no_of_threads = int n, no_of_tasks_in_Q = 0, no_of_running_threads = junk_running env,
    pool_mutex = mutex_at env, pool_cond = cond_at env, pool_threads = threads_at env,
    taskQ_front = None, taskQ_rear = None\<rparr>"
  let ?P = "(pools m)\<lparr>cells := (cells (pools m))(?a \<mapsto> ?p), fresh := Suc ?a, room := room (pools m) - 1\<rparr>"
  let ?m1 = "new_array (threads_at env) n (m\<lparr>pools := ?P\<rparr>)"
  let ?s1 = "mypthread_init ncores nhyper mode s0"
  define s2 where "s2 = ?s1\<lparr>mtxs := (mtxs s0)(mutex_at env \<mapsto> new_mutex), cnds := (cnds s0)(cond_at env \<mapsto> new_cond)\<rparr>"
  have w2: "well_started E n s2" using w by (simp add: s2_def well_started_def)
  note w2' = well_startedD [OF w2]
  have pol: "mypthread_policy s2 = ULONLY" using mode by (simp add: s2_def)
  have mp: "malloc (pools m) ?p = (Some ?a, ?P)" using room by (simp add: malloc_room)
  have mi: "mypthread_mutex_init (mutex_at env) ?s1 = Inr (Returned 0, ?s1\<lparr>mtxs := (mtxs s0)(mutex_at env \<mapsto> new_mutex)\<rparr>)"
    using obj(1) by (auto simp: mypthread_mutex_init_def load_mtx_def)
  have ci: "mypthread_cond_init (cond_at env) (?s1\<lparr>mtxs := (mtxs s0)(mutex_at env \<mapsto> new_mutex)\<rparr>) = Inr (Returned 0, s2)"
    using obj(2) by (auto simp: mypthread_cond_init_def load_cnd_def s2_def)
  obtain k where k: "n = Suc k" using n(1) by (cases n) simp_all
  have t0: "thread_at E 0 \<noteq> main_thread" "thr s2 (thread_at E 0) \<noteq> None"
    using w2'(2,3) n(1) by (auto simp: upt_conv_Cons)
  have rm: "0 < room (qnodes s2)" "1 < room (ctxs s2)" using w2'(4,5) n(1) by simp_all
  obtain s3 where 3: "mypthread_create tid (clone_env env) (thread_at E 0) worker_routine (int ?a) s2 =
      Inr (Returned 0, s3)" "forked tid (fresh (kths s2)) (worker_start ?a) s2 [thread_at E 0] s3" "mtxs s3 = mtxs s2" "cnds s3 = cnds s2"
    using forked_first [OF w2'(1) pol rm w2'(6,7) t0, where env = "clone_env env" and f = "worker_start ?a"] by auto
  let ?q = "?p\<lparr>no_of_threads := int n + 1, no_of_running_threads := junk_running env + 1\<rparr>"
  let ?m2 = "?m1\<lparr>pools := ?P\<lparr>cells := (cells ?P)(?a \<mapsto> ?q)\<rparr>\<rparr>"
  have f1: "forked tid (fresh (kths s2)) (worker_start ?a) s2 (map (thread_at E) [0..<Suc 0]) s3" using 3(2) by simp
  from create_workers_forked [OF f1 w2 at, of k ?m2 ?q] k obtain m' s' where
    4: "create_workers tid env ?a (Suc 0) k (?m2, s3) = Inr (True, m', s')"
    "forked tid (fresh (kths s2)) (worker_start ?a) s2 (map (thread_at E) [0..<n]) s'" "mtxs s' = mtxs s3" "cnds s' = cnds s3" by auto
  have "thread_at E 0 = threads_at env" using at n(1) by auto
  then have c: "create_workers tid env ?a 0 n (?m1, s2) = Inr (True, m', s')"
    using 3(1) 4(1) k by (simp add: modify_pool_def)
  have r: "create_threadpool tid env ncores nhyper (int n) mode (m, s0) = Inr (Some ?a, m', s')"
    using n ok mp mi ci c by (simp add: create_threadpool_def)
  have "tasks m' = tasks m" "arrays m' (threads_at env) = Some n"
    "cells (pools m') ?a = Some (?p\<lparr>no_of_threads := int n + int n, no_of_running_threads := junk_running env + int n\<rparr>)"
    using create_workers_counts [OF c, of ?p] by simp_all
  moreover from this hp have "pool_at ?a (mutex_at env) (cond_at env) (threads_at env, n) [] m'"
    by (simp add: pool_at_def task_queue_def queue_rep_def)
  moreover have "fresh (kths s2) = fresh (kths s0)" "room (qnodes s2) = room (qnodes s0)" by (simp_all add: s2_def)
  ultimately show ?thesis using r 3(3,4) 4(2-4) by (intro that [of m' s']) (auto simp: s2_def)
qed

section \<open>Serving\<close>

context worker_pool
begin

text \<open>The pool that was just made: all workers are active.\<close>

lemma forked_resting:
  assumes fk: "forked tid kth (worker_start a) s1 us s"
    and m: "mtxs s mtx = Some new_mutex" and c: "cnds s cnd = Some new_cond" and st: "st main_thread = At f"
    and more: "2 * length us < room (qnodes s1)"
  shows "resting kth f st s us []"
proof -
  have co: "coop tid kth s main_thread us" using fk by (simp add: forked_def)
  have "two_lists s None None us []"
    using coopD(4) [OF co] by (auto simp: two_lists_def runq_iff wait_rep_def)
  then have "cond_rep s cnd us []" using c by (simp add: cond_rep_def)
  moreover have "at_door st s t" if "t \<in> set us" for t
    using that fk starts by (auto simp: forked_def at_door_def door_def)
  ultimately show ?thesis
    using co fk m st more by (auto simp: resting_def forked_def mutex_free_def)
qed

text \<open>
  A main thread that dispatches again and again: in turn \<open>k\<close>, with the data as \<open>I k\<close> says, it dispatches
  a job and goes on in \<open>turn (Suc k)\<close>.
\<close>

lemma serves:
  assumes rs: "resting kth (turn 0) st s us []" and us: "us \<noteq> []" and p: "pool_at a mtx cnd arr [] (mem d)"
    and room: "0 < room (tasks (mem d))" and I: "I 0 d"
    and turns: "\<And>k d. k < n \<Longrightarrow> I k d \<Longrightarrow> \<exists>d1 g v d2.
      (\<forall>s. code P tid (turn k) d s = bind_res (dispatch tid (Some a) (Some g) v (mem d, s)) (\<lambda>(out, m, s').
         Inr (Calls out (turn (Suc k)), put m d1, s'))) \<and>
      job g v d1 = Inr d2 \<and> (\<forall>m. I (Suc k) (put m d2))"
    and k: "k \<le> n"
  shows "\<exists>st' s' d' act blk. reaches tid P (config main_thread st d s) (config main_thread st' d' s') \<and>
    resting kth (turn k) st' s' act blk \<and> set (act @ blk) = set us \<and> pool_at a mtx cnd arr [] (mem d') \<and>
    0 < room (tasks (mem d')) \<and> I k d'"
  using k
proof (induction k)
  case 0
  then show ?case using rs p room I by (intro exI [of _ st] exI [of _ s] exI [of _ d] exI [of _ us] exI [of _ "[]"]) simp
next
  case (Suc k)
  then obtain st1 s1 d1 act blk where 1: "reaches tid P (config main_thread st d s) (config main_thread st1 d1 s1)"
    "resting kth (turn k) st1 s1 act blk" "set (act @ blk) = set us" "pool_at a mtx cnd arr [] (mem d1)"
    "0 < room (tasks (mem d1))" "I k d1" by auto
  have "k < n" using Suc.prems by simp
  from turns [OF this 1(6)] obtain e g v d2 where 2:
    "\<forall>s. code P tid (turn k) d1 s = bind_res (dispatch tid (Some a) (Some g) v (mem d1, s)) (\<lambda>(out, m, s').
         Inr (Calls out (turn (Suc k)), put m e, s'))" "job g v e = Inr d2" "\<forall>m. I (Suc k) (put m d2)" by blast
  have ne: "act @ blk \<noteq> []" using 1(3) us by auto
  from 2(1) have c: "code P tid (turn k) d1 s1 = bind_res (dispatch tid (Some a) (Some g) v (mem d1, s1))
      (\<lambda>(out, m, s'). Inr (Calls out (turn (Suc k)), put m e, s'))" by blast
  obtain st2 s2 m ws where 3: "reaches tid P (config main_thread st1 d1 s1) (config main_thread st2 (put m d2) s2)"
    "resting kth (turn (Suc k)) st2 s2 [] ws" "pool_at a mtx cnd arr [] m" "room (tasks m) = room (tasks (mem d1))"
    "set ws = set (act @ blk)"
    by (rule dispatch_served [OF 1(2) ne 1(4,5) c 2(2)])
  then show ?case
    using reaches_trans [OF 1(1) 3(1)] 1(3,5) 2(3)
    by (intro exI [of _ st2] exI [of _ s2] exI [of _ "put m d2"] exI [of _ "[]"] exI [of _ ws]) simp
qed

end

end
