(* ===== verification/Pool_Test.thy ===== *)
theory Pool_Test
  imports Threadpool Programs
begin

text \<open>
  \<open>server/threadpool_test.c\<close>, the regression test of the pool, as a program: \<open>main\<close> makes a pool of two
  workers, dispatches six jobs and destroys the pool. What \<open>dispatch_to_me\<close> prints is a list, its
  argument once per call; \<open>sleep\<close>, which stops the kernel thread for a while, is left out.
\<close>

datatype pool_frame =
    Pool_main | Pool_dispatch ptr nat | Pool_exit | Worker ptr worker_at

type_synonym pool_data = "pool_mem \<times> int list"

definition seconds_of :: "nat \<Rightarrow> int" where "seconds_of i = [3, 6, 7, 3, 6, 7] ! i"

text \<open>A worker that has a job prints its argument and goes on.\<close>

definition pool_worker ::
  "int \<Rightarrow> ptr \<Rightarrow> worker_at \<Rightarrow> pool_data \<Rightarrow> lib \<Rightarrow> (pool_frame move \<times> pool_data \<times> lib) res" where
  "pool_worker tid pool at d s =
     bind_res
       (case at of
          At_run cur \<Rightarrow> bind_res (load (tasks (fst d)) cur) (\<lambda>t. Inr (snd d @ [task_arg t]))
        | _ \<Rightarrow> Inr (snd d)) (\<lambda>printed.
     bind_res (threadpool_scheduler tid (\<lambda>_ _ st. Inr st) pool at (fst d, s)) (\<lambda>(out, at1, m, s1).
     Inr (Calls out (Worker pool at1), (m, printed), s1)))"

fun pool_test_main ::
  "prog_env \<Rightarrow> pool_env \<Rightarrow> int \<Rightarrow> pool_frame \<Rightarrow> pool_data \<Rightarrow> lib \<Rightarrow>
     (pool_frame move \<times> pool_data \<times> lib) res" where
  "pool_test_main E penv tid Pool_main (m, out) s =
     (if length (argv E) \<noteq> 2 then Inr (Ends 0, (m, out), s)
      else
        bind_res (create_threadpool tid penv (cores E) (hyper E) 2 (atoi (argv E ! 1)) (m, s)) (\<lambda>(tp, m1, s1).
        Inr (Calls (Returned 0) (Pool_dispatch tp 0), (m1, out), s1)))"
| "pool_test_main E penv tid (Pool_dispatch tp i) (m, out) s =
     (if i < 6 then
        bind_res (dispatch tid tp (Some 0) (seconds_of i) (m, s)) (\<lambda>(oc, m1, s1).
        Inr (Calls oc (Pool_dispatch tp (Suc i)), (m1, out), s1))
      else
        bind_res (destroy_threadpool tid tp (m, s)) (\<lambda>(oc, m1, s1).
        Inr (Calls oc Pool_exit, (m1, out), s1)))"
| "pool_test_main E penv tid Pool_exit d s = Inr (Ends 0, d, s)"
| "pool_test_main E penv tid (Worker pool at) d s = pool_worker tid pool at d s"

definition pool_test :: "prog_env \<Rightarrow> pool_env \<Rightarrow> (pool_frame, pool_data) program" where
  "pool_test E penv =
     \<lparr>start_frame = (\<lambda>_ a. Worker (Some (nat a)) At_lock), code = pool_test_main E penv\<rparr>"

end
