(* ===== verification/Pool_Properties.thy ===== *)
theory Pool_Properties
  imports Pool_Start Pool_Test Threadpool_Properties
begin

text \<open>
  The properties of the pool at work: a program whose main thread dispatches jobs is served, and what
  \<open>destroy_threadpool\<close> does to the threads that wait.
\<close>

section \<open>Destroying a pool\<close>

text \<open>
  \<open>destroy_threadpool\<close> releases the array that holds the control blocks of the pool's threads while
  they are still in the run queue. Whatever else is in the queue, the call of \<open>mypthread_exit\<close> at its end
  walks over the queue and reads a block that is gone.
\<close>

lemma destroy_uses_freed:
  assumes co: "coop tid kth s cur ts" and t: "t \<in> set ts" "pool_threads p \<le> t" "t < pool_threads p + n"
    and cur: "cur < pool_threads p \<or> pool_threads p + n \<le> cur"
    and p: "cells (pools m) a = Some p" "arrays m (pool_threads p) = Some n"
    and obj: "mtxs s (pool_mutex p) \<noteq> None" "cnds s (pool_cond p) \<noteq> None"
  shows "destroy_threadpool tid (Some a) (m, s) = Inl Dangling"
proof -
  let ?T = "drop_threads (pool_threads p) n (thr s)"
  note co' = coopD [OF co]
  obtain tc where tc: "thr s cur = Some tc" using coop_cur [OF co] by metis
  then have tc': "?T cur = Some tc" using cur by (auto simp: drop_threads_def)
  let ?s1 = "s\<lparr>thr := ?T\<rparr>"
  let ?s2 = "?s1\<lparr>mtxs := (mtxs s)(pool_mutex p \<mapsto> new_mutex), cnds := (cnds s)(pool_cond p \<mapsto> new_cond)\<rparr>"
  have md: "mypthread_mutex_destroy (pool_mutex p) ?s1 = Inr (Returned 0, ?s1\<lparr>mtxs := (mtxs s)(pool_mutex p \<mapsto> new_mutex)\<rparr>)"
    using co'(2) obj(1)
    by (auto simp: mypthread_mutex_destroy_def mypthread_mutex_init_def load_mtx_def sem_wait_free sems_free_def
        sem_post_def fun_upd_idem)
  have cd: "mypthread_cond_destroy (pool_cond p) (?s1\<lparr>mtxs := (mtxs s)(pool_mutex p \<mapsto> new_mutex)\<rparr>) = Inr (Returned 0, ?s2)"
    using co'(2) obj(2)
    by (auto simp: mypthread_cond_destroy_def mypthread_cond_init_def load_cnd_def sem_wait_free sems_free_def
        sem_post_def fun_upd_idem)
  let ?s3 = "?s2\<lparr>sems := (sems s)(Mypthread_sem := 0), mypthread_count := mypthread_count s - 1,
               thr := ?T(cur \<mapsto> tc\<lparr>th_state := PS_DEAD\<rparr>)\<rparr>"
  from co'(4) obtain xs where xs: "run_queue s xs" "map snd xs = map Some ts" by (auto simp: runq_iff)
  have "Some t \<in> set (map snd xs)" using xs(2) t(1) by simp
  then obtain x where x: "x \<in> set xs" "snd x = Some t" by auto
  have some: "\<forall>x\<in>set xs. snd x \<noteq> None"
  proof
    fix y assume "y \<in> set xs"
    then have "snd y \<in> set (map Some ts)" unfolding xs(2) [symmetric] by simp
    then show "snd y \<noteq> None" by auto
  qed
  have "t \<noteq> cur" using co'(5) t(1) by auto
  then have un: "\<not> known (thr ?s3) (snd x)" using x(2) t(2,3) by (simp add: known_def drop_threads_def)
  have q: "dll mkq (qnodes ?s3) None xs None" "q_head ?s3 = first_addr xs None" "length xs < Suc (fresh (qnodes ?s3))"
    using run_queue_chain [OF xs(1)] chain_rep_length [of mkq "qnodes s" "q_head s" xs]
    by (simp_all add: run_chain_def chain_rep_def)
  have "mypthread_update_waiting_threads (th_id tc) ?s3 = Inl Dangling"
    using update_waiting_loop_unknown [OF q(1) some x(1) un q(3)] q(2)
    by (simp add: mypthread_update_waiting_threads_def)
  then have "mypthread_exit tid ?s2 = Inl Dangling"
    using coop_on_kthread [OF co] co'(2) tc'
    by (simp add: mypthread_exit_def on_kthread_def sem_wait_free sems_free_def Let_def)
  then show ?thesis
    using p md cd by (simp add: destroy_threadpool_def free_array_def)
qed

section \<open>The test program\<close>

text \<open>What a program with a pool of \<open>n\<close> workers is given: memory, and objects that exist.\<close>

definition pool_given :: "prog_env \<Rightarrow> pool_env \<Rightarrow> nat \<Rightarrow> pool_mem \<Rightarrow> lib \<Rightarrow> bool" where
  "pool_given E penv n m s0 \<longleftrightarrow>
     well_started E n s0 \<and> (\<forall>j<n. thread_at E j = threads_at penv + j) \<and> 2 * n < room (qnodes s0) \<and>
     array_ok penv \<and> mtxs s0 (mutex_at penv) \<noteq> None \<and> cnds s0 (cond_at penv) \<noteq> None \<and>
     0 < room (pools m) \<and> 0 < room (tasks m) \<and> heap_ok (tasks m)"

lemma pool_made:
  assumes g: "pool_given E penv n m s0" and n: "0 < n" "int n \<le> MAXT_IN_POOL" and mode: "mode = ULONLY"
  obtains m' s1 s2 where
    "create_threadpool tid penv (cores E) (hyper E) (int n) mode (m, s0) = Inr (Some (fresh (pools m)), m', s1)"
    "forked tid (fresh (kths s0)) (worker_start (fresh (pools m))) s2 (map (thread_at E) [0..<n]) s1"
    "2 * length (map (thread_at E) [0..<n]) < room (qnodes s2)"
    "mtxs s1 (mutex_at penv) = Some new_mutex" "cnds s1 (cond_at penv) = Some new_cond"
    "pool_at (fresh (pools m)) (mutex_at penv) (cond_at penv) (threads_at penv, n) [] m'" "tasks m' = tasks m"
proof -
  from g have g': "well_started E n s0" "\<forall>j<n. thread_at E j = threads_at penv + j" "2 * n < room (qnodes s0)"
    "array_ok penv" "0 < room (pools m)" "heap_ok (tasks m)" "mtxs s0 (mutex_at penv) \<noteq> None"
    "cnds s0 (cond_at penv) \<noteq> None" by (simp_all add: pool_given_def)
  let ?a = "fresh (pools m)"
  obtain m' s1 where 1:
    "create_threadpool tid penv (cores E) (hyper E) (int n) mode (m, s0) = Inr (Some ?a, m', s1)"
    "\<exists>s2. forked tid (fresh (kths s0)) (worker_start ?a) s2 (map (thread_at E) [0..<n]) s1 \<and> room (qnodes s2) = room (qnodes s0)"
    "mtxs s1 (mutex_at penv) = Some new_mutex" "cnds s1 (cond_at penv) = Some new_cond"
    "pool_at ?a (mutex_at penv) (cond_at penv) (threads_at penv, n) [] m'" "tasks m' = tasks m"
    by (rule create_threadpool_forked [OF g'(1,2) n g'(4-8) mode])
  from 1(2) obtain s2 where 2: "forked tid (fresh (kths s0)) (worker_start ?a) s2 (map (thread_at E) [0..<n]) s1"
    "room (qnodes s2) = room (qnodes s0)" by blast
  from g'(3) 2(2) have "2 * length (map (thread_at E) [0..<n]) < room (qnodes s2)" by simp
  from 1(1) 2(1) this 1(3-6) show ?thesis by (rule that)
qed

interpretation pt: worker_pool tid "pool_test E penv" "Worker (Some a)" a mtx cnd arr fst "\<lambda>m d. (m, snd d)"
    "\<lambda>f v d. Inr (fst d, snd d @ [v])" for tid E penv a mtx cnd arr
proof (unfold_locales, goal_cases)
  case (1 at d s)
  then show ?case
    by (cases "at") (auto simp: pool_test_def pool_worker_def bind_res_assoc case_prod_unfold)
next
  case (2 d s cur m s')
  then show ?case by (simp add: pool_test_def pool_worker_def del: threadpool_scheduler.simps)
next
  case (4 d cur t f e s)
  then show ?case by simp
qed (auto simp: pool_test_def pool_worker_def)

text \<open>The start: the pool is made, and its workers are ready.\<close>

lemma pool_test_begins:
  assumes g: "pool_given E penv 2 m s0" and a: "length (argv E) = 2" "atoi (argv E ! 1) = ULONLY"
  obtains kth st s m' where
    "reaches tid (pool_test E penv) (boot Pool_main (m, []) s0)
       (config main_thread st (m', []) s)"
    "pt.resting tid E penv (fresh (pools m)) (mutex_at penv) (cond_at penv) kth
       (Pool_dispatch (Some (fresh (pools m))) 0) st s (map (thread_at E) [0..<2]) []"
    "pool_at (fresh (pools m)) (mutex_at penv) (cond_at penv) (threads_at penv, 2) [] m'" "tasks m' = tasks m"
proof -
  let ?a = "fresh (pools m)"
  obtain m' s1 s2 where 1: "create_threadpool tid penv (cores E) (hyper E) (int 2) (atoi (argv E ! 1)) (m, s0) = Inr (Some ?a, m', s1)"
    "forked tid (fresh (kths s0)) (worker_start ?a) s2 (map (thread_at E) [0..<2]) s1"
    "2 * length (map (thread_at E) [0..<2]) < room (qnodes s2)"
    "mtxs s1 (mutex_at penv) = Some new_mutex" "cnds s1 (cond_at penv) = Some new_cond"
    "pool_at ?a (mutex_at penv) (cond_at penv) (threads_at penv, 2) [] m'" "tasks m' = tasks m"
    by (rule pool_made [OF g _ _ a(2)]) (simp_all add: MAXT_IN_POOL_def)
  let ?st = "(\<lambda>_. At Pool_main)(main_thread := At (Pool_dispatch (Some ?a) 0))"
  have r: "reaches tid (pool_test E penv) (boot Pool_main (m, []) s0) (config main_thread ?st (m', []) s1)"
    using a(1) 1(1) by (intro reaches_step) (simp add: machine_step_def boot_def pool_test_def)
  have "?st main_thread = At (Pool_dispatch (Some ?a) 0)" by simp
  from pt.forked_resting [where st = ?st and f = "Pool_dispatch (Some ?a) 0", OF 1(2,4,5) this 1(3)] r 1(6,7)
  show ?thesis by (intro that)
qed

text \<open>
  C13: \<open>threadpool_test.c\<close> as a whole. The two workers do the six jobs in the order in which they are
  dispatched, each before its dispatch returns. Then the call of \<open>destroy_threadpool\<close> at the end of
  \<open>main\<close> reads a control block it has released.
\<close>

theorem pool_test_serves_then_faults:
  assumes "pool_given E penv 2 m s0" and "length (argv E) = 2" and "atoi (argv E ! 1) = ULONLY"
  shows "\<exists>M. reaches tid (pool_test E penv) (boot Pool_main (m, []) s0) M \<and> running M = main_thread \<and>
    snd (shared M) = [3, 6, 7, 3, 6, 7] \<and> task_queue (fresh (pools m)) (fst (shared M)) [] \<and>
    stacks M main_thread = At (Pool_dispatch (Some (fresh (pools m))) 6) \<and>
    machine_step tid (pool_test E penv) M = Inl Dangling"
proof -
  let ?P = "pool_test E penv" and ?a = "fresh (pools m)" and ?mtx = "mutex_at penv" and ?cnd = "cond_at penv"
  let ?us = "map (thread_at E) [0..<2]" and ?arr = "(threads_at penv, 2::nat)"
  let ?turn = "Pool_dispatch (Some ?a)"
  from assms(1) have w: "well_started E 2 s0" and at: "\<forall>j<2. thread_at E j = threads_at penv + j"
    and room: "0 < room (tasks m)" by (simp_all add: pool_given_def)
  obtain kth st s m' where 1: "reaches tid ?P (boot Pool_main (m, []) s0) (config main_thread st (m', []) s)"
    "pt.resting tid E penv ?a ?mtx ?cnd kth (?turn 0) st s ?us []" "pool_at ?a ?mtx ?cnd ?arr [] m'"
    "tasks m' = tasks m"
    by (rule pool_test_begins [OF assms])
  have "\<exists>st' s' d' act blk. reaches tid ?P (config main_thread st (m', []) s) (config main_thread st' d' s') \<and>
      pt.resting tid E penv ?a ?mtx ?cnd kth (?turn 6) st' s' act blk \<and>
      set (act @ blk) = set ?us \<and> pool_at ?a ?mtx ?cnd ?arr [] (fst d') \<and>
      0 < room (tasks (fst d')) \<and> snd d' = map seconds_of [0..<6]"
  proof (rule pt.serves [where I = "\<lambda>k d. snd d = map seconds_of [0..<k]" and n = 6])
    show "\<exists>(d1 :: pool_data) g v (d2 :: pool_data).
        (\<forall>s. code ?P tid (?turn k) d s = bind_res (dispatch tid (Some ?a) (Some g) v (fst d, s)) (\<lambda>(out, m, s').
           Inr (Calls out (?turn (Suc k)), (m, snd d1), s'))) \<and>
        Inr (fst d1, snd d1 @ [v]) = Inr d2 \<and> (\<forall>m. snd (m, snd d2) = map seconds_of [0..<Suc k])"
      if "k < 6" "snd d = map seconds_of [0..<k]" for k d
      by (rule exI [of _ d], rule exI [of _ 0], rule exI [of _ "seconds_of k"],
          rule exI [of _ "(fst d, snd d @ [seconds_of k])"]) (use that in \<open>cases d, simp add: pool_test_def\<close>)
  qed (use 1 room in simp_all)
  then obtain st1 s1 d1 act blk where 2: "reaches tid ?P (config main_thread st (m', []) s) (config main_thread st1 d1 s1)"
    "pt.resting tid E penv ?a ?mtx ?cnd kth (?turn 6) st1 s1 act blk" "set (act @ blk) = set ?us"
    "pool_at ?a ?mtx ?cnd ?arr [] (fst d1)" "snd d1 = map seconds_of [0..<6]" by blast
  let ?M = "config main_thread st1 d1 s1"
  have co: "coop tid kth s1 main_thread (act @ blk)" and mu: "mutex_free s1 ?mtx" and c: "cond_rep s1 ?cnd (act @ blk) blk"
    and sm: "st1 main_thread = At (?turn 6)" using 2(2) by (simp_all add: pt.resting_def)
  obtain p where p: "cells (pools (fst d1)) ?a = Some p" "pool_mutex p = ?mtx" "pool_cond p = ?cnd"
    "pool_threads p = threads_at penv" "arrays (fst d1) (threads_at penv) = Some 2" "task_queue ?a (fst d1) []"
    using 2(4) by (auto simp: pool_at_def)
  have t: "thread_at E 0 \<in> set (act @ blk)" using 2(3) by (simp add: upt_rec)
  have ne: "threads_at penv \<noteq> main_thread" "threads_at penv + 1 \<noteq> main_thread"
    using well_startedD(2) [OF w] at by (auto simp: upt_rec numeral_2_eq_2)
  have obj: "mtxs s1 (pool_mutex p) \<noteq> None" "cnds s1 (pool_cond p) \<noteq> None"
    using mu c p(2,3) by (auto simp: mutex_free_def cond_rep_def split: option.splits)
  have "destroy_threadpool tid (Some ?a) (fst d1, s1) = Inl Dangling"
    by (rule destroy_uses_freed [OF co t _ _ _ p(1) _ obj, where n = 2]) (use at p(4,5) ne in auto)
  then have "machine_step tid ?P ?M = Inl Dangling"
    using sm by (cases d1) (simp add: machine_step_def pool_test_def)
  moreover have "map seconds_of [0..<6] = [3, 6, 7, 3, 6, 7]" by (simp add: seconds_of_def upt_rec)
  ultimately show ?thesis
    using reaches_trans [OF 1(1) 2(1)] 2(5) sm p(6) by (intro exI [of _ ?M]) simp
qed

definition sample_pool :: pool_env where
  "sample_pool = plain_env\<lparr>threads_at := 1\<rparr>"

lemma pool_given_program:
  "2 * n < r \<Longrightarrow> n < t \<Longrightarrow> 1 < t \<Longrightarrow> pool_given (sample_env args) sample_pool n no_pools (program_start r t)"
  using well_started_program [of n r t args]
  by (cases "0 < r") (simp_all add: pool_given_def sample_env_def sample_pool_def plain_env_def no_pools_def program_start_def
      no_cells_def heap_ok_def)

lemma pool_given_sample:
  "n < 8 \<Longrightarrow> pool_given (sample_env args) sample_pool n no_pools (program_start 20 15)"
  by (rule pool_given_program) simp_all

theorem pool_test_serves_then_faults_witness:
  "\<exists>M. reaches 9 (pool_test (sample_env [''test'', ''0'']) sample_pool)
      (boot Pool_main (no_pools, []) (program_start 20 15)) M \<and>
    snd (shared M) = [3, 6, 7, 3, 6, 7] \<and>
    machine_step 9 (pool_test (sample_env [''test'', ''0'']) sample_pool) M = Inl Dangling"
proof -
  let ?E = "sample_env [''test'', ''0'']"
  have "length (argv ?E) = 2" "atoi (argv ?E ! 1) = ULONLY"
    using atoi_samples by (simp_all add: sample_env_def ULONLY_def)
  from pool_test_serves_then_faults [OF pool_given_sample this, of 9] show ?thesis by auto
qed

end
