(* ===== verification/Server_Run.thy ===== *)
theory Server_Run
  imports Server_Properties Pool_Properties
begin

text \<open>
  \<open>server/server.c\<close> as a program: \<open>main\<close> on the thread library with the workers of its pool, which run
  \<open>request_client\<close> on the connections. The pool's jobs are descriptors; the connections are part of
  the shared data, together with the socket library's state and the count of dispatches.
\<close>

section \<open>The program\<close>

datatype server_frame = Srv_main | Srv_loop ptr int | Srv_worker ptr worker_at

record served =
  pool_memory :: pool_mem
  socks :: sock_lib
  dispatched :: int
  network :: net

text \<open>
  What the process is given beside its command line: the pool's environment, what the system answers
  in the turn of each dispatch, who connects then, and what a worker finds in fresh memory and in its
  uninitialised \<open>socket_talk\<close>.
\<close>

record server_env =
  program_env :: prog_env
  of_pool :: pool_env
  system :: "int \<Rightarrow> sys_env"
  listen_addr :: sockaddr_in
  peer :: "int \<Rightarrow> conn"
  junk_bytes :: "net \<Rightarrow> char list"
  stack_word :: "net \<Rightarrow> int"

text \<open>The record of \<open>main\<close>'s state in \<open>Server\<close>, with the library's state.\<close>

definition as_server :: "served \<Rightarrow> lib \<Rightarrow> server" where
  "as_server d s = \<lparr>srv_pool = pool_memory d, srv_lib = s, srv_socks = socks d, count_dispatches = dispatched d\<rparr>"

definition from_server :: "server \<Rightarrow> served \<Rightarrow> served" where
  "from_server v d = d\<lparr>pool_memory := srv_pool v, socks := srv_socks v, dispatched := count_dispatches v\<rparr>"

text \<open>A worker's job: \<open>request_client\<close> with the descriptor.\<close>

definition handle_job :: "server_env \<Rightarrow> nat \<Rightarrow> int \<Rightarrow> served \<Rightarrow> served res" where
  "handle_job G f stalk d =
     (if f = client_routine then
        bind_res (request_client process_request (junk_bytes G (network d)) (stack_word G (network d)) stalk (network d))
          (\<lambda>n. Inr (d\<lparr>network := n\<rparr>))
      else Inl Undefined)"

definition server_worker ::
  "server_env \<Rightarrow> int \<Rightarrow> ptr \<Rightarrow> worker_at \<Rightarrow> served \<Rightarrow> lib \<Rightarrow> (server_frame move \<times> served \<times> lib) res" where
  "server_worker G tid pool at d s =
     bind_res
       (case at of
          At_run cur \<Rightarrow>
            bind_res (load (tasks (pool_memory d)) cur) (\<lambda>t.
            case task_func t of None \<Rightarrow> Inl NullDeref | Some f \<Rightarrow> handle_job G f (task_arg t) d)
        | _ \<Rightarrow> Inr d) (\<lambda>d1.
     bind_res (threadpool_scheduler tid (\<lambda>_ _ st. Inr st) pool at (pool_memory d1, s)) (\<lambda>(out, at1, m, s1).
     Inr (Calls out (Srv_worker pool at1), d1\<lparr>pool_memory := m\<rparr>, s1)))"

text \<open>A connection the system has accepted is open.\<close>

definition connected :: "server_env \<Rightarrow> int \<Rightarrow> served \<Rightarrow> served" where
  "connected G l d =
     (let fd = accept_call (system G (dispatched d)) l
      in if fd < 0 then d
         else d\<lparr>network := (network d)\<lparr>conns := (conns (network d))(fd \<mapsto> peer G (dispatched d))\<rparr>\<rparr>)"

fun server_code ::
  "server_env \<Rightarrow> int \<Rightarrow> server_frame \<Rightarrow> served \<Rightarrow> lib \<Rightarrow> (server_frame move \<times> served \<times> lib) res" where
  "server_code G tid Srv_main d s =
     bind_res (server_start tid (of_pool G) (cores (program_env G)) (hyper (program_env G))
         (system G (dispatched d)) (listen_addr G) (argv (program_env G)) (as_server d s)) (\<lambda>(pool, l, v).
     Inr (Calls (Returned 0) (Srv_loop pool l), from_server v d, srv_lib v))"
| "server_code G tid (Srv_loop pool l) d s =
     bind_res (server_turn tid (system G (dispatched d)) pool l (as_server d s)) (\<lambda>(out, v).
     Inr (Calls out (Srv_loop pool l), from_server v (connected G l d), srv_lib v))"
| "server_code G tid (Srv_worker pool at) d s = server_worker G tid pool at d s"

definition server_program :: "server_env \<Rightarrow> (server_frame, served) program" where
  "server_program G =
     \<lparr>start_frame = (\<lambda>_ a. Srv_worker (Some (nat a)) At_lock), code = server_code G\<rparr>"

section \<open>The specification: one request after the other\<close>

text \<open>
  A server without threads: accept a connection, serve it, accept the next. \<open>one_by_one G l k n\<close> is
  the network after \<open>k\<close> requests.
\<close>

definition next_request :: "server_env \<Rightarrow> int \<Rightarrow> int \<Rightarrow> net \<Rightarrow> net res" where
  "next_request G l k n =
     (let fd = accept_call (system G k) l; n1 = n\<lparr>conns := (conns n)(fd \<mapsto> peer G k)\<rparr>
      in request_client process_request (junk_bytes G n1) (stack_word G n1) fd n1)"

fun one_by_one :: "server_env \<Rightarrow> int \<Rightarrow> nat \<Rightarrow> net \<Rightarrow> net res" where
  "one_by_one G l 0 n = Inr n"
| "one_by_one G l (Suc k) n = bind_res (one_by_one G l k n) (next_request G l (int k))"

section \<open>The program as an instance of the interface\<close>

interpretation sv: worker_pool tid "server_program G" "Srv_worker (Some a)" a mtx cnd arr pool_memory
    "\<lambda>m d. d\<lparr>pool_memory := m\<rparr>" "handle_job G" for tid G a mtx cnd arr
proof (unfold_locales, goal_cases)
  case (1 at d s)
  then show ?case
    by (cases "at") (auto simp: server_program_def server_worker_def bind_res_assoc case_prod_unfold)
next
  case (2 d s cur m s')
  then show ?case by (simp add: server_program_def server_worker_def del: threadpool_scheduler.simps)
next
  case (3 d cur t f d' T s)
  then have "pool_memory d' = pool_memory d"
    by (auto simp: handle_job_def bind_res_Inr_iff split: if_splits)
  with 3 show ?case by (simp add: server_program_def server_worker_def)
next
  case (4 d cur t f e s)
  then show ?case by (simp add: server_program_def server_worker_def)
next
  case (9 f v m d)
  then show ?case
    by (cases "request_client process_request (junk_bytes G (network d)) (stack_word G (network d)) v (network d)")
      (simp_all add: handle_job_def)
qed (auto simp: server_program_def)

section \<open>Serving\<close>

text \<open>
  What the start of the server needs: the pool of 20 workers can be made, the command line names the
  port, and \<open>l\<close> is the listening socket.
\<close>

definition server_given :: "server_env \<Rightarrow> int \<Rightarrow> served \<Rightarrow> lib \<Rightarrow> bool" where
  "server_given G l d s \<longleftrightarrow>
     pool_given (program_env G) (of_pool G) (nat POOL_SIZE) (pool_memory d) s \<and> length (argv (program_env G)) = 2 \<and>
     (\<exists>L. setup_listen (system G 0) (listen_addr G) (argv (program_env G) ! 1) (socks d) = Inr (l, L)) \<and>
     dispatched d = 0"

text \<open>The pool of the server at address \<open>a\<close>, and the main thread between two turns of its loop.\<close>

abbreviation serving ::
  "int \<Rightarrow> server_env \<Rightarrow> nat \<Rightarrow> int \<Rightarrow> nat \<Rightarrow> (nat \<Rightarrow> server_frame place) \<Rightarrow> served \<Rightarrow> lib \<Rightarrow> nat list \<Rightarrow> nat list \<Rightarrow> bool" where
  "serving tid G a l kth st d s act blk \<equiv>
     sv.resting tid G a (mutex_at (of_pool G)) (cond_at (of_pool G)) kth (Srv_loop (Some a) l) st s act blk \<and>
     pool_at a (mutex_at (of_pool G)) (cond_at (of_pool G)) (threads_at (of_pool G), nat POOL_SIZE) [] (pool_memory d) \<and>
     set (act @ blk) = set (map (thread_at (program_env G)) [0..<nat POOL_SIZE]) \<and>
     0 < room (tasks (pool_memory d))"

lemma server_begins:
  assumes g: "server_given G l d s"
  obtains st d' s' act blk kth where
    "reaches tid (server_program G) (boot Srv_main d s) (config main_thread st d' s')"
    "serving tid G (fresh (pools (pool_memory d))) l kth st d' s' act blk"
    "network d' = network d" "dispatched d' = 0"
proof -
  let ?a = "fresh (pools (pool_memory d))" and ?E = "program_env G" and ?n = "nat POOL_SIZE"
  from g obtain L where g': "pool_given ?E (of_pool G) ?n (pool_memory d) s" "length (argv ?E) = 2"
    "setup_listen (system G 0) (listen_addr G) (argv ?E ! 1) (socks d) = Inr (l, L)" "dispatched d = 0"
    by (auto simp: server_given_def)
  then have room: "0 < room (tasks (pool_memory d))" by (simp add: pool_given_def)
  obtain m' s1 s2 where 1:
    "create_threadpool tid (of_pool G) (cores ?E) (hyper ?E) (int ?n) 0 (pool_memory d, s) = Inr (Some ?a, m', s1)"
    "forked tid (fresh (kths s)) (worker_start ?a) s2 (map (thread_at ?E) [0..<?n]) s1"
    "2 * length (map (thread_at ?E) [0..<?n]) < room (qnodes s2)"
    "mtxs s1 (mutex_at (of_pool G)) = Some new_mutex" "cnds s1 (cond_at (of_pool G)) = Some new_cond"
    "pool_at ?a (mutex_at (of_pool G)) (cond_at (of_pool G)) (threads_at (of_pool G), ?n) [] m'"
    "tasks m' = tasks (pool_memory d)"
    by (rule pool_made [OF g'(1)]) (simp_all add: POOL_SIZE_def MAXT_IN_POOL_def ULONLY_def)
  let ?st = "(\<lambda>_. At Srv_main)(main_thread := At (Srv_loop (Some ?a) l))"
  let ?d = "d\<lparr>pool_memory := m', socks := L, dispatched := 0\<rparr>"
  have "int ?n = POOL_SIZE" by (simp add: POOL_SIZE_def)
  then have "reaches tid (server_program G) (boot Srv_main d s) (config main_thread ?st ?d s1)"
    using g'(2-4) 1(1)
    by (intro reaches_step) (simp add: machine_step_def boot_def server_program_def server_start_def start_with_def
        as_server_def from_server_def)
  moreover have "?st main_thread = At (Srv_loop (Some ?a) l)" by simp
  note sv.forked_resting [where st = ?st and f = "Srv_loop (Some ?a) l", OF 1(2,4,5) this 1(3)]
  ultimately show ?thesis using 1(6,7) room by (intro that [of ?st ?d s1 "fresh (kths s)" "map (thread_at ?E) [0..<?n]" "[]"]) simp_all
qed

text \<open>A turn of the loop accepts the connection and dispatches it; the job is the request.\<close>

definition accepted :: "server_env \<Rightarrow> int \<Rightarrow> served \<Rightarrow> served" where
  "accepted G l d = (connected G l d)\<lparr>socks := snd (saccept (system G (dispatched d)) l (socks d)), dispatched := dispatched d + 1\<rparr>"

lemma server_turns:
  assumes acc: "0 \<le> accept_call (system G (dispatched d)) l"
  shows "code (server_program G) tid (Srv_loop (Some a) l) d s =
    bind_res (dispatch tid (Some a) (Some client_routine) (accept_call (system G (dispatched d)) l) (pool_memory d, s))
      (\<lambda>(out, m, s'). Inr (Calls out (Srv_loop (Some a) l), (accepted G l d)\<lparr>pool_memory := m\<rparr>, s'))"
  using acc by (cases "connected G l d") (simp add: accepted_def server_program_def server_turn_def as_server_def
      from_server_def saccept_def bind_res_assoc case_prod_unfold Let_def)

lemma handle_accepted:
  assumes acc: "0 \<le> accept_call (system G (dispatched d)) l"
  obtains L where "handle_job G client_routine (accept_call (system G (dispatched d)) l) (accepted G l d) =
    bind_res (next_request G l (dispatched d) (network d))
      (\<lambda>n. Inr (d\<lparr>network := n, socks := L, dispatched := dispatched d + 1\<rparr>))"
  using acc by (intro that [of "snd (saccept (system G (dispatched d)) l (socks d))"], cases d) (simp add: accepted_def handle_job_def connected_def next_request_def Let_def)

text \<open>After \<open>k\<close> requests the network is what the specification says, and the workers wait again.\<close>

lemma server_served:
  assumes sv: "serving tid G a l kth st d s act blk" "dispatched d = 0"
    and acc: "\<And>k. k < K \<Longrightarrow> 0 \<le> accept_call (system G (int k)) l"
    and spec: "one_by_one G l K (network d) = Inr n"
  shows "\<exists>st' d' s' act' blk'. reaches tid (server_program G) (config main_thread st d s) (config main_thread st' d' s') \<and>
    serving tid G a l kth st' d' s' act' blk' \<and> dispatched d' = int K \<and> network d' = n"
  using acc spec
proof (induction K arbitrary: n)
  case 0
  then show ?case using sv by (intro exI [of _ st] exI [of _ d] exI [of _ s] exI [of _ act] exI [of _ blk]) simp
next
  case (Suc K)
  from Suc.prems(2) obtain n1 where n1: "one_by_one G l K (network d) = Inr n1" "next_request G l (int K) n1 = Inr n"
    by (auto simp: bind_res_Inr_iff)
  with Suc.IH [OF Suc.prems(1)] obtain st1 d1 s1 act1 blk1 where 1:
    "reaches tid (server_program G) (config main_thread st d s) (config main_thread st1 d1 s1)"
    "serving tid G a l kth st1 d1 s1 act1 blk1" "dispatched d1 = int K" "network d1 = n1" by auto
  from 1(2) have rs: "sv.resting tid G a (mutex_at (of_pool G)) (cond_at (of_pool G)) kth (Srv_loop (Some a) l) st1 s1 act1 blk1"
    and p: "pool_at a (mutex_at (of_pool G)) (cond_at (of_pool G)) (threads_at (of_pool G), nat POOL_SIZE) [] (pool_memory d1)"
    and us: "set (act1 @ blk1) = set (map (thread_at (program_env G)) [0..<nat POOL_SIZE])"
    and room: "0 < room (tasks (pool_memory d1))" by simp_all
  have ne: "act1 @ blk1 \<noteq> []" using us by (auto simp: POOL_SIZE_def)
  have ac: "0 \<le> accept_call (system G (dispatched d1)) l" using Suc.prems(1) [of K] 1(3) by simp
  obtain L where L: "handle_job G client_routine (accept_call (system G (dispatched d1)) l) (accepted G l d1) =
    bind_res (next_request G l (dispatched d1) (network d1))
      (\<lambda>n. Inr (d1\<lparr>network := n, socks := L, dispatched := dispatched d1 + 1\<rparr>))" by (rule handle_accepted [OF ac])
  let ?d2 = "d1\<lparr>network := n, socks := L, dispatched := dispatched d1 + 1\<rparr>"
  have job: "handle_job G client_routine (accept_call (system G (dispatched d1)) l) (accepted G l d1) = Inr ?d2"
    using L n1(2) 1(3,4) by simp
  obtain st2 s2 m ws where 2: "reaches tid (server_program G) (config main_thread st1 d1 s1)
      (config main_thread st2 (?d2\<lparr>pool_memory := m\<rparr>) s2)"
    "sv.resting tid G a (mutex_at (of_pool G)) (cond_at (of_pool G)) kth (Srv_loop (Some a) l) st2 s2 [] ws"
    "pool_at a (mutex_at (of_pool G)) (cond_at (of_pool G)) (threads_at (of_pool G), nat POOL_SIZE) [] m"
    "room (tasks m) = room (tasks (pool_memory d1))" "set ws = set (act1 @ blk1)"
    by (rule sv.dispatch_served [OF rs ne p room server_turns [OF ac] job])
  show ?case
    using reaches_trans [OF 1(1) 2(1)] 2(2-5) 1(3) us room
    by (intro exI [of _ st2] exI [of _ "?d2\<lparr>pool_memory := m\<rparr>"] exI [of _ s2] exI [of _ "[]"] exI [of _ ws]) simp
qed

lemma server_stopped:
  assumes sv: "serving tid G a l kth st d s act blk"
    and acc: "0 \<le> accept_call (system G (dispatched d)) l"
    and e: "next_request G l (dispatched d) (network d) = Inl e"
  shows "\<exists>M. reaches tid (server_program G) (config main_thread st d s) M \<and>
    running M \<in> set (map (thread_at (program_env G)) [0..<nat POOL_SIZE]) \<and> machine_step tid (server_program G) M = Inl e"
proof -
  from sv have rs: "sv.resting tid G a (mutex_at (of_pool G)) (cond_at (of_pool G)) kth (Srv_loop (Some a) l) st s act blk"
    and p: "pool_at a (mutex_at (of_pool G)) (cond_at (of_pool G)) (threads_at (of_pool G), nat POOL_SIZE) [] (pool_memory d)"
    and us: "set (act @ blk) = set (map (thread_at (program_env G)) [0..<nat POOL_SIZE])"
    and room: "0 < room (tasks (pool_memory d))" by simp_all
  have ne: "act @ blk \<noteq> []" using us by (auto simp: POOL_SIZE_def)
  obtain L where "handle_job G client_routine (accept_call (system G (dispatched d)) l) (accepted G l d) =
    bind_res (next_request G l (dispatched d) (network d))
      (\<lambda>n. Inr (d\<lparr>network := n, socks := L, dispatched := dispatched d + 1\<rparr>))" by (rule handle_accepted [OF acc])
  with e have "handle_job G client_routine (accept_call (system G (dispatched d)) l) (accepted G l d) = Inl e" by simp
  from sv.dispatch_stops [OF rs ne p room server_turns [OF acc] this] show ?thesis unfolding us .
qed

text \<open>Where the specification stops, it stops in one of its requests.\<close>

lemma one_by_one_stops:
  "one_by_one G l K n = Inl e \<Longrightarrow> \<exists>k<K. \<exists>n1. one_by_one G l k n = Inr n1 \<and> next_request G l (int k) n1 = Inl e"
proof (induction K)
  case (Suc K)
  then show ?case by (cases "one_by_one G l K n") (auto simp: less_Suc_eq)
qed simp

section \<open>The whole server\<close>

text \<open>
  C2: the server as a whole does what a server without threads does. As long as connections are accepted,
  after \<open>K\<close> turns of its loop the connections and the memory are those of the sequential server after
  \<open>K\<close> requests, the pool's queue is empty and \<open>main\<close> is about to accept again: a worker has
  served each connection before the next one is accepted. Where the sequential server stops in a
  request, so does this one, with the same result, and it is a worker that stops it: a client that
  goes silent keeps the only kernel thread asleep, and with it all workers and \<open>main\<close>.
\<close>

theorem server_runs_one_by_one:
  assumes g: "server_given G l d s" and acc: "\<And>k. k < K \<Longrightarrow> 0 \<le> accept_call (system G (int k)) l"
  shows "case one_by_one G l K (network d) of
      Inr n \<Rightarrow> \<exists>M. reaches tid (server_program G) (boot Srv_main d s) M \<and> running M = main_thread \<and>
        stacks M main_thread = At (Srv_loop (Some (fresh (pools (pool_memory d)))) l) \<and>
        network (shared M) = n \<and> dispatched (shared M) = int K \<and>
        task_queue (fresh (pools (pool_memory d))) (pool_memory (shared M)) []
    | Inl e \<Rightarrow> \<exists>M. reaches tid (server_program G) (boot Srv_main d s) M \<and>
        running M \<in> set (map (thread_at (program_env G)) [0..<nat POOL_SIZE]) \<and>
        machine_step tid (server_program G) M = Inl e"
proof -
  let ?a = "fresh (pools (pool_memory d))"
  obtain st0 d0 s0 act0 blk0 kth where 0:
    "reaches tid (server_program G) (boot Srv_main d s) (config main_thread st0 d0 s0)"
    "serving tid G ?a l kth st0 d0 s0 act0 blk0" "network d0 = network d" "dispatched d0 = 0"
    by (rule server_begins [OF g])
  have served: "\<exists>st' d' s' act' blk'. reaches tid (server_program G) (boot Srv_main d s) (config main_thread st' d' s') \<and>
      serving tid G ?a l kth st' d' s' act' blk' \<and> dispatched d' = int k \<and> network d' = n"
    if "k \<le> K" "one_by_one G l k (network d) = Inr n" for k n
  proof -
    have "0 \<le> accept_call (system G (int j)) l" if "j < k" for j using acc that \<open>k \<le> K\<close> by simp
    from server_served [OF 0(2,4) this] that(2) 0(3) show ?thesis using reaches_trans [OF 0(1)] by fastforce
  qed
  show ?thesis
  proof (cases "one_by_one G l K (network d)")
    case (Inr n)
    from served [OF order_refl Inr] show ?thesis
      unfolding Inr sum.case by (elim exE conjE, intro exI conjI) (assumption | simp add: sv.resting_def pool_at_def)+
  next
    case (Inl e)
    from one_by_one_stops [OF this] obtain k n1 where k: "k < K" "one_by_one G l k (network d) = Inr n1"
      "next_request G l (int k) n1 = Inl e" by blast
    from served [OF less_imp_le [OF k(1)] k(2)] obtain st1 d1 s1 act1 blk1 where 1:
      "reaches tid (server_program G) (boot Srv_main d s) (config main_thread st1 d1 s1)"
      "serving tid G ?a l kth st1 d1 s1 act1 blk1" "dispatched d1 = int k" "network d1 = n1" by blast
    have ac: "0 \<le> accept_call (system G (dispatched d1)) l" using acc k(1) 1(3) by simp
    have "next_request G l (dispatched d1) (network d1) = Inl e" using k(3) 1(3,4) by simp
    from server_stopped [OF 1(2) ac this] show ?thesis using reaches_trans [OF 1(1)] Inl by fastforce
  qed
qed

text \<open>Concrete servers: connections come on descriptor 4, where a worker's stack also points.\<close>

definition sample_server :: "(int \<Rightarrow> conn) \<Rightarrow> server_env" where
  "sample_server cs =
     \<lparr>program_env = sample_env [''server'', ''4464''], of_pool = sample_pool, system = (\<lambda>_. demo_env),
      listen_addr = \<lparr>sin_family = 0, sin_addr = 0, sin_port = 0\<rparr>, peer = cs, junk_bytes = (\<lambda>_. []),
      stack_word = (\<lambda>_. 4)\<rparr>"

definition sample_data :: served where
  "sample_data =
     \<lparr>pool_memory = no_pools, socks = \<lparr>serrno = 0, sename = None, open_fds = []\<rparr>, dispatched = 0,
      network = \<lparr>conns = Map.empty, closed = [], bufs = \<lparr>cells = Map.empty, fresh = 0, room = 8\<rparr>\<rparr>\<rparr>"

lemma sample_server_given: "server_given (sample_server cs) 3 sample_data (program_start 60 30)"
proof -
  have "isdigit (first_char ''4464'')" by code_simp
  from slisten_outcome [OF _ _ _ this, of demo_env 6]
  have "\<exists>L. setup_listen demo_env \<lparr>sin_family = 0, sin_addr = 0, sin_port = 0\<rparr> ''4464'' (socks sample_data) = Inr (3, L)"
    by (simp add: setup_listen_def demo_env_def)
  moreover have "pool_given (sample_env [''server'', ''4464'']) sample_pool (nat POOL_SIZE) no_pools (program_start 60 30)"
    by (rule pool_given_program) (simp_all add: POOL_SIZE_def)
  ultimately show ?thesis
    by (simp add: server_given_def sample_server_def sample_data_def) (simp add: sample_env_def)
qed

text \<open>A client that sends three bytes and goes silent.\<close>

definition silent :: conn where
  "silent = \<lparr>inbox = [Bytes ''abc''], outbox = [], wire = []\<rparr>"

theorem server_runs_one_by_one_witness:
  "\<exists>M. reaches 9 (server_program (sample_server (\<lambda>_. silent))) (boot Srv_main sample_data (program_start 60 30)) M \<and>
    running M \<noteq> main_thread \<and> machine_step 9 (server_program (sample_server (\<lambda>_. silent))) M = Inl SysBlocked"
proof -
  let ?G = "sample_server (\<lambda>_. silent)"
  have acc: "0 \<le> accept_call (system ?G (int k)) 3" for k by (simp add: sample_server_def demo_env_def)
  have "correct_read (replicate 10 NUL) 10 [Bytes ''abc''] = Inl SysBlocked" by code_simp
  then have "one_by_one ?G 3 1 (network sample_data) = Inl SysBlocked"
    by (simp add: sample_server_def sample_data_def silent_def demo_env_def next_request_def request_client_def
        read_request_def malloc_room REQUEST_SIZE_def conn_of_def)
  moreover have "main_thread \<notin> set (map (thread_at (program_env ?G)) [0..<nat POOL_SIZE])"
    by (simp add: sample_server_def sample_env_def main_thread_def)
  ultimately show ?thesis
    using server_runs_one_by_one [OF sample_server_given acc, where K = 1 and tid = 9] by force
qed

section \<open>What the clients get\<close>

text \<open>A client that sends a whole request and takes the response.\<close>

definition cooperates :: "conn \<Rightarrow> bool" where
  "cooperates c \<longleftrightarrow> 10 \<le> length (fst (incoming (inbox c))) \<and> steady (outbox c) \<and> 10 \<le> taken (outbox c)"

definition reply_to :: "conn \<Rightarrow> char list" where
  "reply_to c = wire c @ munged (take 10 (fst (incoming (inbox c))))"

lemma one_by_one_answers:
  assumes ok: "heap_ok (bufs n)" "1 < room (bufs n)"
    and fd: "\<And>k. k < K \<Longrightarrow> accept_call (system G (int k)) l = fd"
    and stack: "\<And>n. conns n fd \<noteq> None \<Longrightarrow> stack_word G n = fd"
    and peers: "\<And>k. k < K \<Longrightarrow> cooperates (peer G (int k))"
  shows "\<exists>n' cs. one_by_one G l K n = Inr n' \<and> heap_ok (bufs n') \<and> room (bufs n') = room (bufs n) \<and>
    closed n' = rev cs @ closed n \<and> map wire cs = map (\<lambda>k. reply_to (peer G (int k))) [0..<K]"
  using fd peers
proof (induction K)
  case 0
  then show ?case using ok by simp
next
  case (Suc K)
  then obtain n1 cs where 1: "one_by_one G l K n = Inr n1" "heap_ok (bufs n1)" "room (bufs n1) = room (bufs n)"
    "closed n1 = rev cs @ closed n" "map wire cs = map (\<lambda>k. reply_to (peer G (int k))) [0..<K]" by auto
  let ?c = "peer G (int K)" and ?n = "n1\<lparr>conns := (conns n1)(fd \<mapsto> peer G (int K))\<rparr>"
  have c: "10 \<le> length (fst (incoming (inbox ?c)))" "steady (outbox ?c)" "10 \<le> taken (outbox ?c)"
    using Suc.prems(2) [of K] by (simp_all add: cooperates_def)
  have n1: "heap_ok (bufs ?n)" "1 < room (bufs ?n)" "conns ?n fd = Some ?c" using 1(2,3) ok(2) by simp_all
  obtain n2 c' where 2: "request_client process_request (junk_bytes G ?n) fd fd ?n = Inr n2"
    "conns n2 = (conns ?n)(fd := None)" "closed n2 = c' # closed ?n"
    "wire c' = wire ?c @ munged (take 10 (fst (incoming (inbox ?c))))"
    "incoming (inbox c') = (drop 10 (fst (incoming (inbox ?c))), snd (incoming (inbox ?c)))"
    "heap_ok (bufs n2)" "room (bufs n2) = room (bufs ?n)"
    by (rule request_client_answer [OF n1 c])
  have "stack_word G ?n = fd" using stack by simp
  then have "one_by_one G l (Suc K) n = Inr n2"
    using 1(1) 2(1) Suc.prems(1) [of K] by (simp add: next_request_def)
  then show ?case
    using 1(3-5) 2(3,4,6,7) by (intro exI [of _ n2] exI [of _ "cs @ [c']"]) (simp add: reply_to_def)
qed

text \<open>
  C5: every client of the running server is answered. Let clients connect that send their ten bytes, in
  whatever pieces, and take what they are sent, and let the stacks of the workers hold the descriptor
  where the code reads it uninitialised: when \<open>main\<close> is about to accept the next connection, each of
  the \<open>K\<close> connections has been closed, in the order of their arrival, with the answer to its own request
  on it.
\<close>

theorem server_answers_everyone:
  assumes g: "server_given G l d s" and ok: "heap_ok (bufs (network d))" "1 < room (bufs (network d))"
    and fd: "0 \<le> fd" "\<And>k. k < K \<Longrightarrow> accept_call (system G (int k)) l = fd"
    and stack: "\<And>n. conns n fd \<noteq> None \<Longrightarrow> stack_word G n = fd"
    and peers: "\<And>k. k < K \<Longrightarrow> cooperates (peer G (int k))"
  shows "\<exists>M cs. reaches tid (server_program G) (boot Srv_main d s) M \<and> running M = main_thread \<and>
    stacks M main_thread = At (Srv_loop (Some (fresh (pools (pool_memory d)))) l) \<and>
    closed (network (shared M)) = rev cs @ closed (network d) \<and>
    map wire cs = map (\<lambda>k. reply_to (peer G (int k))) [0..<K]"
proof -
  obtain st0 d0 s0 act0 blk0 kth where 0:
    "reaches tid (server_program G) (boot Srv_main d s) (config main_thread st0 d0 s0)"
    "serving tid G (fresh (pools (pool_memory d))) l kth st0 d0 s0 act0 blk0" "network d0 = network d" "dispatched d0 = 0"
    by (rule server_begins [OF g])
  from one_by_one_answers [OF ok fd(2) stack peers] obtain n cs where n: "one_by_one G l K (network d0) = Inr n"
    "closed n = rev cs @ closed (network d)" "map wire cs = map (\<lambda>k. reply_to (peer G (int k))) [0..<K]"
    using 0(3) by metis
  have "0 \<le> accept_call (system G (int k)) l" if "k < K" for k using fd that by simp
  from server_served [OF 0(2,4) this n(1)] obtain st1 d1 s1 act1 blk1 where 1:
    "reaches tid (server_program G) (config main_thread st0 d0 s0) (config main_thread st1 d1 s1)"
    "serving tid G (fresh (pools (pool_memory d))) l kth st1 d1 s1 act1 blk1" "network d1 = n" by blast
  from 1(2) have "st1 main_thread = At (Srv_loop (Some (fresh (pools (pool_memory d)))) l)" by (simp add: sv.resting_def)
  with reaches_trans [OF 0(1) 1(1)] 1(3) n(2,3) show ?thesis
    by (intro exI [of _ "config main_thread st1 d1 s1"] exI [of _ cs]) simp
qed

text \<open>Three clients with different requests.\<close>

definition asking :: "int \<Rightarrow> conn" where
  "asking k = \<lparr>inbox = [Bytes [char_of (48 + nat k)], Read_fails EINTR, Bytes ''bcdefghij''], outbox = [Takes 3, Takes 7], wire = []\<rparr>"

theorem server_answers_everyone_witness:
  "\<exists>M cs. reaches 9 (server_program (sample_server asking)) (boot Srv_main sample_data (program_start 60 30)) M \<and>
    map wire cs = [''0ghijbcdef'', ''1ghijbcdef'', ''2ghijbcdef''] \<and> closed (network (shared M)) = rev cs"
proof -
  let ?G = "sample_server asking"
  have ok: "heap_ok (bufs (network sample_data))" "1 < room (bufs (network sample_data))"
    by (simp_all add: sample_data_def heap_ok_def)
  have G: "accept_call (system ?G (int k)) 3 = 4" "stack_word ?G n = 4" "cooperates (peer ?G (int k))" for k n
    by (simp_all add: sample_server_def demo_env_def cooperates_def asking_def steady_def EINTR_def)
  have e: "map (\<lambda>k. reply_to (asking (int k))) [0..<3] = [''0ghijbcdef'', ''1ghijbcdef'', ''2ghijbcdef'']" by code_simp
  have p: "peer ?G = asking" "closed (network sample_data) = []" by (simp_all add: sample_server_def sample_data_def)
  have "(0::int) \<le> 4" by simp
  from server_answers_everyone [OF sample_server_given ok this G, where K = 3 and tid = 9]
  obtain M cs where "reaches 9 (server_program ?G) (boot Srv_main sample_data (program_start 60 30)) M"
    "closed (network (shared M)) = rev cs" "map wire cs = map (\<lambda>k. reply_to (asking (int k))) [0..<3]"
    unfolding p append_Nil2 by blast
  then show ?thesis unfolding e by (intro exI conjI)
qed

end
