(* ===== verification/Posix_Threads.thy ===== *)
theory Posix_Threads
  imports Prelude
begin

text \<open>
  Programs on the system's threads, which run at the same time. The pthread library is not part of the
  repository: it is an argument, a relation between its states, and \<open>posix\<close> and \<open>posix_live\<close> state
  what is documented of it. A step of a program is a step of any one of its threads: a call of the library that
  returns, or a read or write of the shared data.
\<close>

section \<open>The library\<close>

text \<open>
  The calls. \<open>pthread_cond_wait\<close> is two: \<open>Rq_wait\<close>, which releases the mutex and puts the thread to sleep, and
  \<open>Rq_wake\<close>, its return with the mutex.
\<close>

datatype request =
    Rq_mutex_init nat | Rq_cond_init nat | Rq_lock nat | Rq_unlock nat | Rq_wait nat nat | Rq_wake nat nat
  | Rq_signal nat | Rq_create nat | Rq_detach nat | Rq_join nat | Rq_exit

text \<open>\<open>lib e t rq v e'\<close>: in state \<open>e\<close> the call \<open>rq\<close> of thread \<open>t\<close> returns \<open>v\<close> and leaves the state \<open>e'\<close>.\<close>

type_synonym 'e pthread_lib = "'e \<Rightarrow> nat \<Rightarrow> request \<Rightarrow> int \<Rightarrow> 'e \<Rightarrow> bool"

text \<open>
  What is documented of the calls that return, with the owner of each mutex and the threads that have ended.
  All calls succeed.
\<close>

definition posix :: "'e pthread_lib \<Rightarrow> ('e \<Rightarrow> nat \<Rightarrow> nat option) \<Rightarrow> ('e \<Rightarrow> nat \<Rightarrow> bool) \<Rightarrow> bool" where
  "posix lib own fin \<longleftrightarrow>
     (\<forall>e t rq v e'. lib e t rq v e' \<longrightarrow> v = 0 \<and>
        (case rq of
           Rq_mutex_init m \<Rightarrow> own e' = (own e)(m := None) \<and> fin e' = fin e
         | Rq_lock m \<Rightarrow> own e m = None \<and> own e' = (own e)(m \<mapsto> t) \<and> fin e' = fin e
         | Rq_unlock m \<Rightarrow> (own e m = Some t \<longrightarrow> own e' = (own e)(m := None) \<and> fin e' = fin e)
         | Rq_wait c m \<Rightarrow> (own e m = Some t \<longrightarrow> own e' = (own e)(m := None) \<and> fin e' = fin e)
         | Rq_wake c m \<Rightarrow> own e m = None \<and> own e' = (own e)(m \<mapsto> t) \<and> fin e' = fin e
         | Rq_join u \<Rightarrow> fin e u \<and> own e' = own e \<and> fin e' = fin e
         | Rq_exit \<Rightarrow> own e' = own e \<and> fin e' = (fin e)(t := True)
         | _ \<Rightarrow> own e' = own e \<and> fin e' = fin e))"

text \<open>
  When calls return, with the condition variable each thread sleeps on: the calls that need not wait always
  do, and a signal wakes one of the sleepers, if there are any. A thread may also wake up by itself.
\<close>

definition sleep_law :: "(nat \<Rightarrow> nat option) \<Rightarrow> nat \<Rightarrow> request \<Rightarrow> (nat \<Rightarrow> nat option) \<Rightarrow> bool" where
  "sleep_law z t rq z' \<longleftrightarrow>
     (case rq of
        Rq_wait c m \<Rightarrow> (\<forall>u. u \<noteq> t \<longrightarrow> z' u = z u) \<and> (z' t = None \<or> z' t = Some c)
      | Rq_wake c m \<Rightarrow> z' = z(t := None)
      | Rq_signal c \<Rightarrow> (\<forall>u. z' u = z u \<or> z' u = None) \<and>
          ((\<exists>u. z u = Some c) \<longrightarrow> (\<exists>u. z u = Some c \<and> z' u = None))
      | _ \<Rightarrow> z' = z)"

definition returns_law ::
  "(nat \<Rightarrow> nat option) \<Rightarrow> (nat \<Rightarrow> bool) \<Rightarrow> (nat \<Rightarrow> nat option) \<Rightarrow> nat \<Rightarrow> request \<Rightarrow> bool" where
  "returns_law o' f z t rq \<longleftrightarrow>
     (case rq of
        Rq_lock m \<Rightarrow> o' m = None
      | Rq_unlock m \<Rightarrow> o' m = Some t
      | Rq_wait c m \<Rightarrow> o' m = Some t
      | Rq_wake c m \<Rightarrow> z t = None \<and> o' m = None
      | Rq_join u \<Rightarrow> f u
      | _ \<Rightarrow> True)"

definition posix_live ::
  "'e pthread_lib \<Rightarrow> ('e \<Rightarrow> nat \<Rightarrow> nat option) \<Rightarrow> ('e \<Rightarrow> nat \<Rightarrow> bool) \<Rightarrow> ('e \<Rightarrow> nat \<Rightarrow> nat option) \<Rightarrow> bool" where
  "posix_live lib own fin slp \<longleftrightarrow>
     posix lib own fin \<and> (\<forall>e t rq v e'. lib e t rq v e' \<longrightarrow> sleep_law (slp e) t rq (slp e')) \<and>
     (\<forall>e t rq. returns_law (own e) (fin e) (slp e) t rq \<longrightarrow> (\<exists>v e'. lib e t rq v e'))"

section \<open>Programs\<close>

text \<open>
  What a thread at a frame does next: a call, with the frames to go on at; a step on the shared data; the end of
  the process.
\<close>

datatype ('f, 'd) deed = Call request "int \<Rightarrow> 'f" | Local 'f 'd | Quit int

datatype 'f thread = Unborn | Live 'f | Gone

record ('f, 'd) pprogram =
  first_frame :: "nat \<Rightarrow> 'f"
  deed_of :: "nat \<Rightarrow> 'f \<Rightarrow> 'd \<Rightarrow> ('f, 'd) deed"

record ('f, 'd, 'e) pconfig =
  th_of :: "nat \<Rightarrow> 'f thread"
  data_of :: 'd
  sys_of :: 'e
  quit_code :: "int option"

fun after_call ::
  "('f, 'd) pprogram \<Rightarrow> nat \<Rightarrow> request \<Rightarrow> int \<Rightarrow> 'f \<Rightarrow> (nat \<Rightarrow> 'f thread) \<Rightarrow> nat \<Rightarrow> 'f thread" where
  "after_call P t (Rq_create u) v f th =
     (if v = 0 then th(t := Live f, u := Live (first_frame P u)) else th(t := Live f))"
| "after_call P t Rq_exit v f th = th(t := Gone)"
| "after_call P t rq v f th = th(t := Live f)"

inductive pstep ::
  "'e pthread_lib \<Rightarrow> ('f, 'd) pprogram \<Rightarrow> ('f, 'd, 'e) pconfig \<Rightarrow> ('f, 'd, 'e) pconfig \<Rightarrow> bool" for lib P where
  call: "\<lbrakk>quit_code c = None; th_of c t = Live f; deed_of P t f (data_of c) = Call rq k;
      lib (sys_of c) t rq v e'\<rbrakk> \<Longrightarrow>
    pstep lib P c (c\<lparr>th_of := after_call P t rq v (k v) (th_of c), sys_of := e'\<rparr>)"
| local: "\<lbrakk>quit_code c = None; th_of c t = Live f; deed_of P t f (data_of c) = Local f' d'\<rbrakk> \<Longrightarrow>
    pstep lib P c (c\<lparr>th_of := (th_of c)(t := Live f'), data_of := d'\<rparr>)"
| quit: "\<lbrakk>quit_code c = None; th_of c t = Live f; deed_of P t f (data_of c) = Quit v\<rbrakk> \<Longrightarrow>
    pstep lib P c (c\<lparr>quit_code := Some v\<rparr>)"

inductive preach ::
  "'e pthread_lib \<Rightarrow> ('f, 'd) pprogram \<Rightarrow> ('f, 'd, 'e) pconfig \<Rightarrow> ('f, 'd, 'e) pconfig \<Rightarrow> bool" for lib P c0 where
  here: "preach lib P c0 c0"
| further: "preach lib P c0 c \<Longrightarrow> pstep lib P c c' \<Longrightarrow> preach lib P c0 c'"

text \<open>The start: thread 0 is the main thread.\<close>

definition pstart :: "'f \<Rightarrow> 'd \<Rightarrow> 'e \<Rightarrow> ('f, 'd, 'e) pconfig" where
  "pstart f d e = \<lparr>th_of = (\<lambda>_. Unborn)(0 := Live f), data_of = d, sys_of = e, quit_code = None\<rparr>"

text \<open>An invariant is shown step by step.\<close>

lemma preach_invariant:
  assumes "preach lib P c0 c" and "I c0" and "\<And>c c'. I c \<Longrightarrow> pstep lib P c c' \<Longrightarrow> I c'"
  shows "I c"
  using assms by (induction rule: preach.induct) auto

lemma preach_trans: "preach lib P c0 c \<Longrightarrow> preach lib P c c' \<Longrightarrow> preach lib P c0 c'"
  by (rotate_tac 1, induction rule: preach.induct) (auto intro: preach.further)

section \<open>A library to run programs with\<close>

text \<open>Mutexes with owners, sleepers in the order of their arrival, and the threads that have ended.\<close>

record px =
  px_own :: "nat \<Rightarrow> nat option"
  px_sleep :: "(nat \<times> nat) list"
  px_fin :: "nat \<Rightarrow> bool"

definition wake_one :: "nat \<Rightarrow> (nat \<times> nat) list \<Rightarrow> (nat \<times> nat) list" where
  "wake_one c zs =
     (case find (\<lambda>z. map_of zs (fst z) = Some c) zs of None \<Rightarrow> zs | Some z \<Rightarrow> filter (\<lambda>y. fst y \<noteq> fst z) zs)"

fun px_call :: "px \<Rightarrow> nat \<Rightarrow> request \<Rightarrow> px option" where
  "px_call e t (Rq_mutex_init m) = Some (e\<lparr>px_own := (px_own e)(m := None)\<rparr>)"
| "px_call e t (Rq_lock m) = (if px_own e m = None then Some (e\<lparr>px_own := (px_own e)(m \<mapsto> t)\<rparr>) else None)"
| "px_call e t (Rq_unlock m) = (if px_own e m = Some t then Some (e\<lparr>px_own := (px_own e)(m := None)\<rparr>) else None)"
| "px_call e t (Rq_wait c m) =
     (if px_own e m = Some t
      then Some (e\<lparr>px_own := (px_own e)(m := None), px_sleep := filter (\<lambda>z. fst z \<noteq> t) (px_sleep e) @ [(t, c)]\<rparr>) else None)"
| "px_call e t (Rq_wake c m) =
     (if t \<notin> fst ` set (px_sleep e) \<and> px_own e m = None then Some (e\<lparr>px_own := (px_own e)(m \<mapsto> t)\<rparr>) else None)"
| "px_call e t (Rq_signal c) = Some (e\<lparr>px_sleep := wake_one c (px_sleep e)\<rparr>)"
| "px_call e t (Rq_join u) = (if px_fin e u then Some e else None)"
| "px_call e t Rq_exit = Some (e\<lparr>px_fin := (px_fin e)(t := True)\<rparr>)"
| "px_call e t _ = Some e"

definition px_lib :: "px pthread_lib" where
  "px_lib e t rq v e' \<longleftrightarrow> v = 0 \<and> px_call e t rq = Some e'"

definition px_slp :: "px \<Rightarrow> nat \<Rightarrow> nat option" where
  "px_slp e = map_of (px_sleep e)"

definition px_start :: px where
  "px_start = \<lparr>px_own = (\<lambda>_. None), px_sleep = [], px_fin = (\<lambda>_. False)\<rparr>"

lemma px_posix: "posix px_lib px_own px_fin"
  by (auto simp: posix_def px_lib_def split: request.splits if_splits)

lemma map_of_others: "map_of (filter (\<lambda>z. fst z \<noteq> t) zs) u = (if u = t then None else map_of zs u)"
  by (induction zs) auto

lemma wake_one_law:
  "map_of (wake_one c zs) u = map_of zs u \<or> map_of (wake_one c zs) u = None"
  "map_of zs u = Some c \<Longrightarrow> \<exists>w. map_of zs w = Some c \<and> map_of (wake_one c zs) w = None"
proof -
  show "map_of (wake_one c zs) u = map_of zs u \<or> map_of (wake_one c zs) u = None"
    by (auto simp: wake_one_def map_of_others split: option.splits)
  assume u: "map_of zs u = Some c"
  then have "(u, c) \<in> set zs" by (rule map_of_SomeD)
  then obtain z where z: "find (\<lambda>z. map_of zs (fst z) = Some c) zs = Some z"
    using u by (cases "find (\<lambda>z. map_of zs (fst z) = Some c) zs") (force simp: find_None_iff)+
  then have "map_of zs (fst z) = Some c" by (auto simp: find_Some_iff)
  with z show "\<exists>w. map_of zs w = Some c \<and> map_of (wake_one c zs) w = None"
    by (intro exI [of _ "fst z"]) (simp add: wake_one_def map_of_others)
qed

lemma px_sleep_law: "px_call e t rq = Some e' \<Longrightarrow> sleep_law (px_slp e) t rq (px_slp e')"
proof (cases rq)
  case (Rq_signal c)
  moreover assume "px_call e t rq = Some e'"
  ultimately have e': "px_sleep e' = wake_one c (px_sleep e)" by auto
  show ?thesis
    unfolding sleep_law_def px_slp_def e' Rq_signal request.case
    by (intro conjI allI impI, rule wake_one_law(1), elim exE, rule wake_one_law(2))
next
  case (Rq_wake c m)
  moreover assume "px_call e t rq = Some e'"
  ultimately have "px_sleep e' = px_sleep e" "map_of (px_sleep e) t = None"
    by (auto simp: map_of_eq_None_iff split: if_splits)
  with Rq_wake show ?thesis by (simp add: sleep_law_def px_slp_def fun_upd_idem)
qed (auto simp: sleep_law_def px_slp_def map_add_def map_of_others split: if_splits option.splits)

lemma px_returns_law: "returns_law (px_own e) (px_fin e) (px_slp e) t rq \<Longrightarrow> px_call e t rq \<noteq> None"
  by (cases rq) (auto simp: returns_law_def px_slp_def map_of_eq_None_iff)

lemma px_posix_live: "posix_live px_lib px_own px_fin px_slp"
  using px_posix px_sleep_law px_returns_law by (fastforce simp: posix_live_def px_lib_def)

text \<open>Running a schedule, the numbers of the threads that take the steps.\<close>

definition px_turn :: "('f, 'd) pprogram \<Rightarrow> nat \<Rightarrow> ('f, 'd, px) pconfig \<Rightarrow> ('f, 'd, px) pconfig option" where
  "px_turn P t c =
     (case (quit_code c, th_of c t) of
        (None, Live f) \<Rightarrow>
          (case deed_of P t f (data_of c) of
             Call rq k \<Rightarrow>
               (case px_call (sys_of c) t rq of
                  None \<Rightarrow> None
                | Some e \<Rightarrow> Some (c\<lparr>th_of := after_call P t rq 0 (k 0) (th_of c), sys_of := e\<rparr>))
           | Local f' d' \<Rightarrow> Some (c\<lparr>th_of := (th_of c)(t := Live f'), data_of := d'\<rparr>)
           | Quit v \<Rightarrow> Some (c\<lparr>quit_code := Some v\<rparr>))
      | _ \<Rightarrow> None)"

fun px_run :: "('f, 'd) pprogram \<Rightarrow> nat list \<Rightarrow> ('f, 'd, px) pconfig \<Rightarrow> ('f, 'd, px) pconfig option" where
  "px_run P [] c = Some c"
| "px_run P (t # ts) c = (case px_turn P t c of None \<Rightarrow> None | Some c' \<Rightarrow> px_run P ts c')"

lemma px_turn_step: "px_turn P t c = Some c' \<Longrightarrow> pstep px_lib P c c'"
  by (auto simp: px_turn_def px_lib_def split: option.splits thread.splits deed.splits
      intro: pstep.call [where v = 0] pstep.local pstep.quit)

lemma px_run_reach: "px_run P ts c = Some c' \<Longrightarrow> preach px_lib P c c'"
proof (induction ts arbitrary: c)
  case (Cons t ts)
  then obtain c1 where "pstep px_lib P c c1" "preach px_lib P c1 c'"
    by (auto split: option.splits dest: px_turn_step)
  then show ?case by (blast intro: preach.here preach.further preach_trans)
qed (simp add: preach.here)

end
