(* ===== verification/Posix_Programs.thy ===== *)
theory Posix_Programs
  imports Posix_Threads
begin

text \<open>
  The programs of the repository that run on the system's threads: \<open>pthreads/pthread_sample4.c\<close>,
  \<open>pthread_sample5.c\<close> and \<open>server/example_thread.c\<close>. Each statement that reads or writes a shared variable
  is a step of its own (\<open>counter++\<close> is two), so that all interleavings are runs of the model. The numbers
  of the threads are those of the calls of \<open>pthread_create\<close>; mutexes and condition variables are numbers.
\<close>

section \<open>\<open>pthread_sample4.c\<close>\<close>

text \<open>The shared data is the counter and what is printed of it. What the threads print is left out.\<close>

definition P4_THREADS :: nat where "P4_THREADS = 10"

datatype p4_frame =
    P4_init | P4_create nat | P4_join nat | P4_print | P4_exit
  | T4_lock | T4_read | T4_write int | T4_unlock | T4_exit

fun p4_deed :: "nat \<Rightarrow> p4_frame \<Rightarrow> int \<times> int list \<Rightarrow> (p4_frame, int \<times> int list) deed" where
  "p4_deed t P4_init d = Call (Rq_mutex_init 0) (\<lambda>_. P4_create 0)"
| "p4_deed t (P4_create i) d =
     (if i < P4_THREADS then Call (Rq_create (Suc i)) (\<lambda>_. P4_create (Suc i)) else Local (P4_join 0) d)"
| "p4_deed t (P4_join j) d =
     (if j < P4_THREADS then Call (Rq_join (Suc j)) (\<lambda>_. P4_join (Suc j)) else Local P4_print d)"
| "p4_deed t P4_print d = Local P4_exit (fst d, snd d @ [fst d])"
| "p4_deed t P4_exit d = Call Rq_exit (\<lambda>_. P4_exit)"
| "p4_deed t T4_lock d = Call (Rq_lock 0) (\<lambda>_. T4_read)"
| "p4_deed t T4_read d = Local (T4_write (fst d)) d"
| "p4_deed t (T4_write n) d = Local T4_unlock (n + 1, snd d)"
| "p4_deed t T4_unlock d = Call (Rq_unlock 0) (\<lambda>_. T4_exit)"
| "p4_deed t T4_exit d = Call Rq_exit (\<lambda>_. T4_exit)"

definition pthread_sample4 :: "(p4_frame, int \<times> int list) pprogram" where
  "pthread_sample4 = \<lparr>first_frame = (\<lambda>_. T4_lock), deed_of = p4_deed\<rparr>"

section \<open>\<open>pthread_sample5.c\<close>\<close>

text \<open>
  Thread 1 is \<open>functionCount1\<close>, thread 2 \<open>functionCount2\<close>; the mutex 0 is \<open>count_mutex\<close>, 1 is
  \<open>condition_mutex\<close>. A condition with two comparisons reads the counter twice. The second half of the loop
  is the same in both threads.
\<close>

definition P5_DONE :: int where "P5_DONE = 10"
definition P5_HALT1 :: int where "P5_HALT1 = 3"
definition P5_HALT2 :: int where "P5_HALT2 = 6"

datatype p5_frame =
    P5_init nat | P5_create nat | P5_join nat | P5_exit
  | C1_lock | C1_low | C1_high | C1_wait | C1_wake | C1_unlock
  | C2_lock | C2_low | C2_high | C2_signal | C2_unlock
  | C_lock | C_read | C_write int | C_print | C_unlock | C_test | C_exit

text \<open>The loop of thread \<open>t\<close> from its start.\<close>

definition p5_loop :: "nat \<Rightarrow> p5_frame" where
  "p5_loop t = (if t = 1 then C1_lock else C2_lock)"

fun p5_deed :: "nat \<Rightarrow> p5_frame \<Rightarrow> int \<times> int list \<Rightarrow> (p5_frame, int \<times> int list) deed" where
  "p5_deed t (P5_init i) d =
     (if i = 0 then Call (Rq_mutex_init 0) (\<lambda>_. P5_init 1)
      else if i = 1 then Call (Rq_mutex_init 1) (\<lambda>_. P5_init 2)
      else Call (Rq_cond_init 0) (\<lambda>_. P5_create 1))"
| "p5_deed t (P5_create i) d = Call (Rq_create i) (\<lambda>_. if i = 1 then P5_create 2 else P5_join 1)"
| "p5_deed t (P5_join j) d = Call (Rq_join j) (\<lambda>_. if j = 1 then P5_join 2 else P5_exit)"
| "p5_deed t P5_exit d = Call Rq_exit (\<lambda>_. P5_exit)"
| "p5_deed t C1_lock d = Call (Rq_lock 1) (\<lambda>_. C1_low)"
| "p5_deed t C1_low d = Local (if fst d \<ge> P5_HALT1 then C1_high else C1_unlock) d"
| "p5_deed t C1_high d = Local (if fst d \<le> P5_HALT2 then C1_wait else C1_unlock) d"
| "p5_deed t C1_wait d = Call (Rq_wait 0 1) (\<lambda>_. C1_wake)"
| "p5_deed t C1_wake d = Call (Rq_wake 0 1) (\<lambda>_. C1_low)"
| "p5_deed t C1_unlock d = Call (Rq_unlock 1) (\<lambda>_. C_lock)"
| "p5_deed t C2_lock d = Call (Rq_lock 1) (\<lambda>_. C2_low)"
| "p5_deed t C2_low d = Local (if fst d < P5_HALT1 then C2_signal else C2_high) d"
| "p5_deed t C2_high d = Local (if fst d > P5_HALT2 then C2_signal else C2_unlock) d"
| "p5_deed t C2_signal d = Call (Rq_signal 0) (\<lambda>_. C2_unlock)"
| "p5_deed t C2_unlock d = Call (Rq_unlock 1) (\<lambda>_. C_lock)"
| "p5_deed t C_lock d = Call (Rq_lock 0) (\<lambda>_. C_read)"
| "p5_deed t C_read d = Local (C_write (fst d)) d"
| "p5_deed t (C_write n) d = Local C_print (n + 1, snd d)"
| "p5_deed t C_print d = Local C_unlock (fst d, snd d @ [fst d])"
| "p5_deed t C_unlock d = Call (Rq_unlock 0) (\<lambda>_. C_test)"
| "p5_deed t C_test d = Local (if fst d \<ge> P5_DONE then C_exit else p5_loop t) d"
| "p5_deed t C_exit d = Call Rq_exit (\<lambda>_. C_exit)"

definition pthread_sample5 :: "(p5_frame, int \<times> int list) pprogram" where
  "pthread_sample5 = \<lparr>first_frame = p5_loop, deed_of = p5_deed\<rparr>"

section \<open>\<open>example_thread.c\<close>\<close>

text \<open>
  The shared data is \<open>threads_left\<close> and the list of the threads that said hello. A thread counts its rounds
  in its frame. \<open>sleep\<close> is left out: any time may pass between two steps.
\<close>

record pingpong =
  threads_left :: int
  hellos :: "nat list"

datatype pp_frame =
    PP_init nat | PP_create nat | PP_detach nat | PP_watch | PP_fail
  | PP_born | PP_add int | PP_lock | PP_loop nat | PP_signal nat | PP_wait nat | PP_wake nat
  | PP_unlock | PP_dying | PP_sub int | PP_last | PP_return

fun pp_deed :: "nat \<Rightarrow> pp_frame \<Rightarrow> pingpong \<Rightarrow> (pp_frame, pingpong) deed" where
  "pp_deed t (PP_init i) d =
     (if i = 0 then Call (Rq_mutex_init 0) (\<lambda>_. PP_init 1) else Call (Rq_cond_init 0) (\<lambda>_. PP_create 1))"
| "pp_deed t (PP_create i) d =
     Call (Rq_create i) (\<lambda>v. if v \<noteq> 0 then PP_fail else if i = 1 then PP_create 2 else PP_detach 1)"
| "pp_deed t (PP_detach i) d = Call (Rq_detach i) (\<lambda>_. if i = 1 then PP_detach 2 else PP_watch)"
| "pp_deed t PP_watch d = (if threads_left d = 0 then Quit 0 else Local PP_watch d)"
| "pp_deed t PP_fail d = Quit (-1)"
| "pp_deed t PP_born d = Local (PP_add (threads_left d)) d"
| "pp_deed t (PP_add n) d = Local PP_lock (d\<lparr>threads_left := n + 1\<rparr>)"
| "pp_deed t PP_lock d = Call (Rq_lock 0) (\<lambda>v. if v \<noteq> 0 then PP_fail else PP_loop 0)"
| "pp_deed t (PP_loop count) d =
     (if count < 5 then Local (PP_signal (Suc count)) (d\<lparr>hellos := hellos d @ [t]\<rparr>) else Local PP_unlock d)"
| "pp_deed t (PP_signal count) d = Call (Rq_signal 0) (\<lambda>_. PP_wait count)"
| "pp_deed t (PP_wait count) d = Call (Rq_wait 0 0) (\<lambda>_. PP_wake count)"
| "pp_deed t (PP_wake count) d = Call (Rq_wake 0 0) (\<lambda>_. PP_loop count)"
| "pp_deed t PP_unlock d = Call (Rq_unlock 0) (\<lambda>v. if v \<noteq> 0 then PP_fail else PP_dying)"
| "pp_deed t PP_dying d = Local (PP_sub (threads_left d)) d"
| "pp_deed t (PP_sub n) d = Local PP_last (d\<lparr>threads_left := n - 1\<rparr>)"
| "pp_deed t PP_last d = Call (Rq_signal 0) (\<lambda>_. PP_return)"
| "pp_deed t PP_return d = Call Rq_exit (\<lambda>_. PP_return)"

definition example_thread :: "(pp_frame, pingpong) pprogram" where
  "example_thread = \<lparr>first_frame = (\<lambda>_. PP_born), deed_of = pp_deed\<rparr>"

end
