(* ===== verification/Posix_Properties.thy ===== *)
theory Posix_Properties
  imports Posix_Programs
begin

text \<open>
  The properties of the programs on the system's threads, for every library that keeps to its documentation
  and every interleaving.
\<close>

section \<open>Shared facts\<close>

lemma posix_call:
  assumes "posix lib own fin" and "lib e t rq v e'"
  shows "v = 0 \<and> (case rq of
           Rq_mutex_init m \<Rightarrow> own e' = (own e)(m := None) \<and> fin e' = fin e
         | Rq_lock m \<Rightarrow> own e m = None \<and> own e' = (own e)(m \<mapsto> t) \<and> fin e' = fin e
         | Rq_unlock m \<Rightarrow> (own e m = Some t \<longrightarrow> own e' = (own e)(m := None) \<and> fin e' = fin e)
         | Rq_wait c m \<Rightarrow> (own e m = Some t \<longrightarrow> own e' = (own e)(m := None) \<and> fin e' = fin e)
         | Rq_wake c m \<Rightarrow> own e m = None \<and> own e' = (own e)(m \<mapsto> t) \<and> fin e' = fin e
         | Rq_join u \<Rightarrow> fin e u \<and> own e' = own e \<and> fin e' = fin e
         | Rq_exit \<Rightarrow> own e' = own e \<and> fin e' = (fin e)(t := True)
         | _ \<Rightarrow> own e' = own e \<and> fin e' = fin e)"
  using assms unfolding posix_def by blast

text \<open>How many of the threads 1 to \<open>k\<close> are where \<open>p\<close> says.\<close>

definition many :: "('f thread \<Rightarrow> bool) \<Rightarrow> nat \<Rightarrow> (nat \<Rightarrow> 'f thread) \<Rightarrow> int" where
  "many p k th = int (card {t \<in> {1..k}. p (th t)})"

lemma many_split:
  assumes "t \<in> {1..k}"
  shows "many p k th = int (card {u \<in> {1..k} - {t}. p (th u)}) + of_bool (p (th t))"
proof (cases "p (th t)")
  case True
  then have "{u \<in> {1..k}. p (th u)} = insert t {u \<in> {1..k} - {t}. p (th u)}" using assms by auto
  then have "card {u \<in> {1..k}. p (th u)} = Suc (card {u \<in> {1..k} - {t}. p (th u)})"
    by (simp add: card_insert_disjoint del: insert_Diff_single)
  with True show ?thesis by (simp add: many_def)
next
  case False
  then have "{u \<in> {1..k}. p (th u)} = {u \<in> {1..k} - {t}. p (th u)}" by auto
  with False show ?thesis by (simp add: many_def)
qed

lemma many_update:
  assumes "t \<in> {1..k}"
  shows "many p k (th(t := y)) = many p k th - of_bool (p (th t)) + of_bool (p y)"
proof -
  have "{u \<in> {1..k} - {t}. p ((th(t := y)) u)} = {u \<in> {1..k} - {t}. p (th u)}" by auto
  then show ?thesis unfolding many_split [OF assms] by simp
qed

lemma many_other: "t = 0 \<or> k < t \<Longrightarrow> many p k (th(t := y)) = many p k th"
  by (auto simp: many_def intro: arg_cong [where f = card])

lemma many_all: "(\<And>t. t \<in> {1..k} \<Longrightarrow> p (th t)) \<Longrightarrow> many p k th = int k"
proof -
  assume "\<And>t. t \<in> {1..k} \<Longrightarrow> p (th t)"
  then have "{t \<in> {1..k}. p (th t)} = {1..k}" by auto
  then show ?thesis by (simp add: many_def)
qed

section \<open>\<open>pthread_sample4.c\<close>\<close>

text \<open>How many threads \<open>main\<close> has made and joined, and where the others are.\<close>

fun made4 :: "p4_frame thread \<Rightarrow> nat" where
  "made4 (Live P4_init) = 0"
| "made4 (Live (P4_create i)) = i"
| "made4 _ = P4_THREADS"

fun joined4 :: "p4_frame thread \<Rightarrow> nat" where
  "joined4 (Live P4_init) = 0"
| "joined4 (Live (P4_create i)) = 0"
| "joined4 (Live (P4_join j)) = j"
| "joined4 _ = P4_THREADS"

definition main4 :: "p4_frame thread \<Rightarrow> bool" where
  "main4 th = (case th of Live f \<Rightarrow> f \<notin> {T4_lock, T4_read, T4_unlock, T4_exit} \<and> (\<forall>n. f \<noteq> T4_write n) | Gone \<Rightarrow> True | Unborn \<Rightarrow> False)"

definition crit4 :: "p4_frame thread \<Rightarrow> bool" where
  "crit4 th \<longleftrightarrow> th = Live T4_read \<or> (\<exists>n. th = Live (T4_write n)) \<or> th = Live T4_unlock"

definition added4 :: "p4_frame thread \<Rightarrow> bool" where
  "added4 th \<longleftrightarrow> th = Live T4_unlock \<or> th = Live T4_exit \<or> th = Gone"

text \<open>
  What holds of a thread other than \<open>main\<close>, with the counter \<open>n\<close>, the owner \<open>w\<close> of the mutex and the threads \<open>F\<close>
  that have ended.
\<close>

definition ok4 :: "int \<Rightarrow> nat option \<Rightarrow> (nat \<Rightarrow> bool) \<Rightarrow> nat \<Rightarrow> nat \<Rightarrow> nat \<Rightarrow> p4_frame thread \<Rightarrow> bool" where
  "ok4 n w F made joined t th \<longleftrightarrow>
     (if t \<le> made then th = Live T4_lock \<or> crit4 th \<or> added4 th else th = Unborn) \<and>
     (F t \<or> t \<le> joined \<longrightarrow> th = Gone) \<and> (crit4 th \<longrightarrow> w = Some t) \<and> (\<forall>k. th = Live (T4_write k) \<longrightarrow> k = n)"

definition inv4 ::
  "('e \<Rightarrow> nat \<Rightarrow> nat option) \<Rightarrow> ('e \<Rightarrow> nat \<Rightarrow> bool) \<Rightarrow> (p4_frame, int \<times> int list, 'e) pconfig \<Rightarrow> bool" where
  "inv4 own fin c \<longleftrightarrow>
     (let th = th_of c; m = th 0; n = fst (data_of c) in
      main4 m \<and> made4 m \<le> P4_THREADS \<and> joined4 m \<le> made4 m \<and> (fin (sys_of c) 0 \<longrightarrow> m = Gone) \<and>
      (\<forall>t>0. ok4 n (own (sys_of c) 0) (fin (sys_of c)) (made4 m) (joined4 m) t (th t)) \<and>
      n = many added4 P4_THREADS th \<and>
      snd (data_of c) = (if m = Live P4_exit \<or> m = Gone then [int P4_THREADS] else []))"

lemmas where4 = crit4_def added4_def

lemma gone4 [simp]: "added4 Gone" "\<not> crit4 Gone"
  by (simp_all add: where4)

text \<open>The frame tells whether it is \<open>main\<close> that takes the step.\<close>

lemma inv4_who:
  assumes "inv4 own fin c" and "th_of c t = Live f"
  obtains (main) "t = 0" "main4 (Live f)"
  | (worker) "0 < t" "t \<le> made4 (th_of c 0)" "f = T4_lock \<or> crit4 (Live f) \<or> added4 (Live f)"
proof (cases "t = 0")
  case False
  with assms have "ok4 (fst (data_of c)) (own (sys_of c) 0) (fin (sys_of c)) (made4 (th_of c 0)) (joined4 (th_of c 0)) t (Live f)"
    unfolding inv4_def Let_def by (metis neq0_conv)
  with False show ?thesis by (intro worker) (auto simp: ok4_def split: if_splits)
qed (use assms main in \<open>auto simp: inv4_def Let_def\<close>)

text \<open>A step of another thread than \<open>main\<close>.\<close>

lemma inv4_worker:
  assumes i: "inv4 own fin c" and t: "0 < t" "t \<le> made4 (th_of c 0)"
    and y: "ok4 (fst d') (own e' 0) (fin e') (made4 (th_of c 0)) (joined4 (th_of c 0)) t y"
    and F: "\<forall>u. u \<noteq> t \<longrightarrow> fin e' u = fin (sys_of c) u"
    and w: "own (sys_of c) 0 = None \<or> own (sys_of c) 0 = Some t \<or> own e' 0 = own (sys_of c) 0 \<and> d' = data_of c"
    and n: "fst d' = fst (data_of c) - of_bool (added4 (th_of c t)) + of_bool (added4 y)" and out: "snd d' = snd (data_of c)"
  shows "inv4 own fin (c\<lparr>th_of := (th_of c)(t := y), data_of := d', sys_of := e'\<rparr>)"
proof -
  have "ok4 (fst d') (own e' 0) (fin e') (made4 (th_of c 0)) (joined4 (th_of c 0)) u (((th_of c)(t := y)) u)" if "0 < u" for u
  proof (cases "u = t")
    case False
    from i that have "ok4 (fst (data_of c)) (own (sys_of c) 0) (fin (sys_of c)) (made4 (th_of c 0)) (joined4 (th_of c 0)) u (th_of c u)"
      unfolding inv4_def Let_def by blast
    with False w F show ?thesis by (auto simp: ok4_def crit4_def)
  qed (use y in simp)
  moreover have "t \<in> {1..P4_THREADS}" using i t by (simp add: inv4_def Let_def)
  ultimately show ?thesis
    using i t(1) F n out many_update [of t P4_THREADS added4 "th_of c" y] by (simp add: inv4_def Let_def)
qed

text \<open>A step of \<open>main\<close>.\<close>

lemma inv4_main_call:
  assumes lib: "posix lib own fin" and i: "inv4 own fin c" and t: "th_of c 0 = Live f" and m: "main4 (Live f)"
    and d: "p4_deed 0 f (data_of c) = Call rq k" and r: "lib (sys_of c) 0 rq v e'"
  shows "inv4 own fin (c\<lparr>th_of := after_call pthread_sample4 0 rq v (k v) (th_of c), sys_of := e'\<rparr>)"
proof -
  note pc = posix_call [OF lib r]
  from i have ok: "ok4 (fst (data_of c)) (own (sys_of c) 0) (fin (sys_of c)) (made4 (Live f)) (joined4 (Live f)) u (th_of c u)"
    if "0 < u" for u using that t unfolding inv4_def Let_def by metis
  from i t have n: "fst (data_of c) = many added4 P4_THREADS (th_of c)"
    "snd (data_of c) = (if f = P4_exit then [int P4_THREADS] else [])" "\<not> fin (sys_of c) 0" by (auto simp: inv4_def Let_def)
  show ?thesis
  proof (cases f)
    case P4_init
    then have un: "th_of c u = Unborn" "\<not> fin (sys_of c) u" if "0 < u" for u using ok [OF that] that by (auto simp: ok4_def)
    with P4_init d pc i t n show ?thesis by (auto simp: inv4_def main4_def ok4_def where4 many_other)
  next
    case (P4_create j)
    with d have j: "j < P4_THREADS" "rq = Rq_create (Suc j)" "k = (\<lambda>_. P4_create (Suc j))" by (simp_all split: if_splits)
    with pc have e: "v = 0" "own e' = own (sys_of c)" "fin e' = fin (sys_of c)" by simp_all
    have un: "th_of c (Suc j) = Unborn" "\<not> fin (sys_of c) (Suc j)" using ok [of "Suc j"] P4_create by (auto simp: ok4_def)
    have "ok4 (fst (data_of c)) (own e' 0) (fin e') (Suc j) 0 u (((th_of c)(0 := Live (P4_create (Suc j)), Suc j := Live T4_lock)) u)"
      if "0 < u" for u
      using ok [OF that] P4_create un e that by (auto simp: ok4_def where4 le_Suc_eq)
    moreover have "many added4 P4_THREADS ((th_of c)(0 := Live (P4_create (Suc j)), Suc j := Live T4_lock)) =
        many added4 P4_THREADS (th_of c)"
      using j(1) un(1) by (simp add: many_update many_other where4)
    ultimately show ?thesis
      using i t n j e P4_create by (simp add: inv4_def main4_def pthread_sample4_def)
  next
    case (P4_join j)
    with d have j: "j < P4_THREADS" "rq = Rq_join (Suc j)" "k = (\<lambda>_. P4_join (Suc j))" by (simp_all split: if_splits)
    with pc have e: "v = 0" "own e' = own (sys_of c)" "fin e' = fin (sys_of c)" "fin (sys_of c) (Suc j)" by simp_all
    have g: "th_of c (Suc j) = Gone" using ok [of "Suc j"] e(4) by (auto simp: ok4_def)
    have "ok4 (fst (data_of c)) (own e' 0) (fin e') P4_THREADS (Suc j) u (((th_of c)(0 := Live (P4_join (Suc j)))) u)"
      if "0 < u" for u
      using ok [OF that] P4_join g e(2,3) that by (auto simp: ok4_def le_Suc_eq)
    then show ?thesis using i t n j e P4_join by (simp add: inv4_def main4_def many_other)
  next
    case P4_exit
    then show ?thesis using d pc i t n ok by (simp add: inv4_def main4_def many_other ok4_def)
  qed (use m d in \<open>simp_all add: main4_def\<close>)
qed

lemma inv4_main_local:
  assumes i: "inv4 own fin c" and t: "th_of c 0 = Live f" and m: "main4 (Live f)"
    and d: "p4_deed 0 f (data_of c) = Local f' d'"
  shows "inv4 own fin (c\<lparr>th_of := (th_of c)(0 := Live f'), data_of := d'\<rparr>)"
proof -
  from i have ok: "ok4 (fst (data_of c)) (own (sys_of c) 0) (fin (sys_of c)) (made4 (Live f)) (joined4 (Live f)) u (th_of c u)"
    if "0 < u" for u using that t unfolding inv4_def Let_def by metis
  from i t have n: "fst (data_of c) = many added4 P4_THREADS (th_of c)"
    "snd (data_of c) = (if f = P4_exit then [int P4_THREADS] else [])" "joined4 (Live f) \<le> made4 (Live f)"
    "made4 (Live f) \<le> P4_THREADS" "\<not> fin (sys_of c) 0" by (auto simp: inv4_def Let_def)
  show ?thesis
  proof (cases f)
    case (P4_create j)
    with d n have f: "f' = P4_join 0" "d' = data_of c" "j = P4_THREADS" by (auto split: if_splits)
    with i t n P4_create ok show ?thesis by (simp add: inv4_def main4_def many_other)
  next
    case (P4_join j)
    with d n have f: "f' = P4_print" "d' = data_of c" "j = P4_THREADS" by (auto split: if_splits)
    with i t n P4_join ok show ?thesis by (simp add: inv4_def main4_def many_other)
  next
    case P4_print
    have "th_of c u = Gone" if "u \<in> {1..P4_THREADS}" for u using ok [of u] that P4_print by (simp add: ok4_def)
    then have "many added4 P4_THREADS (th_of c) = int P4_THREADS" by (intro many_all) (simp add: where4)
    with d i t n P4_print ok show ?thesis by (auto simp: inv4_def main4_def many_other)
  qed (use m d in \<open>simp_all add: main4_def\<close>)
qed

lemma inv4_step:
  assumes lib: "posix lib own fin" and i: "inv4 own fin c" and st: "pstep lib pthread_sample4 c c'"
  shows "inv4 own fin c'"
  using st
proof cases
  case (call t f rq k v e')
  then have d: "p4_deed t f (data_of c) = Call rq k" by (simp add: pthread_sample4_def)
  from i call(3) show ?thesis
  proof (cases rule: inv4_who)
    case main
    with inv4_main_call [OF lib i, of f rq k v e'] call d show "inv4 own fin c'" by simp
  next
    case worker
    note t = worker(1,2) and w = worker(3)
    note pc = posix_call [OF lib call(5)]
    from i t call(3) have ok: "ok4 (fst (data_of c)) (own (sys_of c) 0) (fin (sys_of c)) (made4 (th_of c 0)) (joined4 (th_of c 0)) t (Live f)"
      unfolding inv4_def Let_def by metis
    have "inv4 own fin (c\<lparr>th_of := (th_of c)(t := after_call pthread_sample4 t rq v (k v) (th_of c) t), data_of := data_of c, sys_of := e'\<rparr>)"
    proof (cases f)
      case T4_lock
      show ?thesis by (rule inv4_worker [OF i t]) (use T4_lock pc d ok call(3) t in \<open>auto simp: ok4_def where4\<close>)
    next
      case T4_unlock
      show ?thesis by (rule inv4_worker [OF i t]) (use T4_unlock pc d ok call(3) t in \<open>auto simp: ok4_def where4\<close>)
    next
      case T4_exit
      show ?thesis by (rule inv4_worker [OF i t]) (use T4_exit pc d ok call(3) t in \<open>auto simp: ok4_def where4\<close>)
    qed (use d w in \<open>simp_all add: where4\<close>)
    moreover have "after_call pthread_sample4 t rq v (k v) (th_of c) = (th_of c)(t := after_call pthread_sample4 t rq v (k v) (th_of c) t)"
      using d w by (cases f) (auto simp: where4)
    ultimately show "inv4 own fin c'" using call(1) by simp
  qed
next
  case (local t f f' d')
  then have d: "p4_deed t f (data_of c) = Local f' d'" by (simp add: pthread_sample4_def)
  from i local(3) show ?thesis
  proof (cases rule: inv4_who)
    case main
    with inv4_main_local [OF i, of f f' d'] local d show ?thesis by simp
  next
    case worker
    note t = worker(1,2) and w = worker(3)
    from i t local(3) have ok: "ok4 (fst (data_of c)) (own (sys_of c) 0) (fin (sys_of c)) (made4 (th_of c 0)) (joined4 (th_of c 0)) t (Live f)"
      unfolding inv4_def Let_def by metis
    have "inv4 own fin (c\<lparr>th_of := (th_of c)(t := Live f'), data_of := d', sys_of := sys_of c\<rparr>)"
    proof (cases f)
      case T4_read
      show ?thesis by (rule inv4_worker [OF i t]) (use T4_read d ok local(3) t in \<open>auto simp: ok4_def where4\<close>)
    next
      case (T4_write n)
      show ?thesis by (rule inv4_worker [OF i t]) (use T4_write d ok local(3) t in \<open>auto simp: ok4_def where4\<close>)
    qed (use d w in \<open>simp_all add: where4\<close>)
    then show ?thesis using local(1) by simp
  qed
next
  case (quit t f v)
  then show ?thesis by (cases f) (auto simp: pthread_sample4_def split: if_splits)
qed

text \<open>
  C12: \<open>pthread_sample4.c\<close> on threads that run at the same time: whatever the interleaving of the reads and
  writes of the counter, nothing but 10 is ever printed, and it has been printed when \<open>main\<close> has ended.
\<close>

theorem pthread_sample4_counts:
  assumes lib: "posix lib own fin" and fin: "\<And>t. \<not> fin e0 t"
    and r: "preach lib pthread_sample4 (pstart P4_init (0, []) e0) c"
  shows "snd (data_of c) \<in> {[], [10]} \<and> (th_of c 0 = Gone \<longrightarrow> snd (data_of c) = [10])"
proof -
  have "many added4 P4_THREADS ((\<lambda>_. Unborn)(0 := Live P4_init)) = 0" by (simp add: many_def where4)
  then have "inv4 own fin (pstart P4_init (0, []) e0)"
    using fin by (simp add: inv4_def pstart_def main4_def ok4_def where4)
  from preach_invariant [where I = "inv4 own fin", OF r this inv4_step [OF lib]] show ?thesis
    by (auto simp: inv4_def Let_def P4_THREADS_def)
qed

text \<open>A schedule in which the threads add one after the other and end in the opposite order.\<close>

definition turns4 :: "nat list" where
  "turns4 = replicate 12 0 @ concat (map (replicate 4) [1..<11]) @ rev [1..<11] @ replicate 13 0"

lemma turns4_runs:
  obtains c where "px_run pthread_sample4 turns4 (pstart P4_init (0, []) px_start) = Some c" "th_of c 0 = Gone"
proof -
  have "(case px_run pthread_sample4 turns4 (pstart P4_init (0, []) px_start) of
      None \<Rightarrow> False | Some c \<Rightarrow> (case th_of c 0 of Gone \<Rightarrow> True | _ \<Rightarrow> False))"
    by code_simp
  then show ?thesis using that by (auto split: option.splits thread.splits)
qed

theorem pthread_sample4_counts_witness:
  "\<exists>c. preach px_lib pthread_sample4 (pstart P4_init (0, []) px_start) c \<and> th_of c 0 = Gone \<and> snd (data_of c) = [10]"
proof -
  obtain c where c: "px_run pthread_sample4 turns4 (pstart P4_init (0, []) px_start) = Some c" "th_of c 0 = Gone"
    by (rule turns4_runs)
  have "\<not> px_fin px_start t" for t by (simp add: px_start_def)
  from pthread_sample4_counts [OF px_posix this px_run_reach [OF c(1)]] px_run_reach [OF c(1)] c(2)
  show ?thesis by blast
qed

section \<open>\<open>example_thread.c\<close>\<close>

text \<open>There are no other threads than \<open>main\<close> and the two it makes.\<close>

definition few_threads :: "(nat \<Rightarrow> pp_frame thread) \<Rightarrow> bool" where
  "few_threads th \<longleftrightarrow> (\<forall>t>2. th t = Unborn) \<and> (\<forall>t i. th t = Live (PP_create i) \<longrightarrow> i \<le> 2)"

lemma few_threads_update:
  "few_threads th \<Longrightarrow> t \<le> 2 \<Longrightarrow> (\<And>j. y = Live (PP_create j) \<Longrightarrow> j \<le> 2) \<Longrightarrow> few_threads (th(t := y))"
  by (simp add: few_threads_def)

lemma few_threads_step:
  assumes i: "few_threads (th_of c)" and st: "pstep lib example_thread c c'"
  shows "few_threads (th_of c')"
  using st
proof cases
  case (call t f rq k v e')
  then have d: "pp_deed t f (data_of c) = Call rq k" by (simp add: example_thread_def)
  have "t \<le> 2"
  proof (rule ccontr)
    assume "\<not> t \<le> 2"
    with i call(3) show False by (simp add: few_threads_def)
  qed
  moreover have "j \<le> 2" if "k v = PP_create j" for j using d that by (cases f) (auto split: if_splits)
  moreover have "u \<le> 2" if "rq = Rq_create u" for u
    using d i call(3) that by (cases f) (auto simp: few_threads_def split: if_splits)
  ultimately show ?thesis
    using i call(1) by (cases rq) (auto simp: example_thread_def intro!: few_threads_update split: if_splits)
next
  case (local t f f' d')
  then have d: "pp_deed t f (data_of c) = Local f' d'" by (simp add: example_thread_def)
  have "t \<le> 2"
  proof (rule ccontr)
    assume "\<not> t \<le> 2"
    with i local(3) show False by (simp add: few_threads_def)
  qed
  moreover have "f' \<noteq> PP_create j" for j using d by (cases f) (auto split: if_splits)
  ultimately show ?thesis using i local(1) by (auto intro!: few_threads_update)
next
  case (quit t f v)
  with i show ?thesis by simp
qed

text \<open>The watching \<open>main\<close>, alone with a counter that is not 0.\<close>

definition watching :: "(pp_frame, pingpong, 'e) pconfig \<Rightarrow> bool" where
  "watching c \<longleftrightarrow> few_threads (th_of c) \<and> th_of c 0 = Live PP_watch \<and> th_of c 1 = Gone \<and> th_of c 2 = Gone \<and>
     threads_left (data_of c) \<noteq> 0 \<and> quit_code c = None"

lemma watching_step:
  assumes w: "watching c" and st: "pstep lib example_thread c c'"
  shows "watching c'"
proof -
  have t: "t = 0" if "th_of c t = Live f" for t f
  proof (rule ccontr)
    assume "t \<noteq> 0"
    then consider "t = 1" | "t = 2" | "2 < t" by linarith
    then show False using w that by cases (auto simp: watching_def few_threads_def)
  qed
  from w have w': "th_of c 0 = Live PP_watch" "threads_left (data_of c) \<noteq> 0" by (simp_all add: watching_def)
  from st show ?thesis
  proof cases
    case (call t f rq k v e')
    then show ?thesis using t [OF call(3)] w' by (simp add: example_thread_def)
  next
    case (local t f f' d')
    then have "f' = PP_watch \<and> d' = data_of c \<and> t = 0" using t [OF local(3)] w' by (simp add: example_thread_def)
    with local(1) w w'(1) show ?thesis by (simp add: fun_upd_idem)
  next
    case (quit t f v)
    then show ?thesis using t [OF quit(3)] w' by (simp add: example_thread_def)
  qed
qed

text \<open>Both threads read the counter before either has written it.\<close>

definition turns_pp :: "nat list" where
  "turns_pp = replicate 6 0 @ [1, 2, 1, 2] @ concat (replicate 5 [1, 1, 1, 1, 2, 2, 2, 2]) @ replicate 7 1 @ replicate 7 2"

text \<open>
  C36: \<open>example_thread.c\<close> counts its threads without the mutex. The two increments may read the same value;
  then the counter is -1 when both threads, which have said hello five times each in turn, have ended,
  and \<open>main\<close> waits for 0 for ever. And \<open>main\<close> may find 0 and end the process before any thread is born.
\<close>

theorem example_thread_races:
  "(\<exists>c. preach px_lib example_thread (pstart (PP_init 0) \<lparr>threads_left = 0, hellos = []\<rparr> px_start) c \<and>
    th_of c 1 = Gone \<and> th_of c 2 = Gone \<and> threads_left (data_of c) = -1 \<and>
    hellos (data_of c) = [1, 2, 1, 2, 1, 2, 1, 2, 1, 2] \<and>
    \<not> (\<exists>c'. preach px_lib example_thread c c' \<and> quit_code c' \<noteq> None)) \<and>
   (\<exists>c. preach px_lib example_thread (pstart (PP_init 0) \<lparr>threads_left = 0, hellos = []\<rparr> px_start) c \<and>
    quit_code c = Some 0 \<and> hellos (data_of c) = [])"
proof (rule conjI)
  let ?c0 = "pstart (PP_init 0) \<lparr>threads_left = 0, hellos = []\<rparr> px_start"
  have "(case px_run example_thread turns_pp ?c0 of None \<Rightarrow> False | Some c \<Rightarrow>
      th_of c 0 = Live PP_watch \<and> th_of c 1 = Gone \<and> th_of c 2 = Gone \<and>
      threads_left (data_of c) = -1 \<and> hellos (data_of c) = [1, 2, 1, 2, 1, 2, 1, 2, 1, 2] \<and> quit_code c = None)"
    by code_simp
  then obtain c where c: "px_run example_thread turns_pp ?c0 = Some c" "th_of c 0 = Live PP_watch" "th_of c 1 = Gone"
    "th_of c 2 = Gone" "threads_left (data_of c) = -1" "hellos (data_of c) = [1, 2, 1, 2, 1, 2, 1, 2, 1, 2]" "quit_code c = None"
    by (auto split: option.splits)
  note r = px_run_reach [OF c(1)]
  have "few_threads (th_of ?c0)" by (simp add: few_threads_def pstart_def)
  from preach_invariant [where I = "\<lambda>c. few_threads (th_of c)", OF r this few_threads_step] have "few_threads (th_of c)" .
  with c have w: "watching c" by (simp add: watching_def)
  have "watching c'" if "preach px_lib example_thread c c'" for c'
    by (rule preach_invariant [where I = watching, OF that w]) (rule watching_step)
  then have "\<not> (\<exists>c'. preach px_lib example_thread c c' \<and> quit_code c' \<noteq> None)" by (auto simp: watching_def)
  with r c show "\<exists>c. preach px_lib example_thread ?c0 c \<and> th_of c 1 = Gone \<and> th_of c 2 = Gone \<and>
      threads_left (data_of c) = -1 \<and> hellos (data_of c) = [1, 2, 1, 2, 1, 2, 1, 2, 1, 2] \<and>
      \<not> (\<exists>c'. preach px_lib example_thread c c' \<and> quit_code c' \<noteq> None)" by blast
next
  let ?c0 = "pstart (PP_init 0) \<lparr>threads_left = 0, hellos = []\<rparr> px_start"
  have "(case px_run example_thread (replicate 7 0) ?c0 of None \<Rightarrow> False | Some c \<Rightarrow>
      hellos (data_of c) = [] \<and> quit_code c = Some 0)" by code_simp
  then obtain c where c: "px_run example_thread (replicate 7 0) ?c0 = Some c" "hellos (data_of c) = []" "quit_code c = Some 0"
    by (auto split: option.splits)
  with px_run_reach [OF c(1)] show "\<exists>c. preach px_lib example_thread ?c0 c \<and> quit_code c = Some 0 \<and> hellos (data_of c) = []"
    by blast
qed

end
