(* ===== verification/Posix_Sample5.thy ===== *)
theory Posix_Sample5
  imports Posix_Properties
begin

text \<open>
  \<open>pthreads/pthread_sample5.c\<close> on threads that run at the same time: what is counted and printed, and that
  the two threads never get stuck.
\<close>

section \<open>The invariant\<close>

text \<open>Between lock and unlock of \<open>count_mutex\<close> and of \<open>condition_mutex\<close>; behind the increment of a round.\<close>

fun crit0 :: "p5_frame thread \<Rightarrow> bool" where
  "crit0 (Live C_read) = True" | "crit0 (Live (C_write k)) = True" | "crit0 (Live C_print) = True"
| "crit0 (Live C_unlock) = True" | "crit0 _ = False"

fun crit1 :: "p5_frame thread \<Rightarrow> bool" where
  "crit1 (Live C1_low) = True" | "crit1 (Live C1_high) = True" | "crit1 (Live C1_wait) = True"
| "crit1 (Live C1_unlock) = True" | "crit1 (Live C2_low) = True" | "crit1 (Live C2_high) = True"
| "crit1 (Live C2_signal) = True" | "crit1 (Live C2_unlock) = True" | "crit1 _ = False"

fun retired :: "p5_frame thread \<Rightarrow> bool" where
  "retired (Live C_print) = True" | "retired (Live C_unlock) = True" | "retired (Live C_test) = True"
| "retired (Live C_exit) = True" | "retired Gone = True" | "retired _ = False"

text \<open>The frames of a thread.\<close>

fun frame5 :: "nat \<Rightarrow> p5_frame \<Rightarrow> bool" where
  "frame5 t (P5_init i) = (t = 0)" | "frame5 t (P5_create i) = (t = 0)" | "frame5 t (P5_join j) = (t = 0)"
| "frame5 t P5_exit = (t = 0)" | "frame5 t C1_lock = (t = 1)" | "frame5 t C1_low = (t = 1)"
| "frame5 t C1_high = (t = 1)" | "frame5 t C1_wait = (t = 1)" | "frame5 t C1_wake = (t = 1)"
| "frame5 t C1_unlock = (t = 1)" | "frame5 t C2_lock = (t = 2)" | "frame5 t C2_low = (t = 2)"
| "frame5 t C2_high = (t = 2)" | "frame5 t C2_signal = (t = 2)" | "frame5 t C2_unlock = (t = 2)"
| "frame5 t _ = (t = 1 \<or> t = 2)"

lemma frame5_main: "frame5 0 f \<Longrightarrow> \<not> crit0 (Live f) \<and> \<not> crit1 (Live f) \<and> f \<noteq> C_exit \<and> (\<forall>n. f \<noteq> C_write n)"
  by (cases f) auto

text \<open>How far \<open>main\<close> is: mutexes made, threads made.\<close>

fun inits5 :: "p5_frame thread \<Rightarrow> nat" where
  "inits5 (Live (P5_init i)) = i" | "inits5 _ = 3"

fun made5 :: "p5_frame thread \<Rightarrow> nat" where
  "made5 (Live (P5_init i)) = 0" | "made5 (Live (P5_create i)) = i - 1" | "made5 _ = 2"

fun main5 :: "p5_frame thread \<Rightarrow> bool" where
  "main5 (Live (P5_create i)) = (i = 1 \<or> i = 2)" | "main5 (Live (P5_join j)) = (j = 1 \<or> j = 2)"
| "main5 Unborn = False" | "main5 _ = True"

text \<open>A thread, with the counter, the owners of the two mutexes and the threads that have ended.\<close>

definition ok5 :: "int \<Rightarrow> nat option \<Rightarrow> nat option \<Rightarrow> (nat \<Rightarrow> bool) \<Rightarrow> nat \<Rightarrow> nat \<Rightarrow> p5_frame thread \<Rightarrow> bool" where
  "ok5 n w0 w1 F made t th \<longleftrightarrow>
     (th = Unborn \<longleftrightarrow> made < t) \<and> (\<forall>f. th = Live f \<longrightarrow> frame5 t f) \<and> (F t \<longleftrightarrow> th = Gone) \<and>
     (crit0 th \<longrightarrow> w0 = Some t) \<and> (crit1 th \<longrightarrow> w1 = Some t) \<and> (\<forall>k. th = Live (C_write k) \<longrightarrow> k = n) \<and>
     (th = Live C_exit \<or> (th = Gone \<and> 0 < t) \<longrightarrow> 10 \<le> n)"

text \<open>
  What is counted and printed, while a thread is between its increment and its \<open>printf\<close> (\<open>pr\<close>), and
  threads are behind their increment (\<open>ra\<close>, \<open>rb\<close>).
\<close>

definition num5 :: "int \<Rightarrow> int list \<Rightarrow> bool \<Rightarrow> bool \<Rightarrow> bool \<Rightarrow> bool" where
  "num5 n out pr ra rb \<longleftrightarrow> 0 \<le> n \<and> (pr \<longrightarrow> 1 \<le> n) \<and> out = [1..if pr then n - 1 else n] \<and> n \<le> 11 \<and>
     (10 \<le> n \<longrightarrow> ra \<or> rb) \<and> (11 \<le> n \<longrightarrow> ra \<and> rb)"

definition inv5 ::
  "('e \<Rightarrow> nat \<Rightarrow> nat option) \<Rightarrow> ('e \<Rightarrow> nat \<Rightarrow> bool) \<Rightarrow> (p5_frame, int \<times> int list, 'e) pconfig \<Rightarrow> bool" where
  "inv5 own fin c \<longleftrightarrow>
     (let th = th_of c; n = fst (data_of c); w0 = own (sys_of c) 0; w1 = own (sys_of c) 1 in
      (\<forall>t. ok5 n w0 w1 (fin (sys_of c)) (made5 (th 0)) t (th t)) \<and> main5 (th 0) \<and>
      (1 \<le> inits5 (th 0) \<longrightarrow> (\<forall>u. w0 = Some u \<longrightarrow> crit0 (th u))) \<and>
      (2 \<le> inits5 (th 0) \<longrightarrow> (\<forall>u. w1 = Some u \<longrightarrow> crit1 (th u))) \<and>
      num5 n (snd (data_of c)) (th 1 = Live C_print \<or> th 2 = Live C_print) (retired (th 1)) (retired (th 2)))"

lemma inv5D:
  assumes "inv5 own fin c" and "th_of c t = Live f"
  shows "frame5 t f" and "t \<le> made5 (th_of c 0)"
    and "ok5 (fst (data_of c)) (own (sys_of c) 0) (own (sys_of c) 1) (fin (sys_of c)) (made5 (th_of c 0)) t (Live f)"
proof -
  show o: "ok5 (fst (data_of c)) (own (sys_of c) 0) (own (sys_of c) 1) (fin (sys_of c)) (made5 (th_of c 0)) t (Live f)"
    using assms unfolding inv5_def Let_def by metis
  then show "frame5 t f" "t \<le> made5 (th_of c 0)" by (auto simp: ok5_def not_less)
qed

text \<open>What a step of one of the two threads leaves of the others.\<close>

lemma ok5_other:
  assumes "ok5 n w0 w1 F made u th" and "F' u = F u"
    and "n' \<noteq> n \<or> w0' \<noteq> w0 \<Longrightarrow> w0 = None \<or> w0 = Some t" and "w1' \<noteq> w1 \<Longrightarrow> w1 = None \<or> w1 = Some t"
    and "n \<le> n'" and "u \<noteq> t"
  shows "ok5 n' w0' w1' F' made u th"
proof -
  have "w0' = w0 \<and> n' = n" if "crit0 th" using assms that by (auto simp: ok5_def)
  moreover have "w1' = w1" if "crit1 th" using assms that by (auto simp: ok5_def)
  moreover have "crit0 th" if "th = Live (C_write k)" for k using that by simp
  ultimately show ?thesis using assms by (auto simp: ok5_def)
qed

lemma inv5_worker:
  assumes i: "inv5 own fin c" and t: "t = 1 \<and> u = 2 \<or> t = 2 \<and> u = 1"
    and y: "ok5 (fst d') (own e' 0) (own e' 1) (fin e') (made5 (th_of c 0)) t y"
    and F: "\<And>u. u \<noteq> t \<Longrightarrow> fin e' u = fin (sys_of c) u"
    and w0: "fst d' \<noteq> fst (data_of c) \<or> own e' 0 \<noteq> own (sys_of c) 0 \<Longrightarrow> own (sys_of c) 0 = None \<or> own (sys_of c) 0 = Some t"
    and w1: "own e' 1 \<noteq> own (sys_of c) 1 \<Longrightarrow> own (sys_of c) 1 = None \<or> own (sys_of c) 1 = Some t"
    and n: "fst (data_of c) \<le> fst d'"
    and o0: "\<And>v. own e' 0 = Some v \<Longrightarrow> if v = t then crit0 y else own (sys_of c) 0 = Some v"
    and o1: "\<And>v. own e' 1 = Some v \<Longrightarrow> if v = t then crit1 y else own (sys_of c) 1 = Some v"
    and num: "num5 (fst d') (snd d') (y = Live C_print \<or> th_of c u = Live C_print) (retired y) (retired (th_of c u))"
  shows "inv5 own fin (c\<lparr>th_of := (th_of c)(t := y), data_of := d', sys_of := e'\<rparr>)"
proof -
  let ?m = "th_of c 0" and ?th = "(th_of c)(t := y)"
  from i have ok: "\<And>v. ok5 (fst (data_of c)) (own (sys_of c) 0) (own (sys_of c) 1) (fin (sys_of c)) (made5 ?m) v (th_of c v)"
    and m: "main5 ?m" and c0: "\<And>v. 1 \<le> inits5 ?m \<Longrightarrow> own (sys_of c) 0 = Some v \<Longrightarrow> crit0 (th_of c v)"
    and c1: "\<And>v. 2 \<le> inits5 ?m \<Longrightarrow> own (sys_of c) 1 = Some v \<Longrightarrow> crit1 (th_of c v)"
    by (auto simp: inv5_def Let_def)
  have "ok5 (fst d') (own e' 0) (own e' 1) (fin e') (made5 ?m) v (?th v)" for v
  proof (cases "v = t")
    case False
    have "ok5 (fst d') (own e' 0) (own e' 1) (fin e') (made5 ?m) v (th_of c v)"
      by (rule ok5_other [where t = t, OF ok [of v]]) (use F w0 w1 n False in auto)
    with False show ?thesis by simp
  qed (use y in simp)
  moreover have "crit0 (?th v)" if "1 \<le> inits5 ?m" "own e' 0 = Some v" for v
    using o0 [OF that(2)] c0 [OF that(1)] by (auto split: if_splits)
  moreover have "crit1 (?th v)" if "2 \<le> inits5 ?m" "own e' 1 = Some v" for v
    using o1 [OF that(2)] c1 [OF that(1)] by (auto split: if_splits)
  moreover have "num5 (fst d') (snd d') (?th 1 = Live C_print \<or> ?th 2 = Live C_print) (retired (?th 1)) (retired (?th 2))"
    using num t by (auto simp: num5_def)
  moreover have "?th 0 = ?m" using t by auto
  ultimately show ?thesis using m by (simp add: inv5_def Let_def del: fun_upd_apply)
qed

text \<open>What is known when one of the two threads takes a step.\<close>

lemma inv5_known:
  assumes i: "inv5 own fin c" and f: "th_of c t = Live f" and t: "0 < t"
  obtains u where "t = 1 \<and> u = 2 \<or> t = 2 \<and> u = 1" "inits5 (th_of c 0) = 3" "t \<le> made5 (th_of c 0)" "frame5 t f"
    "\<not> fin (sys_of c) t" "crit0 (Live f) \<longleftrightarrow> own (sys_of c) 0 = Some t" "crit1 (Live f) \<longleftrightarrow> own (sys_of c) 1 = Some t"
    "\<And>k. f = C_write k \<Longrightarrow> k = fst (data_of c)" "f = C_exit \<Longrightarrow> 10 \<le> fst (data_of c)"
    "num5 (fst (data_of c)) (snd (data_of c)) (Live f = Live C_print \<or> th_of c u = Live C_print) (retired (Live f)) (retired (th_of c u))"
    "th_of c u = Live C_print \<Longrightarrow> own (sys_of c) 0 = Some u"
proof -
  note ok = inv5D [OF i f]
  from ok(1) t have "t = 1 \<or> t = 2" by (cases f) auto
  then obtain u :: nat where u: "t = 1 \<and> u = 2 \<or> t = 2 \<and> u = 1" by auto
  have "inits5 (th_of c 0) = 3" using ok(2) t by (cases "th_of c 0" rule: inits5.cases) auto
  note in5 = this
  have c0: "own (sys_of c) 0 = Some t \<Longrightarrow> crit0 (Live f)" and c1: "own (sys_of c) 1 = Some t \<Longrightarrow> crit1 (Live f)"
    using i f in5 unfolding inv5_def Let_def by force+
  have num: "num5 (fst (data_of c)) (snd (data_of c)) (th_of c 1 = Live C_print \<or> th_of c 2 = Live C_print)
      (retired (th_of c 1)) (retired (th_of c 2))" using i by (simp add: inv5_def Let_def)
  have num': "num5 (fst (data_of c)) (snd (data_of c)) (Live f = Live C_print \<or> th_of c u = Live C_print) (retired (Live f)) (retired (th_of c u))"
    using u
  proof
    assume "t = 1 \<and> u = 2"
    with num f show ?thesis by simp
  next
    assume "t = 2 \<and> u = 1"
    with num f show ?thesis by (auto simp: num5_def)
  qed
  have pr: "own (sys_of c) 0 = Some u" if "th_of c u = Live C_print"
    using inv5D(3) [OF i that] by (simp add: ok5_def)
  show ?thesis
    by (rule that [OF u in5 ok(2,1) _ _ _ _ _ num' pr]) (use ok(3) c0 c1 in \<open>auto simp: ok5_def\<close>)
qed

text \<open>The calls and the other steps of the two threads.\<close>

lemma inv5_thread_call:
  assumes lib: "posix lib own fin" and i: "inv5 own fin c" and f: "th_of c t = Live f" and t: "0 < t"
    and d: "p5_deed t f (data_of c) = Call rq k" and r: "lib (sys_of c) t rq v e'"
  shows "inv5 own fin (c\<lparr>th_of := after_call pthread_sample5 t rq v (k v) (th_of c), sys_of := e'\<rparr>)"
proof -
  from inv5_known [OF i f t] obtain u where u: "t = 1 \<and> u = 2 \<or> t = 2 \<and> u = 1"
    and kn: "inits5 (th_of c 0) = 3" "t \<le> made5 (th_of c 0)" "frame5 t f"
    "\<not> fin (sys_of c) t" "crit0 (Live f) \<longleftrightarrow> own (sys_of c) 0 = Some t" "crit1 (Live f) \<longleftrightarrow> own (sys_of c) 1 = Some t"
    "f = C_exit \<Longrightarrow> 10 \<le> fst (data_of c)"
    "num5 (fst (data_of c)) (snd (data_of c)) (Live f = Live C_print \<or> th_of c u = Live C_print) (retired (Live f)) (retired (th_of c u))"
    by blast
  let ?y = "if rq = Rq_exit then Gone else Live (k v)"
  note pc = posix_call [OF lib r]
  have "inv5 own fin (c\<lparr>th_of := (th_of c)(t := ?y), data_of := data_of c, sys_of := e'\<rparr>)"
  proof (cases f)
    case C1_lock
    show ?thesis by (rule inv5_worker [OF i u]) (use C1_lock d pc kn in \<open>auto simp: ok5_def\<close>)
  next
    case C1_wait
    show ?thesis by (rule inv5_worker [OF i u]) (use C1_wait d pc kn in \<open>auto simp: ok5_def\<close>)
  next
    case C1_wake
    show ?thesis by (rule inv5_worker [OF i u]) (use C1_wake d pc kn in \<open>auto simp: ok5_def\<close>)
  next
    case C1_unlock
    show ?thesis by (rule inv5_worker [OF i u]) (use C1_unlock d pc kn in \<open>auto simp: ok5_def\<close>)
  next
    case C2_lock
    show ?thesis by (rule inv5_worker [OF i u]) (use C2_lock d pc kn in \<open>auto simp: ok5_def\<close>)
  next
    case C2_signal
    show ?thesis by (rule inv5_worker [OF i u]) (use C2_signal d pc kn in \<open>auto simp: ok5_def\<close>)
  next
    case C2_unlock
    show ?thesis by (rule inv5_worker [OF i u]) (use C2_unlock d pc kn in \<open>auto simp: ok5_def\<close>)
  next
    case C_lock
    show ?thesis by (rule inv5_worker [OF i u]) (use C_lock d pc kn in \<open>auto simp: ok5_def\<close>)
  next
    case C_unlock
    show ?thesis by (rule inv5_worker [OF i u]) (use C_unlock d pc kn in \<open>auto simp: ok5_def\<close>)
  next
    case C_exit
    show ?thesis by (rule inv5_worker [OF i u]) (use C_exit d pc kn in \<open>auto simp: ok5_def\<close>)
  qed (use d kn(3) t in simp_all)
  moreover have "after_call pthread_sample5 t rq v (k v) (th_of c) = (th_of c)(t := ?y)"
    using d kn(3) t by (cases f) (auto split: if_splits)
  ultimately show ?thesis by simp
qed

lemma inv5_thread_local:
  assumes i: "inv5 own fin c" and f: "th_of c t = Live f" and t: "0 < t"
    and d: "p5_deed t f (data_of c) = Local f' d'"
  shows "inv5 own fin (c\<lparr>th_of := (th_of c)(t := Live f'), data_of := d'\<rparr>)"
proof -
  from inv5_known [OF i f t] obtain u where u: "t = 1 \<and> u = 2 \<or> t = 2 \<and> u = 1"
    and kn: "inits5 (th_of c 0) = 3" "t \<le> made5 (th_of c 0)" "frame5 t f"
    "\<not> fin (sys_of c) t" "crit0 (Live f) \<longleftrightarrow> own (sys_of c) 0 = Some t" "crit1 (Live f) \<longleftrightarrow> own (sys_of c) 1 = Some t"
    "\<And>k. f = C_write k \<Longrightarrow> k = fst (data_of c)"
    "num5 (fst (data_of c)) (snd (data_of c)) (Live f = Live C_print \<or> th_of c u = Live C_print) (retired (Live f)) (retired (th_of c u))"
    "th_of c u = Live C_print \<Longrightarrow> own (sys_of c) 0 = Some u"
    by blast
  have "inv5 own fin (c\<lparr>th_of := (th_of c)(t := Live f'), data_of := d', sys_of := sys_of c\<rparr>)"
  proof (cases f)
    case C1_low
    show ?thesis
      by (rule inv5_worker [OF i u]) (use C1_low d kn in \<open>auto simp: ok5_def num5_def p5_loop_def P5_DONE_def split: if_splits\<close>)
  next
    case C1_high
    show ?thesis
      by (rule inv5_worker [OF i u]) (use C1_high d kn in \<open>auto simp: ok5_def num5_def p5_loop_def P5_DONE_def split: if_splits\<close>)
  next
    case C2_low
    show ?thesis
      by (rule inv5_worker [OF i u]) (use C2_low d kn in \<open>auto simp: ok5_def num5_def p5_loop_def P5_DONE_def split: if_splits\<close>)
  next
    case C2_high
    show ?thesis
      by (rule inv5_worker [OF i u]) (use C2_high d kn in \<open>auto simp: ok5_def num5_def p5_loop_def P5_DONE_def split: if_splits\<close>)
  next
    case C_read
    show ?thesis
      by (rule inv5_worker [OF i u]) (use C_read d kn in \<open>auto simp: ok5_def num5_def p5_loop_def P5_DONE_def split: if_splits\<close>)
  next
    case (C_write n)
    have "n = fst (data_of c)" using kn(7) C_write by simp
    moreover have "th_of c u \<noteq> Live C_print" using kn(9) kn(5) C_write u by auto
    moreover have "\<not> retired (Live f)" using C_write by simp
    ultimately show ?thesis
      by (intro inv5_worker [OF i u]) (use C_write d kn in \<open>auto simp: ok5_def num5_def\<close>)
  next
    case C_print
    have "[1..fst (data_of c)] = [1..fst (data_of c) - 1] @ [fst (data_of c)]"
      using kn(8) C_print by (intro upto_rec2) (simp add: num5_def)
    moreover have "th_of c u \<noteq> Live C_print" using kn(9) kn(5) C_print u by auto
    ultimately show ?thesis
      by (intro inv5_worker [OF i u]) (use C_print d kn in \<open>auto simp: ok5_def num5_def\<close>)
  next
    case C_test
    show ?thesis
      by (rule inv5_worker [OF i u]) (use C_test d kn in \<open>auto simp: ok5_def num5_def p5_loop_def P5_DONE_def split: if_splits\<close>)
  qed (use d kn(3) t in simp_all)
  then show ?thesis by simp
qed

text \<open>The calls of \<open>main\<close>.\<close>

lemma inv5_main_step:
  assumes i: "inv5 own fin c" and m: "main5 (th 0)"
    and ok: "\<And>u. ok5 (fst (data_of c)) (own e' 0) (own e' 1) (fin e') (made5 (th 0)) u (th u)"
    and o0: "\<And>u. 1 \<le> inits5 (th 0) \<Longrightarrow> own e' 0 = Some u \<Longrightarrow> crit0 (th u)"
    and o1: "\<And>u. 2 \<le> inits5 (th 0) \<Longrightarrow> own e' 1 = Some u \<Longrightarrow> crit1 (th u)"
    and same: "\<And>u. u = 1 \<or> u = 2 \<Longrightarrow> th u = th_of c u \<or> th_of c u = Unborn \<and> th u \<noteq> Live C_print \<and> \<not> retired (th u)"
  shows "inv5 own fin (c\<lparr>th_of := th, sys_of := e'\<rparr>)"
proof -
  have "num5 (fst (data_of c)) (snd (data_of c)) (th 1 = Live C_print \<or> th 2 = Live C_print) (retired (th 1)) (retired (th 2))"
    using i same [of 1] same [of 2] by (auto simp: inv5_def Let_def)
  with m ok o0 o1 show ?thesis by (simp add: inv5_def Let_def)
qed

lemma inv5_main:
  assumes lib: "posix lib own fin" and i: "inv5 own fin c" and f: "th_of c 0 = Live f"
    and d: "p5_deed 0 f (data_of c) = Call rq k" and r: "lib (sys_of c) 0 rq v e'"
  shows "inv5 own fin (c\<lparr>th_of := after_call pthread_sample5 0 rq v (k v) (th_of c), sys_of := e'\<rparr>)"
proof -
  note pc = posix_call [OF lib r]
  from i have ok: "\<And>u. ok5 (fst (data_of c)) (own (sys_of c) 0) (own (sys_of c) 1) (fin (sys_of c)) (made5 (Live f)) u (th_of c u)"
    and m: "main5 (Live f)" and fr: "frame5 0 f"
    and c0: "\<And>u. 1 \<le> inits5 (Live f) \<Longrightarrow> own (sys_of c) 0 = Some u \<Longrightarrow> crit0 (th_of c u)"
    and c1: "\<And>u. 2 \<le> inits5 (Live f) \<Longrightarrow> own (sys_of c) 1 = Some u \<Longrightarrow> crit1 (th_of c u)"
    using inv5D [OF i f] f by (auto simp: inv5_def Let_def)
  have nf: "\<not> fin (sys_of c) 0" using ok [of 0] f by (simp add: ok5_def)
  have later: "inv5 own fin (c\<lparr>th_of := (th_of c)(0 := y), sys_of := e'\<rparr>)"
    if "main5 y" "made5 y = made5 (Live f)" "own e' = own (sys_of c)" "inits5 (Live f) = 3"
      "\<And>u. u \<noteq> 0 \<Longrightarrow> fin e' u = fin (sys_of c) u"
      "ok5 (fst (data_of c)) (own e' 0) (own e' 1) (fin e') (made5 y) 0 y" for y
  proof (rule inv5_main_step [OF i])
    show "ok5 (fst (data_of c)) (own e' 0) (own e' 1) (fin e') (made5 (((th_of c)(0 := y)) 0)) u (((th_of c)(0 := y)) u)" for u
      using that ok [of u] by (cases "u = 0") (auto simp: ok5_def)
    have "\<not> crit0 (Live f) \<and> \<not> crit1 (Live f)" using frame5_main [OF fr] by simp
    then show "crit0 (((th_of c)(0 := y)) u)" if "own e' 0 = Some u" for u
      using that c0 [of u] \<open>own e' = own (sys_of c)\<close> \<open>inits5 (Live f) = 3\<close> f by auto
    have "\<not> crit0 (Live f) \<and> \<not> crit1 (Live f)" using frame5_main [OF fr] by simp
    then show "crit1 (((th_of c)(0 := y)) u)" if "own e' 1 = Some u" for u
      using that c1 [of u] \<open>own e' = own (sys_of c)\<close> \<open>inits5 (Live f) = 3\<close> f by auto
  qed (use that in auto)
  show ?thesis
  proof (cases f)
    case (P5_init j)
    have un: "th_of c u = Unborn" "\<not> fin (sys_of c) u" if "u \<noteq> 0" for u using ok [of u] P5_init that by (auto simp: ok5_def)
    have nc: "\<not> crit0 (th_of c u)" "\<not> crit1 (th_of c u)" for u using un [of u] f P5_init by (cases "u = 0"; simp)+
    have e: "fin e' = fin (sys_of c)" "rq \<noteq> Rq_exit" "\<And>u. rq \<noteq> Rq_create u" "made5 (Live (k v)) = 0" "main5 (Live (k v))"
      "inits5 (Live (k v)) = (if j < 2 then Suc j else 3)"
      using d pc P5_init by (auto split: if_splits)
    have a: "after_call pthread_sample5 0 rq v (k v) (th_of c) = (th_of c)(0 := Live (k v))"
      using d P5_init by (auto split: if_splits)
    have fk: "frame5 0 (k v)" using d P5_init by (auto split: if_splits)
    show ?thesis
      unfolding a
    proof (rule inv5_main_step [OF i])
      show "ok5 (fst (data_of c)) (own e' 0) (own e' 1) (fin e') (made5 (((th_of c)(0 := Live (k v))) 0)) u (((th_of c)(0 := Live (k v))) u)" for u
        using un [of u] e nf fk frame5_main [OF fk] by (cases "u = 0") (auto simp: ok5_def)
    qed (use e nc d pc P5_init c0 c1 f in \<open>auto split: if_splits\<close>)
  next
    case (P5_create j)
    then have j: "j = 1 \<or> j = 2" using m by simp
    have e: "rq = Rq_create j" "v = 0" "own e' = own (sys_of c)" "fin e' = fin (sys_of c)" "k v = (if j = 1 then P5_create 2 else P5_join 1)"
      using d pc P5_create by auto
    have un: "th_of c j = Unborn" "\<not> fin (sys_of c) j" using ok [of j] P5_create j by (auto simp: ok5_def)
    let ?th = "(th_of c)(0 := Live (k v), j := Live (p5_loop j))"
    have a: "after_call pthread_sample5 0 rq v (k v) (th_of c) = ?th" using e by (simp add: pthread_sample5_def)
    have m': "?th 0 = Live (k v)" using j by auto
    have md: "made5 (Live (k v)) = j" "made5 (Live f) = j - 1" using e j P5_create by auto
    have fj: "frame5 j (p5_loop j)" "\<not> crit0 (Live (p5_loop j))" "\<not> crit1 (Live (p5_loop j))" "\<not> retired (Live (p5_loop j))"
      "p5_loop j \<noteq> C_exit" "\<And>n. p5_loop j \<noteq> C_write n" "p5_loop j \<noteq> C_print" using j by (auto simp: p5_loop_def)
    show ?thesis
      unfolding a
    proof (rule inv5_main_step [OF i])
      show "ok5 (fst (data_of c)) (own e' 0) (own e' 1) (fin e') (made5 (?th 0)) u (?th u)" for u
        unfolding m' md
      proof (cases "u = 0 \<or> u = j")
        case True
        with un fj e nf j show "ok5 (fst (data_of c)) (own e' 0) (own e' 1) (fin e') j u (?th u)" by (auto simp: ok5_def)
      next
        case False
        then have "j - 1 < u \<longleftrightarrow> j < u" using j by auto
        with False ok [of u] e md(2) show "ok5 (fst (data_of c)) (own e' 0) (own e' 1) (fin e') j u (?th u)" by (simp add: ok5_def)
      qed
    next
      show "crit0 (?th u)" if "own e' 0 = Some u" for u
        using c0 [of u] that e un f P5_create by (cases "u = 0") (auto split: if_splits)
      show "crit1 (?th u)" if "own e' 1 = Some u" for u
        using c1 [of u] that e un f P5_create by (cases "u = 0") (auto split: if_splits)
    qed (use e j un fj m' in auto)
  next
    case (P5_join j)
    with d pc m have e: "rq = Rq_join j" "own e' = own (sys_of c)" "fin e' = fin (sys_of c)" "main5 (Live (k v))"
      "made5 (Live (k v)) = made5 (Live f)" "frame5 0 (k v)" "inits5 (Live f) = 3" by auto
    show ?thesis
      unfolding e(1) after_call.simps by (rule later [OF e(4,5,2)]) (use e nf frame5_main [OF e(6)] in \<open>auto simp: ok5_def\<close>)
  next
    case P5_exit
    with d pc have e: "rq = Rq_exit" "own e' = own (sys_of c)" "fin e' = (fin (sys_of c))(0 := True)" "main5 Gone"
      "made5 Gone = made5 (Live f)" "inits5 (Live f) = 3" by auto
    show ?thesis
      unfolding e(1) after_call.simps by (rule later [OF e(4,5,2)]) (use e in \<open>auto simp: ok5_def\<close>)
  qed (use fr in simp_all)
qed

lemma inv5_step:
  assumes lib: "posix lib own fin" and i: "inv5 own fin c" and st: "pstep lib pthread_sample5 c c'"
  shows "inv5 own fin c'"
  using st
proof cases
  case (call t f rq k v e')
  then have d: "p5_deed t f (data_of c) = Call rq k" by (simp add: pthread_sample5_def)
  show ?thesis
  proof (cases "t = 0")
    case True
    with inv5_main [OF lib i, of f rq k v e'] call d show ?thesis by simp
  next
    case False
    with inv5_thread_call [OF lib i call(3) _ d call(5)] call(1) show ?thesis by simp
  qed
next
  case (local t f f' d')
  then have d: "p5_deed t f (data_of c) = Local f' d'" by (simp add: pthread_sample5_def)
  have "t \<noteq> 0"
  proof
    assume "t = 0"
    with inv5D(1) [OF i local(3)] d show False by (cases f) (auto split: if_splits)
  qed
  with inv5_thread_local [OF i local(3) _ d] local(1) show ?thesis by simp
next
  case (quit t f v)
  then show ?thesis by (cases f) (auto simp: pthread_sample5_def split: if_splits)
qed

lemma inv5_start:
  assumes "\<And>t. \<not> fin e0 t"
  shows "inv5 own fin (pstart (P5_init 0) (0, []) e0)"
  using assms by (auto simp: inv5_def pstart_def ok5_def num5_def)

section \<open>What is counted\<close>

text \<open>
  C11: \<open>pthread_sample5.c\<close> on threads that run at the same time. In every interleaving the numbers are
  printed in order, each once. When both threads have ended, the last is 10, or 11: the thread that did not
  reach \<open>COUNT_DONE\<close> counts once more if it has already begun its next round.
\<close>

theorem pthread_sample5_counts:
  assumes lib: "posix lib own fin" and fin: "\<And>t. \<not> fin e0 t"
    and r: "preach lib pthread_sample5 (pstart (P5_init 0) (0, []) e0) c"
  shows "\<exists>n. snd (data_of c) = [1..n] \<and> n \<le> 11 \<and> (th_of c 1 = Gone \<and> th_of c 2 = Gone \<longrightarrow> 10 \<le> n)"
proof -
  have "inv5 own fin c"
    by (rule preach_invariant [where I = "inv5 own fin", OF r inv5_start [where fin = fin, OF fin]])
      (rule inv5_step [OF lib])
  then have "num5 (fst (data_of c)) (snd (data_of c)) (th_of c 1 = Live C_print \<or> th_of c 2 = Live C_print) (retired (th_of c 1)) (retired (th_of c 2))"
    "ok5 (fst (data_of c)) (own (sys_of c) 0) (own (sys_of c) 1) (fin (sys_of c)) (made5 (th_of c 0)) 1 (th_of c 1)"
    unfolding inv5_def Let_def by blast+
  then show ?thesis
    by (intro exI [of _ "if th_of c 1 = Live C_print \<or> th_of c 2 = Live C_print then fst (data_of c) - 1 else fst (data_of c)"])
      (auto simp: num5_def ok5_def)
qed

text \<open>Thread 2 counts to ten alone; then thread 1 has its only round.\<close>

definition turns5 :: "nat list" where
  "turns5 = replicate 5 0 @ replicate 104 2 @ replicate 11 1"

theorem pthread_sample5_counts_witness:
  "\<exists>c. preach px_lib pthread_sample5 (pstart (P5_init 0) (0, []) px_start) c \<and> th_of c 1 = Gone \<and> th_of c 2 = Gone \<and>
    (snd (data_of c) = [1..10] \<or> snd (data_of c) = [1..11])"
proof -
  have "(case px_run pthread_sample5 turns5 (pstart (P5_init 0) (0, []) px_start) of
      None \<Rightarrow> False | Some c \<Rightarrow> (case (th_of c 1, th_of c 2) of (Gone, Gone) \<Rightarrow> True | _ \<Rightarrow> False))"
    by code_simp
  then obtain c where c: "px_run pthread_sample5 turns5 (pstart (P5_init 0) (0, []) px_start) = Some c"
    "th_of c 1 = Gone" "th_of c 2 = Gone"
    by (auto split: option.splits thread.splits)
  have "\<not> px_fin px_start t" for t by (simp add: px_start_def)
  from pthread_sample5_counts [OF px_posix this px_run_reach [OF c(1)]] c(2,3)
  obtain n where n: "snd (data_of c) = [1..n]" "n \<le> 11" "10 \<le> n" by blast
  then have "n = 10 \<or> n = 11" by arith
  with n(1) px_run_reach [OF c(1)] c(2,3) show ?thesis by blast
qed

section \<open>The threads never get stuck\<close>

text \<open>Thread 2 between its increment and its next signal.\<close>

fun unsignalled :: "p5_frame thread \<Rightarrow> bool" where
  "unsignalled (Live C_print) = True" | "unsignalled (Live C_unlock) = True" | "unsignalled (Live C_test) = True"
| "unsignalled (Live C2_lock) = True" | "unsignalled (Live C2_low) = True" | "unsignalled (Live C2_high) = True"
| "unsignalled (Live C2_signal) = True" | "unsignalled _ = False"

text \<open>
  If thread 1 sleeps, or is about to, the counter has not left the halted range, or has just left it and
  thread 2 is yet to signal.
\<close>

definition sleep5 :: "(nat \<Rightarrow> nat option) \<Rightarrow> int \<Rightarrow> p5_frame thread \<Rightarrow> p5_frame thread \<Rightarrow> bool" where
  "sleep5 z n a b \<longleftrightarrow> (\<forall>u. u \<noteq> 1 \<longrightarrow> z u = None) \<and> z 1 \<in> {None, Some 0} \<and> (z 1 \<noteq> None \<longrightarrow> a = Live C1_wake) \<and>
     (z 1 \<noteq> None \<or> a = Live C1_wait \<longrightarrow> n \<le> 6 \<or> n = 7 \<and> unsignalled b)"

definition live5 ::
  "('e \<Rightarrow> nat \<Rightarrow> nat option) \<Rightarrow> ('e \<Rightarrow> nat \<Rightarrow> bool) \<Rightarrow> ('e \<Rightarrow> nat \<Rightarrow> nat option) \<Rightarrow> (p5_frame, int \<times> int list, 'e) pconfig \<Rightarrow> bool" where
  "live5 own fin slp c \<longleftrightarrow> inv5 own fin c \<and> sleep5 (slp (sys_of c)) (fst (data_of c)) (th_of c 1) (th_of c 2)"

lemma sleep5_main:
  assumes z: "sleep5 z n (th 1) (th 2)" and d: "p5_deed 0 f d = Call rq k" and f: "frame5 0 f"
    and law: "sleep_law z 0 rq z'" and un: "\<And>u. rq = Rq_create u \<Longrightarrow> th u = Unborn \<and> 0 < u"
  shows "sleep5 z' n (after_call pthread_sample5 0 rq v (k v) th 1) (after_call pthread_sample5 0 rq v (k v) th 2)"
proof (cases f)
  case (P5_create j)
  with d law un have "rq = Rq_create j" "z' = z" "th j = Unborn" "0 < j" by (auto simp: sleep_law_def)
  with z show ?thesis by (auto simp: sleep5_def pthread_sample5_def p5_loop_def)
qed (use z d law f in \<open>auto simp: sleep_law_def split: if_splits\<close>)

lemma sleep5_first:
  assumes z: "sleep5 z n (Live f) b" and d: "p5_deed 1 f d = Call rq k" and f: "frame5 1 f"
    and law: "sleep_law z 1 rq z'"
  shows "sleep5 z' n (if rq = Rq_exit then Gone else Live (k v)) b"
  using assms by (cases f) (auto simp: sleep5_def sleep_law_def)

lemma sleep5_second:
  assumes z: "sleep5 z n a (Live f)" and d: "p5_deed 2 f d = Call rq k" and f: "frame5 2 f"
    and law: "sleep_law z 2 rq z'" and cr: "f = C2_signal \<Longrightarrow> a \<noteq> Live C1_wait" and n: "f = C_exit \<Longrightarrow> 10 \<le> n"
  shows "sleep5 z' n a (if rq = Rq_exit then Gone else Live (k v))"
proof (cases f)
  case C2_signal
  with d have rq: "rq = Rq_signal 0" by simp
  have "(\<forall>u. z' u = z u \<or> z' u = None) \<and> ((\<exists>u. z u = Some 0) \<longrightarrow> (\<exists>u. z u = Some 0 \<and> z' u = None))"
    using law unfolding rq sleep_law_def request.case .
  note s = conjunct1 [OF this] conjunct2 [OF this]
  have "z' 1 = None"
  proof (cases "z 1")
    case None
    with s(1) show ?thesis by metis
  next
    case (Some x)
    with z have "z 1 = Some 0" by (auto simp: sleep5_def)
    with s(2) obtain u where "z u = Some 0" "z' u = None" by blast
    with z show ?thesis by (cases "u = 1") (auto simp: sleep5_def)
  qed
  moreover have "z' u = None" if "u \<noteq> 1" for u
  proof -
    have "z u = None" using z that unfolding sleep5_def by blast
    with s(1) show ?thesis by metis
  qed
  ultimately show ?thesis using cr C2_signal rq by (simp add: sleep5_def)
qed (use z d law f n in \<open>auto simp: sleep5_def sleep_law_def\<close>)

lemma sleep5_local:
  assumes z: "sleep5 z (fst d) a b" and d: "p5_deed t f d = Local f' d'" and f: "frame5 t f"
  shows "t = 1 \<Longrightarrow> a = Live f \<Longrightarrow> sleep5 z (fst d') (Live f') b"
    and "t = 2 \<Longrightarrow> b = Live f \<Longrightarrow> (\<And>n. f = C_write n \<Longrightarrow> n = fst d) \<Longrightarrow> sleep5 z (fst d') a (Live f')"
  using assms by (cases f; auto simp: sleep5_def p5_loop_def P5_HALT1_def P5_HALT2_def P5_DONE_def split: if_splits)+

lemma live5_call:
  assumes live: "posix_live lib own fin slp" and i: "live5 own fin slp c" and f: "th_of c t = Live f"
    and d: "p5_deed t f (data_of c) = Call rq k" and r: "lib (sys_of c) t rq v e'"
  shows "sleep5 (slp e') (fst (data_of c)) (after_call pthread_sample5 t rq v (k v) (th_of c) 1)
    (after_call pthread_sample5 t rq v (k v) (th_of c) 2)"
proof -
  from i have inv: "inv5 own fin c" and z: "sleep5 (slp (sys_of c)) (fst (data_of c)) (th_of c 1) (th_of c 2)"
    by (simp_all add: live5_def)
  from live r have law: "sleep_law (slp (sys_of c)) t rq (slp e')" by (auto simp: posix_live_def)
  note ok = inv5D [OF inv f]
  have cr: "f \<noteq> C2_signal" if "th_of c 1 = Live C1_wait" "t = 2"
    using inv5D(3) [OF inv that(1)] ok(3) that(2) by (auto simp: ok5_def)
  have c: "f = P5_create u" if "rq = Rq_create u" for u using d that by (cases f) (auto split: if_splits)
  consider "t = 0" | "t = 1" | "t = 2" using ok(1) by (cases f) auto
  then show ?thesis
  proof cases
    case 1
    have "th_of c u = Unborn \<and> 0 < u" if "rq = Rq_create u" for u
    proof -
      have "th_of c 0 = Live (P5_create u)" using c [OF that] f 1 by simp
      then have "ok5 (fst (data_of c)) (own (sys_of c) 0) (own (sys_of c) 1) (fin (sys_of c)) (u - 1) u (th_of c u)"
        "u = 1 \<or> u = 2" using inv by (auto simp: inv5_def Let_def)
      then show ?thesis by (auto simp: ok5_def)
    qed
    with sleep5_main [where th = "th_of c" and v = v, OF z] d ok(1) law 1 show ?thesis by blast
  next
    case 2
    have "after_call pthread_sample5 t rq v (k v) (th_of c) = (th_of c)(1 := if rq = Rq_exit then Gone else Live (k v))"
      using d c ok(1) 2 by (cases rq) auto
    with sleep5_first [of "slp (sys_of c)" _ f "th_of c 2" "data_of c" rq k "slp e'" v] z f d ok(1) law 2
    show ?thesis by simp
  next
    case 3
    have "after_call pthread_sample5 t rq v (k v) (th_of c) = (th_of c)(2 := if rq = Rq_exit then Gone else Live (k v))"
      using d c ok(1) 3 by (cases rq) auto
    moreover have "sleep5 (slp e') (fst (data_of c)) (th_of c 1) (if rq = Rq_exit then Gone else Live (k v))"
      by (rule sleep5_second [where z = "slp (sys_of c)" and f = f and d = "data_of c"])
        (use z f d ok(1,3) law 3 cr in \<open>auto simp: ok5_def\<close>)
    ultimately show ?thesis by simp
  qed
qed

lemma live5_step:
  assumes live: "posix_live lib own fin slp" and i: "live5 own fin slp c" and st: "pstep lib pthread_sample5 c c'"
  shows "live5 own fin slp c'"
proof -
  have inv: "inv5 own fin c" and z: "sleep5 (slp (sys_of c)) (fst (data_of c)) (th_of c 1) (th_of c 2)"
    using i by (simp_all add: live5_def)
  have "posix lib own fin" using live by (simp add: posix_live_def)
  from inv5_step [OF this inv st] have "inv5 own fin c'" .
  moreover from st have "sleep5 (slp (sys_of c')) (fst (data_of c')) (th_of c' 1) (th_of c' 2)"
  proof cases
    case (call t f rq k v e')
    with live5_call [OF live i call(3), of rq k v e'] show ?thesis by (simp add: pthread_sample5_def)
  next
    case (local t f f' d')
    then have d: "p5_deed t f (data_of c) = Local f' d'" by (simp add: pthread_sample5_def)
    note ok = inv5D [OF inv local(3)]
    have "t = 1 \<or> t = 2" using ok(1) d by (cases f) (auto split: if_splits)
    then show ?thesis
      using sleep5_local [OF z d ok(1)] local(1,3) ok(3) by (auto simp: ok5_def)
  next
    case (quit t f v)
    with z show ?thesis by simp
  qed
  ultimately show ?thesis by (simp add: live5_def)
qed

text \<open>A call that need not wait is a step.\<close>

lemma call_steps:
  assumes "posix_live lib own fin slp" and "quit_code c = None" and "th_of c t = Live f" and "deed_of P t f (data_of c) = Call rq k"
    and "returns_law (own (sys_of c)) (fin (sys_of c)) (slp (sys_of c)) t rq"
  shows "\<exists>c'. pstep lib P c c'"
  using assms unfolding posix_live_def by (metis pstep.call)

lemma sample5_never_quits:
  assumes "pstep lib pthread_sample5 c c'"
  shows "quit_code c' = quit_code c"
  using assms
proof cases
  case (quit t f v)
  then show ?thesis by (cases f) (auto simp: pthread_sample5_def split: if_splits)
qed simp_all

text \<open>A thread that is not about to wait takes a step.\<close>

lemma thread_moves:
  assumes live: "posix_live lib own fin slp" and inv: "inv5 own fin c" and q: "quit_code c = None"
    and f: "th_of c t = Live f" and t: "0 < t"
    and free: "f = C1_lock \<or> f = C2_lock \<Longrightarrow> own (sys_of c) 1 = None" "f = C_lock \<Longrightarrow> own (sys_of c) 0 = None"
      "f = C1_wake \<Longrightarrow> own (sys_of c) 1 = None \<and> slp (sys_of c) t = None"
  shows "\<exists>c'. pstep lib pthread_sample5 c c'"
proof (cases "p5_deed t f (data_of c)")
  case (Call rq k)
  note ok = inv5D [OF inv f]
  have "returns_law (own (sys_of c)) (fin (sys_of c)) (slp (sys_of c)) t rq"
    using Call ok(1,3) t free by (cases f) (auto simp: returns_law_def ok5_def)
  with call_steps [where P = pthread_sample5, OF live q f] Call show ?thesis by (simp add: pthread_sample5_def)
next
  case (Local f' d')
  then show ?thesis using pstep.local [where P = pthread_sample5, OF q f] by (auto simp: pthread_sample5_def)
next
  case (Quit v)
  then show ?thesis by (cases f) (auto split: if_splits)
qed

lemma owner_moves:
  assumes "posix_live lib own fin slp" and inv: "inv5 own fin c" and "quit_code c = None" and "inits5 (th_of c 0) = 3"
    and w: "own (sys_of c) 0 = Some u \<or> own (sys_of c) 1 = Some u"
  shows "\<exists>c'. pstep lib pthread_sample5 c c'"
proof -
  have cr: "crit0 (th_of c u) \<or> crit1 (th_of c u)" using inv w assms(4) by (auto simp: inv5_def Let_def)
  then obtain f where f: "th_of c u = Live f" by (cases "th_of c u") auto
  have "0 < u"
  proof (rule ccontr)
    assume "\<not> 0 < u"
    with inv5D(1) [OF inv f] cr f frame5_main show False by auto
  qed
  from thread_moves [OF assms(1-3) f this] cr f show ?thesis by (cases f) auto
qed

lemma some_thread_moves:
  assumes live: "posix_live lib own fin slp" and i: "live5 own fin slp c" and q: "quit_code c = None"
    and m: "inits5 (th_of c 0) = 3" "made5 (th_of c 0) = 2" and f: "th_of c t = Live f" "0 < t"
  shows "\<exists>c'. pstep lib pthread_sample5 c c'"
proof -
  from i have inv: "inv5 own fin c" and z: "sleep5 (slp (sys_of c)) (fst (data_of c)) (th_of c 1) (th_of c 2)"
    by (simp_all add: live5_def)
  show ?thesis
  proof (cases "own (sys_of c) 0 = None \<and> own (sys_of c) 1 = None")
    case False
    then obtain u where "own (sys_of c) 0 = Some u \<or> own (sys_of c) 1 = Some u" by (metis not_None_eq)
    from owner_moves [OF live inv q m(1) this] show ?thesis .
  next
    case None: True
    show ?thesis
    proof (cases "f = C1_wake \<and> slp (sys_of c) t \<noteq> None")
      case False
      with thread_moves [OF live inv q f] None show ?thesis by blast
    next
      case True
      then have "t = 1" using inv5D(1) [OF inv f(1)] by simp
      with True z have "fst (data_of c) < 10" by (auto simp: sleep5_def)
      moreover have ok: "ok5 (fst (data_of c)) (own (sys_of c) 0) (own (sys_of c) 1) (fin (sys_of c)) 2 2 (th_of c 2)"
        using inv m(2) unfolding inv5_def Let_def by metis
      ultimately obtain g where g: "th_of c 2 = Live g" by (cases "th_of c 2") (auto simp: ok5_def)
      then have "frame5 2 g" using ok by (simp add: ok5_def)
      then have "g \<noteq> C1_wake" by auto
      with thread_moves [OF live inv q g] None show ?thesis by simp
    qed
  qed
qed

text \<open>
  C10: the same program never gets stuck, with a library that lets calls return when they need not wait and
  wakes a sleeper when there is a signal. As long as one of the three threads has not ended, some thread can
  take a step: the last signal is not lost, and no mutex is held by a thread that waits.
\<close>

theorem pthread_sample5_never_stuck:
  assumes live: "posix_live lib own fin slp" and start: "\<And>t. \<not> fin e0 t" "\<And>t. slp e0 t = None"
    and r: "preach lib pthread_sample5 (pstart (P5_init 0) (0, []) e0) c"
  shows "(\<exists>c'. pstep lib pthread_sample5 c c') \<or> (th_of c 0 = Gone \<and> th_of c 1 = Gone \<and> th_of c 2 = Gone)"
proof -
  let ?I = "\<lambda>c. live5 own fin slp c \<and> quit_code c = None"
  have "inv5 own fin (pstart (P5_init 0) (0, []) e0)" by (rule inv5_start [where fin = fin, OF start(1)])
  then have "?I (pstart (P5_init 0) (0, []) e0)" using start(2) by (simp add: live5_def sleep5_def pstart_def)
  moreover have "?I c'" if "?I c" "pstep lib pthread_sample5 c c'" for c c'
    using live5_step [OF live _ that(2)] sample5_never_quits [OF that(2)] that(1) by simp
  ultimately have I: "live5 own fin slp c" "quit_code c = None" using preach_invariant [where I = ?I, OF r] by blast+
  then have inv: "inv5 own fin c" by (simp add: live5_def)
  then have ok: "ok5 (fst (data_of c)) (own (sys_of c) 0) (own (sys_of c) 1) (fin (sys_of c)) (made5 (th_of c 0)) t (th_of c t)" for t
    by (simp add: inv5_def Let_def)
  note moves = some_thread_moves [OF live I]
  show ?thesis
  proof (cases "th_of c 0")
    case Unborn
    with inv show ?thesis by (simp add: inv5_def Let_def)
  next
    case Gone
    with ok have "th_of c t = Gone \<or> (\<exists>f. th_of c t = Live f)" if "t = 1 \<or> t = 2" for t
      using that by (cases "th_of c t") (auto simp: ok5_def)
    then have g: "th_of c 1 = Gone \<or> (\<exists>f. th_of c 1 = Live f)" "th_of c 2 = Gone \<or> (\<exists>f. th_of c 2 = Live f)" by blast+
    have m: "inits5 (th_of c 0) = 3" "made5 (th_of c 0) = 2" using Gone by simp_all
    show ?thesis using moves [OF m, of 1] moves [OF m, of 2] g Gone by auto
  next
    case (Live f)
    show ?thesis
    proof (cases "\<exists>j. f = P5_join j \<and> \<not> fin (sys_of c) j")
      case True
      then obtain j where j: "f = P5_join j" "\<not> fin (sys_of c) j" by blast
      then have "j = 1 \<or> j = 2" using inv Live by (auto simp: inv5_def Let_def)
      moreover obtain g where "th_of c j = Live g" using ok [of j] j Live calculation by (cases "th_of c j") (auto simp: ok5_def)
      ultimately show ?thesis using moves [of j g] Live j by auto
    next
      case False
      have fr: "frame5 0 f" by (rule inv5D(1) [OF inv Live])
      then have "\<exists>rq k. p5_deed 0 f (data_of c) = Call rq k" by (cases f) auto
      then obtain rq k where d: "p5_deed 0 f (data_of c) = Call rq k" by blast
      with fr False have "returns_law (own (sys_of c)) (fin (sys_of c)) (slp (sys_of c)) 0 rq"
        by (cases f) (auto simp: returns_law_def split: if_splits)
      with d call_steps [where P = pthread_sample5, OF live I(2) Live] show ?thesis by (auto simp: pthread_sample5_def)
    qed
  qed
qed

theorem pthread_sample5_never_stuck_witness:
  "\<exists>c c'. preach px_lib pthread_sample5 (pstart (P5_init 0) (0, []) px_start) c \<and>
     th_of c 1 = Live C1_wake \<and> px_slp (sys_of c) 1 = Some 0 \<and> pstep px_lib pthread_sample5 c c'"
proof -
  let ?s = "replicate 5 0 @ replicate 30 2 @ replicate 4 1"
  have "(case px_run pthread_sample5 ?s (pstart (P5_init 0) (0, []) px_start) of
      None \<Rightarrow> False | Some c \<Rightarrow> (case th_of c 1 of Live C1_wake \<Rightarrow> True | _ \<Rightarrow> False) \<and> px_slp (sys_of c) 1 = Some 0)"
    by code_simp
  then obtain c where c: "px_run pthread_sample5 ?s (pstart (P5_init 0) (0, []) px_start) = Some c"
    "th_of c 1 = Live C1_wake" "px_slp (sys_of c) 1 = Some 0"
    by (auto split: option.splits thread.splits p5_frame.splits)
  have "\<not> px_fin px_start t" "px_slp px_start t = None" for t by (simp_all add: px_start_def px_slp_def)
  from pthread_sample5_never_stuck [OF px_posix_live this px_run_reach [OF c(1)]] px_run_reach [OF c(1)] c(2,3)
  show ?thesis by auto
qed

end
