(* ===== verification/Socket_Properties.thy ===== *)
theory Socket_Properties
  imports Server_Properties
begin

text \<open>
  The properties of the small files of \<open>server/SocketLibrary\<close>: the error codes, what a connecting and a
  listening socket end in, and port numbers.
\<close>


section \<open>Connecting\<close>

text \<open>The address a host and a service stand for.\<close>

definition resolve :: "sys_env \<Rightarrow> string \<Rightarrow> string \<Rightarrow> sockaddr_in option" where
  "resolve env h v =
     (case (if isdigit (first_char h) then Some (inet_addr env h)
            else case gethostbyname env h of
                   None \<Rightarrow> None
                 | Some (addrtype, addr) \<Rightarrow> if addrtype = AF_INET then Some addr else None) of
        None \<Rightarrow> None
      | Some addr \<Rightarrow>
          (case (if isdigit (first_char v) then Some (htons (word_of_int (atoi v)))
                 else getservbyname env v ''tcp'') of
             None \<Rightarrow> None
           | Some port \<Rightarrow> Some \<lparr>sin_family = AF_INET, sin_addr = addr, sin_port = port\<rparr>))"

lemma make_inetaddr_resolve:
  "case resolve env h v of
     None \<Rightarrow> \<exists>a' l'. make_inetaddr env (Some h) (Some v) a l = (-1, a', l') \<and> open_fds l' = open_fds l \<and>
               serrno l' \<in> {SE_UNKHOST, SE_UNKAF, SE_UNKSERV}
   | Some adr \<Rightarrow> make_inetaddr env (Some h) (Some v) a l = (0, adr, sclrerr l)"
  by (cases a) (auto simp: resolve_def make_inetaddr_def inet_host_def inet_port_def split: option.splits)



section \<open>Ports\<close>

lemma same_port:
  assumes "atoi v mod 65536 = atoi v' mod 65536"
  shows "(word_of_int (atoi v) :: 16 word) = word_of_int (atoi v')"
  using assms by (simp add: word_of_int_eq_iff take_bit_eq_mod)

text \<open>
  Ports are taken modulo 65536. A listening socket asked for under any two numbers that agree
  modulo 65536 is the same; nothing reports a number out of range.
\<close>

theorem slisten_port_wraps:
  assumes "isdigit (first_char v)" "isdigit (first_char v')" "atoi v mod 65536 = atoi v' mod 65536"
  shows "slisten env a v l = slisten env a v' l"
proof -
  have "make_inetaddr env None (Some v) a l1 = make_inetaddr env None (Some v') a l1" for l1
    using assms(1,2) same_port [OF assms(3)] by (simp add: make_inetaddr_local)
  then show ?thesis by (simp only: slisten_def)
qed

theorem slisten_port_wraps_witness:
  "slisten demo_env undefined ''70000'' \<lparr>serrno = 0, sename = None, open_fds = []\<rparr> =
   slisten demo_env undefined ''4464'' \<lparr>serrno = 0, sename = None, open_fds = []\<rparr>"
  by (rule slisten_port_wraps) code_simp+

text \<open>
  \<open>sportnum\<close> does not undo the conversion. For a socket that \<open>slisten\<close> bound to a port below 65536,
  with \<open>getsockname\<close> answering the address it was bound to, the number it answers is the port with its
  two bytes exchanged, and it is the port only if the bytes are equal; converting it once more gives
  the port.
\<close>

theorem sportnum_swaps_bytes:
  assumes v: "isdigit (first_char v)" "0 \<le> atoi v" "atoi v < 65536"
    and b: "snd (make_inetaddr env None (Some v) a l0) = (adr, l1)"
    and g: "getsockname_call env s = (0, sin_family adr, sin_port adr)"
  shows "fst (sportnum env s l) = atoi v mod 256 * 256 + atoi v div 256 \<and>
    (fst (sportnum env s l) = atoi v \<longleftrightarrow> atoi v mod 256 = atoi v div 256) \<and>
    uint (htons (word_of_int (fst (sportnum env s l)))) = atoi v"
proof -
  have adr: "adr = \<lparr>sin_family = AF_INET, sin_addr = 0, sin_port = htons (word_of_int (atoi v))\<rparr>"
    using b v(1) by (simp add: make_inetaddr_local)
  have u: "uint (word_of_int (atoi v) :: 16 word) = atoi v"
    using v(2,3) by (simp add: uint_word_of_int)
  have f: "fst (sportnum env s l) = uint (htons (word_of_int (atoi v)))"
    using g adr by (simp add: sportnum_def Let_def)
  then have e: "fst (sportnum env s l) = atoi v mod 256 * 256 + atoi v div 256"
    by (simp only: uint_htons u)
  have d: "atoi v = atoi v div 256 * 256 + atoi v mod 256" by simp
  have "(atoi v mod 256 * 256 + atoi v div 256 = atoi v) = (atoi v mod 256 = atoi v div 256)"
    using d by linarith
  moreover have "uint (htons (word_of_int (fst (sportnum env s l)))) = atoi v"
    unfolding f by (simp add: u)
  ultimately show ?thesis using e by simp
qed

theorem sportnum_swaps_bytes_witness:
  "fst (sportnum (demo_env\<lparr>getsockname_call := \<lambda>_. (0, AF_INET, htons (word_of_int (atoi ''80'')))\<rparr>) 3
      \<lparr>serrno = 0, sename = None, open_fds = [3]\<rparr>) = 20480" (is "fst (sportnum ?env 3 ?l) = _")
proof -
  have e: "atoi ''80'' = 80" by code_simp
  have v: "isdigit (first_char ''80'')" "0 \<le> atoi ''80''" "atoi ''80'' < 65536"
    by (simp_all add: e isdigit_def first_char_def)
  let ?adr = "\<lparr>sin_family = AF_INET, sin_addr = 0, sin_port = htons (word_of_int (atoi ''80''))\<rparr>"
  have "snd (make_inetaddr ?env None (Some ''80'') undefined ?l) = (?adr, sclrerr ?l)"
    using v(1) by (simp add: make_inetaddr_local)
  from sportnum_swaps_bytes [OF v this, of 3 ?l] e show ?thesis by simp
qed

end
