(* ===== verification/Smessages.thy ===== *)
theory Smessages
  imports Sockets Linked_Lists
begin

text \<open>
  \<open>server/SocketLibrary/smessages.c\<close>: NUL-terminated messages over stream sockets. The messages read
  but not yet fetched are a linked list on the heap (\<open>msg_st\<close>); what arrives is read in pieces, split
  at the NUL characters, and put on the list by \<open>handle\<close>. The results of \<open>select\<close> and what arrives are
  arguments. A message of the list is the string in its array, without the NUL; a string that with
  its NUL does not fit into \<open>MAXBUFF\<close> bytes is the stop \<open>BufferOverflow\<close>. Loops over the list have one
  more step of fuel than the heap has ever had cells; a list without cycles never uses it up.
\<close>

section \<open>Data\<close>

definition MAXBUFF :: nat where "MAXBUFF = 2056"

record mess_list_el =
  el_s :: int
  el_message :: string
  el_complete :: int
  el_next :: ptr

record msg_st =
  the_list :: ptr
  elems :: "mess_list_el heap"
  msg_lib :: sock_lib

definition fuel_of :: "msg_st \<Rightarrow> nat" where "fuel_of st = Suc (fresh (elems st))"

section \<open>Polling\<close>

definition test_ready :: "int \<Rightarrow> int" where
  "test_ready val = (if val > 0 then 1 else val)"

definition test_writey :: "int \<Rightarrow> int" where
  "test_writey val = (if val > 0 then 1 else val)"

text \<open>\<open>select\<close> gets no timeout for a negative time.\<close>

definition wait_for_message :: "(int option \<Rightarrow> int) \<Rightarrow> int \<Rightarrow> int" where
  "wait_for_message select time =
     (let val = (if time < 0 then select None else select (Some time))
      in if val > 0 then 1 else 0)"

section \<open>The list of messages\<close>

fun last_loop :: "nat \<Rightarrow> mess_list_el heap \<Rightarrow> ptr \<Rightarrow> ptr res" where
  "last_loop 0 H temp = Inl Diverges"
| "last_loop (Suc fuel) H temp =
     bind_res (load H temp) (\<lambda>e.
     if el_next e \<noteq> None then last_loop fuel H (el_next e) else Inr temp)"

text \<open>
  Without memory \<open>add_incomplete\<close> ends the process. Its callers pass the empty string, so that the
  \<open>strcpy\<close> to the new element cannot overflow.
\<close>

definition add_incomplete :: "int \<Rightarrow> string \<Rightarrow> msg_st \<Rightarrow> (ptr \<times> msg_st) res" where
  "add_incomplete s message st =
     (let (new, H) = malloc (elems st)
            \<lparr>el_s = s, el_message = message, el_complete = 0, el_next = None\<rparr>
      in if the_list st = None then
           (if new = None then Inl (ExitProcess (-1))
            else Inr (new, st\<lparr>the_list := new, elems := H\<rparr>))
         else
           bind_res (last_loop (fuel_of st) (elems st) (the_list st)) (\<lambda>temp.
           if new = None then Inl (ExitProcess (-1))
           else bind_res (modify H temp (\<lambda>e. e\<lparr>el_next := new\<rparr>)) (\<lambda>H1.
                Inr (new, st\<lparr>elems := H1\<rparr>))))"

fun incomplete_loop :: "nat \<Rightarrow> mess_list_el heap \<Rightarrow> int \<Rightarrow> ptr \<Rightarrow> ptr res" where
  "incomplete_loop 0 H s temp = Inl Diverges"
| "incomplete_loop (Suc fuel) H s temp =
     (case temp of
        None \<Rightarrow> Inr None
      | Some _ \<Rightarrow>
          bind_res (load H temp) (\<lambda>e.
          if el_s e = s \<and> el_complete e \<noteq> 1 then Inr temp
          else incomplete_loop fuel H s (el_next e)))"

text \<open>\<open>strcat\<close> to the array of an element.\<close>

definition strcat_message :: "ptr \<Rightarrow> string \<Rightarrow> mess_list_el heap \<Rightarrow> mess_list_el heap res" where
  "strcat_message temp message H =
     bind_res (load H temp) (\<lambda>e.
     if length (el_message e) + length message + 1 > MAXBUFF then Inl BufferOverflow
     else modify H temp (\<lambda>e. e\<lparr>el_message := el_message e @ message\<rparr>))"

text \<open>
  \<open>buf\<close> is the array \<open>handle\<close> is called on, \<open>message\<close> and \<open>end_of_transmission\<close> are positions in it.
\<close>

definition c_string :: "char list \<Rightarrow> string" where
  "c_string buf = takeWhile (\<lambda>c. c \<noteq> NUL) buf"

definition handle :: "int \<Rightarrow> char list \<Rightarrow> nat \<Rightarrow> int \<Rightarrow> msg_st \<Rightarrow> msg_st res" where
  "handle s buf message end_of_transmission st =
     (let str = c_string (drop message buf);
          incomplete = (int (message + length str) > end_of_transmission)
      in bind_res (incomplete_loop (fuel_of st) (elems st) s (the_list st)) (\<lambda>temp.
         if temp \<noteq> None then
           bind_res (modify (elems st) temp (\<lambda>e. e\<lparr>el_complete := if incomplete then 0 else 1\<rparr>)) (\<lambda>H1.
           bind_res (strcat_message temp str H1) (\<lambda>H2.
           Inr (st\<lparr>elems := H2\<rparr>)))
         else
           bind_res (add_incomplete s [] st) (\<lambda>(new, st1).
           bind_res (strcat_message new str (elems st1)) (\<lambda>H1.
           bind_res (modify H1 new (\<lambda>e. e\<lparr>el_complete := if incomplete then 0 else 1\<rparr>)) (\<lambda>H2.
           Inr (st1\<lparr>elems := H2\<rparr>))))))"

text \<open>
  \<open>clean_list\<close>: the elements of \<open>s\<close> at the head, then those further on. After an element was removed
  the loop goes on behind its successor.
\<close>

fun clean_head :: "nat \<Rightarrow> int \<Rightarrow> msg_st \<Rightarrow> msg_st res" where
  "clean_head 0 s st = Inl Diverges"
| "clean_head (Suc fuel) s st =
     bind_res (load (elems st) (the_list st)) (\<lambda>e.
     if el_s e = s then
       bind_res (free_cell (elems st) (the_list st)) (\<lambda>H.
       if el_next e = None then Inr (st\<lparr>the_list := None, elems := H\<rparr>)
       else clean_head fuel s (st\<lparr>the_list := el_next e, elems := H\<rparr>))
     else Inr st)"

fun clean_rest :: "nat \<Rightarrow> int \<Rightarrow> ptr \<Rightarrow> mess_list_el heap \<Rightarrow> mess_list_el heap res" where
  "clean_rest 0 s temp H = Inl Diverges"
| "clean_rest (Suc fuel) s temp H =
     bind_res (load H temp) (\<lambda>e.
     if el_next e = None then Inr H
     else
       bind_res (load H (el_next e)) (\<lambda>f.
       if el_s f = s then
         bind_res (modify H temp (\<lambda>e. e\<lparr>el_next := el_next f\<rparr>)) (\<lambda>H1.
         bind_res (free_cell H1 (el_next e)) (\<lambda>H2.
         if el_next f = None then Inr H2 else clean_rest fuel s (el_next f) H2))
       else clean_rest fuel s (el_next e) H))"

definition clean_list :: "int \<Rightarrow> msg_st \<Rightarrow> msg_st res" where
  "clean_list s st =
     (if the_list st = None then Inr st
      else
        bind_res (clean_head (fuel_of st) s st) (\<lambda>st1.
        if the_list st1 = None then Inr st1
        else bind_res (clean_rest (fuel_of st) s (the_list st1) (elems st1)) (\<lambda>H.
             Inr (st1\<lparr>elems := H\<rparr>))))"

section \<open>Reading messages\<close>

text \<open>
  The split of one read. \<open>message\<close> is the array with the \<open>result\<close> bytes that were read and a NUL behind
  them.
\<close>

function split_loop :: "int \<Rightarrow> char list \<Rightarrow> nat \<Rightarrow> nat \<Rightarrow> nat \<Rightarrow> msg_st \<Rightarrow> msg_st res" where
  "split_loop s message result tmp tmpprev st =
     (if tmp \<le> result then
        bind_res
          (if message ! tmp = NUL \<and> tmp \<noteq> tmpprev then
             bind_res (handle s message tmpprev (int result - 1) st) (\<lambda>st1. Inr (tmp + 1, st1))
           else Inr (tmpprev, st)) (\<lambda>(prev1, st1).
        let prev2 = (if tmp = prev1 \<and> message ! tmp = NUL then prev1 + 1 else prev1)
        in split_loop s message result (tmp + 1) prev2 st1)
      else Inr st)"
  by pat_completeness auto
termination by (relation "measure (\<lambda>(_, _, result, tmp, _, _). Suc result - tmp)") auto

declare split_loop.simps [simp del]

text \<open>
  The reading loop, with the results of the successive \<open>select\<close>s; after them \<open>select\<close> answers 0. The
  result says whether the connection was closed. A \<open>read\<close> that fails with anything but \<open>EAGAIN\<close> ends
  the process.
\<close>

fun incoming_loop :: "int \<Rightarrow> int list \<Rightarrow> arrival list \<Rightarrow> msg_st \<Rightarrow> (bool \<times> arrival list \<times> msg_st) res" where
  "incoming_loop s [] es st = Inr (False, es, st)"
| "incoming_loop s (val # vals) es st =
     (if test_ready val \<le> 0 then Inr (False, es, st)
      else
        bind_res (sys_read (MAXBUFF - 1) es) (\<lambda>(result, errno, bs, es1).
        if result = 0 then
          bind_res (clean_list s st) (\<lambda>st1. Inr (True, es1, st1))
        else if result = -1 then
          (if errno \<noteq> EAGAIN then Inl (ExitProcess (-1)) else Inr (False, es1, st))
        else
          bind_res (split_loop s (bs @ [NUL]) (length bs) 0 0 st) (\<lambda>st1.
          incoming_loop s vals es1 st1)))"

fun count_loop :: "nat \<Rightarrow> mess_list_el heap \<Rightarrow> int \<Rightarrow> int \<Rightarrow> ptr \<Rightarrow> int res" where
  "count_loop 0 H s num_messages temp = Inl Diverges"
| "count_loop (Suc fuel) H s num_messages temp =
     (case temp of
        None \<Rightarrow> Inr num_messages
      | Some _ \<Rightarrow>
          bind_res (load H temp) (\<lambda>e.
          if el_s e = s then
            (if el_complete e = 1 then count_loop fuel H s (num_messages + 1) (el_next e)
             else Inr num_messages)
          else count_loop fuel H s num_messages (el_next e)))"

definition incoming_messages ::
  "int \<Rightarrow> int list \<Rightarrow> arrival list \<Rightarrow> msg_st \<Rightarrow> (int \<times> arrival list \<times> msg_st) res" where
  "incoming_messages s vals es st =
     bind_res (incoming_loop s vals es (st\<lparr>msg_lib := sclrerr (msg_lib st)\<rparr>)) (\<lambda>(dead, es1, st1).
     if dead then Inr (-1, es1, st1)
     else bind_res (count_loop (fuel_of st1) (elems st1) s 0 (the_list st1)) (\<lambda>num_messages.
          Inr (num_messages, es1, st1)))"

text \<open>The search of \<open>get_next_message\<close>, behind the head of the list; \<open>prev\<close> is the element before.\<close>

fun fetch_loop ::
  "nat \<Rightarrow> int \<Rightarrow> ptr \<Rightarrow> ptr \<Rightarrow> mess_list_el heap \<Rightarrow> (string option \<times> mess_list_el heap) res" where
  "fetch_loop 0 s prev temp H = Inl Diverges"
| "fetch_loop (Suc fuel) s prev temp H =
     (case temp of
        None \<Rightarrow> Inr (None, H)
      | Some _ \<Rightarrow>
          bind_res (load H temp) (\<lambda>e.
          if el_s e = s \<and> el_complete e = 1 then
            bind_res (modify H prev (\<lambda>p. p\<lparr>el_next := el_next e\<rparr>)) (\<lambda>H1.
            bind_res (free_cell H1 temp) (\<lambda>H2.
            Inr (Some (el_message e), H2)))
          else fetch_loop fuel s temp (el_next e) H))"

text \<open>The result, and what is in the caller's array if it was written.\<close>

definition get_next_message ::
  "int \<Rightarrow> int list \<Rightarrow> arrival list \<Rightarrow> msg_st \<Rightarrow> (int \<times> string option \<times> arrival list \<times> msg_st) res" where
  "get_next_message s vals es st =
     bind_res (incoming_messages s vals es (st\<lparr>msg_lib := sclrerr (msg_lib st)\<rparr>)) (\<lambda>(result, es1, st1).
     if result = 0 then Inr (0, Some [], es1, st1)
     else if result < 0 then Inr (result, None, es1, st1)
     else
       bind_res (load (elems st1) (the_list st1)) (\<lambda>e.
       if el_s e = s \<and> el_complete e = 1 then
         bind_res (free_cell (elems st1) (the_list st1)) (\<lambda>H.
         Inr (1, Some (el_message e), es1, st1\<lparr>the_list := el_next e, elems := H\<rparr>))
       else
         bind_res (fetch_loop (fuel_of st1) s (the_list st1) (the_list st1) (elems st1)) (\<lambda>(found, H).
         Inr (if found = None then 0 else 1, found, es1, st1\<lparr>elems := H\<rparr>))))"

text \<open>
  \<open>empty_incoming_messages\<close>: the pointers \<open>temp\<close> and \<open>prev\<close> of the second loop are those of the first
  loop, which has released their element, or, if the first loop never ran, whatever the stack held
  (\<open>stack_temp\<close>, \<open>stack_prev\<close>). A \<open>return\<close> without a value answers \<open>junk_ret\<close>.
\<close>

fun empty_head :: "nat \<Rightarrow> int \<Rightarrow> ptr \<Rightarrow> ptr \<Rightarrow> msg_st \<Rightarrow> (bool \<times> ptr \<times> ptr \<times> msg_st) res" where
  "empty_head 0 s temp prev st = Inl Diverges"
| "empty_head (Suc fuel) s temp prev st =
     bind_res (load (elems st) (the_list st)) (\<lambda>e.
     if el_s e = s then
       bind_res (free_cell (elems st) (the_list st)) (\<lambda>H.
       if el_next e = None then Inr (True, the_list st, the_list st, st\<lparr>the_list := None, elems := H\<rparr>)
       else empty_head fuel s (the_list st) (the_list st) (st\<lparr>the_list := el_next e, elems := H\<rparr>))
     else Inr (False, temp, prev, st))"

fun empty_loop :: "nat \<Rightarrow> int \<Rightarrow> ptr \<Rightarrow> ptr \<Rightarrow> mess_list_el heap \<Rightarrow> mess_list_el heap res" where
  "empty_loop 0 s prev temp H = Inl Diverges"
| "empty_loop (Suc fuel) s prev temp H =
     (case temp of
        None \<Rightarrow> Inr H
      | Some _ \<Rightarrow>
          bind_res (load H temp) (\<lambda>e.
          if el_s e = s then
            bind_res (modify H prev (\<lambda>p. p\<lparr>el_next := el_next e\<rparr>)) (\<lambda>H1. free_cell H1 temp)
          else empty_loop fuel s temp (el_next e) H))"

definition empty_incoming_messages ::
  "ptr \<Rightarrow> ptr \<Rightarrow> int \<Rightarrow> int \<Rightarrow> int list \<Rightarrow> arrival list \<Rightarrow> msg_st \<Rightarrow> (int \<times> arrival list \<times> msg_st) res" where
  "empty_incoming_messages stack_temp stack_prev junk_ret s vals es st =
     bind_res (incoming_messages s vals es (st\<lparr>msg_lib := sclrerr (msg_lib st)\<rparr>)) (\<lambda>(result, es1, st1).
     if result = 0 then Inr (1, es1, st1)
     else if result < 0 then Inr (result, es1, st1)
     else
       bind_res (empty_head (fuel_of st1) s stack_temp stack_prev st1) (\<lambda>(returned, temp, prev, st2).
       if returned then Inr (junk_ret, es1, st2)
       else bind_res (empty_loop (fuel_of st2) s prev temp (elems st2)) (\<lambda>H.
            Inr (1, es1, st2\<lparr>elems := H\<rparr>))))"

section \<open>Sending a message\<close>

text \<open>
  \<open>val\<close> is the result of \<open>select\<close> and \<open>t\<close> what \<open>write\<close> answers; \<open>sel_errno\<close> is the \<open>errno\<close> of a failed
  \<open>select\<close>. The result, the bytes that went out, and the list.
\<close>

definition send_a_message ::
  "int \<Rightarrow> string \<Rightarrow> int \<Rightarrow> int \<Rightarrow> taking \<Rightarrow> msg_st \<Rightarrow> (int \<times> char list \<times> msg_st) res" where
  "send_a_message s c val sel_errno t st =
     (let st1 = st\<lparr>msg_lib := sclrerr (msg_lib st)\<rparr>; ready = test_writey val
      in if ready = 0 then Inr (0, [], st1)
         else
           let (result, errno, sent) = (if ready > 0 then sys_write (c @ [NUL]) t else (ready, sel_errno, []))
           in if result \<noteq> int (length c) + 1 then
                (if result = -1 \<and> errno = EAGAIN then Inr (0, sent, st1)
                 else if result = 0 then bind_res (clean_list s st1) (\<lambda>st2. Inr (-1, sent, st2))
                 else if result = -1 then Inl (ExitProcess (-1))
                 else Inr (result, sent, st1))
              else Inr (result, sent, st1))"

end
