(* ===== verification/Smessages_Refine.thy ===== *)
theory Smessages_Refine
  imports Smessages Interfaces
begin

text \<open>
  The message list of \<open>smessages.c\<close> as a list of triples: socket, text, complete flag. What the loops
  over the linked list compute on it, and the refinement of \<open>handle\<close> by \<open>a_handle\<close>.
\<close>

type_synonym entry = "int \<times> string \<times> int"

abbreviation mkel :: "ptr \<Rightarrow> entry \<Rightarrow> ptr \<Rightarrow> mess_list_el" where
  "mkel p v n \<equiv> \<lparr>el_s = fst v, el_message = fst (snd v), el_complete = snd (snd v), el_next = n\<rparr>"

definition msg_rep :: "msg_st \<Rightarrow> (nat \<times> entry) list \<Rightarrow> bool" where
  "msg_rep st xs \<longleftrightarrow> chain_rep mkel (elems st) (the_list st) xs \<and> heap_ok (elems st)"

lemma msg_rep_lib [simp]: "msg_rep (st\<lparr>msg_lib := l\<rparr>) xs = msg_rep st xs"
  by (simp add: msg_rep_def)

lemma msg_rep_fuel: "msg_rep st xs \<Longrightarrow> length xs < fuel_of st"
  using chain_rep_length by (auto simp: msg_rep_def fuel_of_def less_Suc_eq_le)

section \<open>The loops\<close>

definition pending_of :: "int \<Rightarrow> entry \<Rightarrow> bool" where
  "pending_of s e \<longleftrightarrow> fst e = s \<and> snd (snd e) \<noteq> 1"

lemma incomplete_loop_eq:
  "\<lbrakk>dll mkel H p xs None; length xs < fuel\<rbrakk> \<Longrightarrow>
   incomplete_loop fuel H s (first_addr xs None) = Inr (map_option fst (find (\<lambda>x. pending_of s (snd x)) xs))"
proof (induction xs arbitrary: fuel p)
  case Nil
  then show ?case by (cases fuel) auto
next
  case (Cons x xs)
  then obtain f where f: "fuel = Suc f" "length xs < f" by (cases fuel) auto
  from Cons.prems have "dll mkel H (Some (fst x)) xs None" by simp
  from Cons.IH [OF this f(2)] Cons.prems f show ?case by (auto simp: pending_of_def)
qed

lemma last_loop_eq:
  "\<lbrakk>dll mkel H p (x # xs) None; length xs < fuel\<rbrakk> \<Longrightarrow>
   last_loop fuel H (Some (fst x)) = Inr (Some (fst (last (x # xs))))"
proof (induction xs arbitrary: fuel p x)
  case Nil
  then show ?case by (cases fuel) auto
next
  case (Cons y xs)
  then obtain f where f: "fuel = Suc f" "length xs < f" by (cases fuel) auto
  from Cons.prems have "dll mkel H (Some (fst x)) (y # xs) None" by simp
  from Cons.IH [OF this f(2)] Cons.prems f show ?case by auto
qed

fun a_count :: "int \<Rightarrow> entry list \<Rightarrow> int" where
  "a_count s [] = 0"
| "a_count s (e # es) =
     (if fst e = s then (if snd (snd e) = 1 then 1 + a_count s es else 0) else a_count s es)"

lemma count_loop_eq:
  "\<lbrakk>dll mkel H p xs None; length xs < fuel\<rbrakk> \<Longrightarrow>
   count_loop fuel H s k (first_addr xs None) = Inr (k + a_count s (map snd xs))"
proof (induction xs arbitrary: fuel p k)
  case Nil
  then show ?case by (cases fuel) auto
next
  case (Cons x xs)
  then obtain f where f: "fuel = Suc f" "length xs < f" by (cases fuel) auto
  from Cons.prems have "dll mkel H (Some (fst x)) xs None" by simp
  from Cons.IH [OF this f(2)] Cons.prems f show ?case by (auto simp: add.assoc)
qed

section \<open>Changing one element, and appending one\<close>

lemma dll_set_payload:
  assumes "dll mk h p (as @ x # bs) n" and "distinct (map fst (as @ x # bs))"
  shows "dll mk (h\<lparr>cells := (cells h)(fst x \<mapsto> mk (last_addr p as) v (first_addr bs n))\<rparr>) p
           (as @ (fst x, v) # bs) n"
proof -
  have "fst x \<notin> fst ` set as" "fst x \<notin> fst ` set bs" using assms(2) by auto
  with assms(1) show ?thesis by simp
qed

lemma msg_rep_set:
  assumes "msg_rep st (as @ x # bs)"
  shows "msg_rep (st\<lparr>elems := (elems st)\<lparr>cells := (cells (elems st))(fst x \<mapsto> mkel None v (first_addr bs None))\<rparr>\<rparr>)
    (as @ (fst x, v) # bs)"
proof -
  from assms have d: "dll mkel (elems st) None (as @ x # bs) None" "distinct (map fst (as @ x # bs))"
    "heap_ok (elems st)" by (auto simp: msg_rep_def chain_rep_def)
  then have "fst x < fresh (elems st)" by (auto dest: heap_ok_less)
  with assms d(3) dll_set_payload [OF d(1,2), of v] show ?thesis
    by (cases as) (auto simp: msg_rep_def chain_rep_def heap_ok_iff)
qed

lemma msg_rep_cell:
  "msg_rep st (as @ x # bs) \<Longrightarrow> cells (elems st) (fst x) = Some (mkel None (snd x) (first_addr bs None))"
  by (simp add: msg_rep_def chain_rep_def)

lemma add_incomplete_rep:
  assumes rep: "msg_rep st xs" and room: "0 < room (elems st)"
  obtains st' where "add_incomplete s [] st = Inr (Some (fresh (elems st)), st')"
    "msg_rep st' (xs @ [(fresh (elems st), (s, [], 0))])" "Suc (room (elems st')) = room (elems st)"
    "msg_lib st' = msg_lib st"
proof -
  let ?f = "fresh (elems st)"
  let ?h = "if xs = [] then Some ?f else the_list st"
  let ?st = "st\<lparr>the_list := ?h, elems := push_heap mkel (elems st) xs (s, [], 0)\<rparr>"
  from rep have c: "chain_rep mkel (elems st) (the_list st) xs" and ok: "heap_ok (elems st)"
    by (simp_all add: msg_rep_def)
  have q: "queue_rep mkel (elems st) (the_list st) (Some (fst (last xs))) xs"
    using c by (simp add: queue_rep_def)
  have "add_incomplete s [] st = Inr (Some ?f, ?st)"
  proof (cases xs rule: rev_cases)
    case Nil
    with c room show ?thesis by (simp add: add_incomplete_def malloc_room push_heap_def)
  next
    case (snoc ys x)
    have "xs \<noteq> []" using snoc by simp
    then obtain z zs where z: "xs = z # zs" by (meson neq_Nil_conv)
    have "length zs < fuel_of st" using msg_rep_fuel [OF rep] z by simp
    with c z have "last_loop (fuel_of st) (elems st) (the_list st) = Inr (Some (fst (last xs)))"
      using last_loop_eq [of "elems st" None z zs "fuel_of st"] by (simp add: chain_rep_def)
    moreover have "fst x \<noteq> ?f" using queue_rep_addr [OF q ok] snoc by auto
    moreover have "cells (elems st) (fst x) = Some (mkel None (snd x) None)"
      using queue_rep_last(3) [OF q [unfolded snoc]] by simp
    ultimately show ?thesis using room snoc c z
      by (cases st) (auto simp: add_incomplete_def malloc_room push_heap_def Let_def chain_rep_def)
  qed
  moreover have "msg_rep ?st (xs @ [(?f, (s, [], 0))])"
    using queue_rep_push [OF q ok, of "(s, [], 0)"] heap_ok_push [OF q ok, of "(s, [], 0)"]
    by (auto simp: msg_rep_def queue_rep_def)
  ultimately show ?thesis using room by (intro that [of ?st]) simp_all
qed

section \<open>\<open>handle\<close>\<close>

definition flag :: "bool \<Rightarrow> int" where "flag incomplete = (if incomplete then 0 else 1)"

text \<open>On the list: the text joins the first incomplete entry of the socket, or makes a new entry.\<close>

definition a_handle :: "int \<Rightarrow> string \<Rightarrow> bool \<Rightarrow> entry list \<Rightarrow> entry list" where
  "a_handle s str incomplete es =
     (case split_first (pending_of s) es of
        None \<Rightarrow> es @ [(s, str, flag incomplete)]
      | Some (as, e, bs) \<Rightarrow> as @ (fst e, fst (snd e) @ str, flag incomplete) # bs)"

text \<open>The text to which \<open>handle\<close> appends.\<close>

definition a_pending :: "int \<Rightarrow> entry list \<Rightarrow> string" where
  "a_pending s es = (case split_first (pending_of s) es of None \<Rightarrow> [] | Some (_, e, _) \<Rightarrow> fst (snd e))"

lemma split_first_map:
  "split_first P (map f xs) =
     map_option (\<lambda>(as, x, bs). (map f as, f x, map f bs)) (split_first (\<lambda>x. P (f x)) xs)"
  by (induction xs) (auto split: option.splits)

lemma find_split_first: "find P xs = map_option (\<lambda>(as, x, bs). x) (split_first P xs)"
  by (induction xs) (auto split: option.splits)

lemma strcat_message_eq:
  assumes "cells H a = Some e"
  shows "strcat_message (Some a) str H =
    (if length (el_message e) + length str + 1 > MAXBUFF then Inl BufferOverflow
     else Inr (H\<lparr>cells := (cells H)(a \<mapsto> e\<lparr>el_message := el_message e @ str\<rparr>)\<rparr>))"
  using assms by (simp add: strcat_message_def)

lemma handle_rep:
  assumes rep: "msg_rep st xs" and room: "0 < room (elems st)"
    and str: "c_string (drop m buf) = str" "inc = (int (m + length str) > e)"
  shows "if length (a_pending s (map snd xs)) + length str < MAXBUFF
    then \<exists>st' xs'. handle s buf m e st = Inr st' \<and> msg_rep st' xs' \<and>
           map snd xs' = a_handle s str inc (map snd xs) \<and> msg_lib st' = msg_lib st \<and>
           room (elems st) \<le> Suc (room (elems st')) \<and>
           room (elems st') + length xs' = room (elems st) + length xs
    else handle s buf m e st = Inl BufferOverflow"
proof (cases "split_first (pending_of s \<circ> snd) xs")
  case None
  have loop: "incomplete_loop (fuel_of st) (elems st) s (the_list st) = Inr None"
    using incomplete_loop_eq [of "elems st" None xs "fuel_of st" s] msg_rep_fuel [OF rep] rep None
    by (simp add: msg_rep_def chain_rep_def find_split_first comp_def)
  obtain st1 where st1: "add_incomplete s [] st = Inr (Some (fresh (elems st)), st1)"
    "msg_rep st1 (xs @ [(fresh (elems st), (s, [], 0))])" "Suc (room (elems st1)) = room (elems st)"
    "msg_lib st1 = msg_lib st" by (rule add_incomplete_rep [OF rep room])
  have c: "cells (elems st1) (fresh (elems st)) = Some (mkel None (s, [], 0) None)"
    using msg_rep_cell [of st1 xs "(fresh (elems st), (s, [], 0))" "[]"] st1(2) by simp
  have ap: "a_pending s (map snd xs) = []" "a_handle s str inc (map snd xs) = map snd xs @ [(s, str, flag inc)]"
    using None by (simp_all add: a_pending_def a_handle_def split_first_map comp_def)
  note r = msg_rep_set [of st1 xs "(fresh (elems st), (s, [], 0))" "[]" "(s, str, flag inc)"]
  show ?thesis
    using loop st1 c ap r str
    by (auto simp: handle_def strcat_message_eq Let_def flag_def intro!: exI conjI)
next
  case (Some y)
  then obtain as x bs where y: "split_first (pending_of s \<circ> snd) xs = Some (as, x, bs)" by (cases y) auto
  then have xs: "xs = as @ x # bs" by (simp add: split_first_Some)
  have loop: "incomplete_loop (fuel_of st) (elems st) s (the_list st) = Inr (Some (fst x))"
    using incomplete_loop_eq [of "elems st" None xs "fuel_of st" s] msg_rep_fuel [OF rep] rep y
    by (simp add: msg_rep_def chain_rep_def find_split_first comp_def)
  note c = msg_rep_cell [OF rep [unfolded xs]]
  have ap: "a_pending s (map snd xs) = fst (snd (snd x))"
    "a_handle s str inc (map snd xs) =
       map snd as @ (fst (snd x), fst (snd (snd x)) @ str, flag inc) # map snd bs"
    using y by (simp_all add: a_pending_def a_handle_def split_first_map comp_def)
  have lx: "length xs = Suc (length as + length bs)" using xs by simp
  note r = msg_rep_set [OF rep [unfolded xs], of "(fst (snd x), fst (snd (snd x)) @ str, flag inc)"]
  show ?thesis
    using loop c ap r str lx
    by (auto simp: handle_def strcat_message_eq Let_def flag_def intro!: exI conjI)
qed

section \<open>What one socket sees\<close>

text \<open>
  The entries of a socket: complete messages, in order, and then perhaps an incomplete one.
\<close>

definition of_socket :: "int \<Rightarrow> entry list \<Rightarrow> entry list" where
  "of_socket s es = filter (\<lambda>e. fst e = s) es"

definition rest_of :: "int \<Rightarrow> entry list \<Rightarrow> entry list" where
  "rest_of s es = filter (\<lambda>e. fst e \<noteq> s) es"

lemma of_other: "s' \<noteq> s \<Longrightarrow> of_socket s' es = of_socket s' (rest_of s es)"
  by (auto simp: of_socket_def rest_of_def intro: filter_cong)

lemma length_split: "length es = length (of_socket s es) + length (rest_of s es)"
  by (simp add: of_socket_def rest_of_def sum_length_filter_compl)

definition view :: "int \<Rightarrow> entry list \<Rightarrow> string list \<times> string option \<Rightarrow> bool" where
  "view s es v \<longleftrightarrow> of_socket s es =
     map (\<lambda>t. (s, t, 1)) (fst v) @ (case snd v of None \<Rightarrow> [] | Some t \<Rightarrow> [(s, t, 0)])"

definition so_far :: "string option \<Rightarrow> string" where
  "so_far p = (case p of None \<Rightarrow> [] | Some t \<Rightarrow> t)"

text \<open>What \<open>handle\<close> does to the view.\<close>

definition v_handle :: "string \<Rightarrow> bool \<Rightarrow> string list \<times> string option \<Rightarrow> string list \<times> string option" where
  "v_handle str incomplete v =
     (if incomplete then (fst v, Some (so_far (snd v) @ str))
      else (fst v @ [so_far (snd v) @ str], None))"

lemma split_pending_view:
  assumes "view s es v"
  shows "case split_first (pending_of s) es of
      None \<Rightarrow> snd v = None
    | Some (as, e, bs) \<Rightarrow> fst e = s \<and> snd v = Some (fst (snd e)) \<and> of_socket s as = map (\<lambda>t. (s, t, 1)) (fst v) \<and>
        of_socket s bs = []"
proof (cases "split_first (pending_of s) es")
  case None
  then have "\<forall>e\<in>set (of_socket s es). snd (snd e) = 1"
    by (auto simp: split_first_None pending_of_def of_socket_def)
  with assms None show ?thesis by (auto simp: view_def split: option.splits)
next
  case (Some y)
  then obtain as e bs where y: "split_first (pending_of s) es = Some (as, e, bs)" by (cases y) auto
  then have es: "es = as @ e # bs" "fst e = s" "snd (snd e) \<noteq> 1" "\<forall>x\<in>set (of_socket s as). snd (snd x) = 1"
    by (auto simp: split_first_Some pending_of_def of_socket_def)
  have eq: "of_socket s as @ e # of_socket s bs =
      map (\<lambda>t. (s, t, 1)) (fst v) @ (case snd v of None \<Rightarrow> [] | Some t \<Rightarrow> [(s, t, 0)])"
    using assms es(1,2) by (simp add: view_def of_socket_def)
  have "e \<notin> set (map (\<lambda>t. (s, t, 1)) (fst v))" using es(3) by auto
  with eq obtain t where t: "snd v = Some t" "e = (s, t, 0)"
    by (metis (no_types, lifting) Un_iff append.right_neutral in_set_conv_decomp list.set_intros(1) option.case_eq_if
        option.collapse set_append set_ConsD empty_iff list.set(1))
  have "of_socket s bs = [] \<and> of_socket s as = map (\<lambda>t. (s, t, 1)) (fst v)"
  proof (cases "of_socket s bs" rule: rev_cases)
    case Nil
    with eq t show ?thesis by simp
  next
    case (snoc cs c)
    with eq t have "of_socket s as @ e # cs = map (\<lambda>t. (s, t, 1)) (fst v)" by simp
    with \<open>e \<notin> _\<close> show ?thesis by (metis in_set_conv_decomp)
  qed
  with y es(2) t show ?thesis by simp
qed

lemma view_handle: "view s es v \<Longrightarrow> view s (a_handle s str inc es) (v_handle str inc v)"
  using split_pending_view [of s es v]
  by (cases v)
    (auto simp: view_def a_handle_def v_handle_def of_socket_def so_far_def flag_def split: option.splits)

lemma view_pending: "view s es v \<Longrightarrow> a_pending s es = so_far (snd v)"
  using split_pending_view [of s es v] by (auto simp: a_pending_def so_far_def split: option.splits)

lemma others_handle: "rest_of s (a_handle s str inc es) = rest_of s es"
  by (auto simp: a_handle_def rest_of_def split_first_Some pending_of_def split: option.splits)

lemma count_view: "view s es v \<Longrightarrow> a_count s es = int (length (fst v))"
proof -
  have c: "a_count s es = a_count s (of_socket s es)" for es
    by (induction s es rule: a_count.induct) (auto simp: of_socket_def)
  have d: "a_count s (map (\<lambda>t. (s, t, 1)) ds @ es) = int (length ds) + a_count s es" for ds es
    by (induction ds) auto
  assume "view s es v"
  then show ?thesis using c [of es] d [of "fst v"] by (auto simp: view_def split: option.splits)
qed

section \<open>Splitting what was read\<close>

text \<open>The reader's view after one more byte: a NUL ends the message begun, and is ignored if none is.\<close>

fun feed :: "string list \<times> string option \<Rightarrow> char \<Rightarrow> string list \<times> string option" where
  "feed (ds, p) c =
     (if c = NUL then (case p of None \<Rightarrow> (ds, None) | Some t \<Rightarrow> (ds @ [t], None))
      else (ds, Some (so_far p @ [c])))"

abbreviation feeds :: "string list \<times> string option \<Rightarrow> char list \<Rightarrow> string list \<times> string option" where
  "feeds \<equiv> foldl feed"

definition fits :: "string list \<times> string option \<Rightarrow> bool" where
  "fits v \<longleftrightarrow> (\<forall>t\<in>set (fst v). length t < MAXBUFF) \<and> length (so_far (snd v)) < MAXBUFF"

lemma so_far_simps [simp]: "so_far None = []" "so_far (Some t) = t"
  by (simp_all add: so_far_def)

lemma fits_feed: "fits (feed v c) \<Longrightarrow> fits v"
  by (cases v) (auto simp: fits_def MAXBUFF_def split: if_splits option.splits)

lemma fits_feeds: "fits (feeds v cs) \<Longrightarrow> fits v"
  by (induction cs arbitrary: v) (simp, metis fits_feed foldl_Cons)

lemma feeds_text:
  "NUL \<notin> set seg \<Longrightarrow> seg \<noteq> [] \<Longrightarrow> feeds v seg = (fst v, Some (so_far (snd v) @ seg))"
proof (induction seg rule: rev_induct)
  case (snoc c seg)
  then show ?case by (cases v; cases "seg = []") auto
qed simp

lemma feeds_skip: "feeds (ds, None) (dropWhile (\<lambda>c. c = NUL) cs) = feeds (ds, None) cs"
  by (induction cs) auto

lemma feeds_message:
  "NUL \<notin> set seg \<Longrightarrow> seg \<noteq> [] \<Longrightarrow> feeds v (seg @ NUL # cs) = feeds (fst v @ [so_far (snd v) @ seg], None) cs"
  by (simp add: feeds_text)

text \<open>
  What one read does to the view: NULs at its start are dropped, whether a message was begun or not.
\<close>

definition read_view :: "string list \<times> string option \<Rightarrow> char list \<Rightarrow> string list \<times> string option" where
  "read_view v bs = feeds v (dropWhile (\<lambda>c. c = NUL) bs)"

lemma c_string_seg: "NUL \<notin> set seg \<Longrightarrow> c_string (seg @ NUL # r) = seg"
  by (simp add: c_string_def takeWhile_tail takeWhile_eq_all_conv [THEN iffD2] takeWhile_append)

text \<open>How often \<open>handle\<close> is called, with a message begun in front of the bytes or not.\<close>

fun handles :: "bool \<Rightarrow> char list \<Rightarrow> nat" where
  "handles begun [] = (if begun then 1 else 0)"
| "handles begun (c # cs) =
     (if c = NUL then (if begun then 1 else 0) + handles False cs else handles True cs)"

lemma handles_le: "handles begun cs \<le> length cs + (if begun then 1 else 0)"
proof (induction begun cs rule: handles.induct)
  case (2 begun c cs)
  then show ?case by (cases begun; cases "c = NUL") auto
qed simp

lemma handles_message: "NUL \<notin> set m \<Longrightarrow> handles True (m @ [NUL]) = 1"
  by (induction m) auto

lemma split_loop_rep:
  assumes "msg_rep st xs" "view s (map snd xs) v" "prev \<le> tmp" "tmp \<le> length bs"
    and "seg = take (tmp - prev) (drop prev bs)" "NUL \<notin> set seg" "rest = drop tmp bs"
    and "v' = feeds v (if seg = [] then dropWhile (\<lambda>c. c = NUL) rest else seg @ rest)"
    and "fits v'" "handles (seg \<noteq> []) rest \<le> room (elems st)"
  shows "\<exists>st' xs'. split_loop s (bs @ [NUL]) (length bs) tmp prev st = Inr st' \<and> msg_rep st' xs' \<and>
    view s (map snd xs') v' \<and> (rest_of s (map snd xs') = rest_of s (map snd xs)) \<and>
    msg_lib st' = msg_lib st \<and> room (elems st) \<le> room (elems st') + handles (seg \<noteq> []) rest \<and>
    room (elems st') + length xs' = room (elems st) + length xs"
  using assms
proof (induction "length bs - tmp" arbitrary: tmp prev st xs v seg rest)
  case 0
  then have tmp: "tmp = length bs" and rest: "rest = []" by simp_all
  have done_loop: "split_loop s (bs @ [NUL]) (length bs) (Suc (length bs)) q st1 = Inr st1" for q st1
    by (subst split_loop.simps) simp
  show ?case
  proof (cases "seg = []")
    case True
    with 0 tmp have p: "prev = tmp" by auto
    then have "split_loop s (bs @ [NUL]) (length bs) tmp prev st = Inr st"
      using tmp by (subst split_loop.simps) (simp add: done_loop)
    with 0 True rest show ?thesis by auto
  next
    case False
    have seg: "drop prev (bs @ [NUL]) = seg @ NUL # []" using 0(4,6) tmp by simp
    have sl: "prev + length seg = tmp" using 0(4,6) tmp by simp
    have v': "v' = (fst v, Some (so_far (snd v) @ seg))" using 0(9) False rest feeds_text [OF 0(7) False] by simp
    have inc: "True = (int (prev + length seg) > int (length bs) - 1)" using sl tmp by simp
    have r: "0 < room (elems st)" using 0(11) False rest by simp
    have fit: "length (a_pending s (map snd xs)) + length seg < MAXBUFF"
      using 0(10) v' view_pending [OF 0(3)] by (simp add: fits_def)
    have cs: "c_string (drop prev (bs @ [NUL])) = seg" using c_string_seg [OF 0(7)] seg by simp
    from handle_rep [OF 0(2) r cs inc, of s] fit obtain st1 xs1 where
      h: "handle s (bs @ [NUL]) prev (int (length bs) - 1) st = Inr st1" "msg_rep st1 xs1"
      "map snd xs1 = a_handle s seg True (map snd xs)" "msg_lib st1 = msg_lib st"
      "room (elems st) \<le> Suc (room (elems st1))"
      "room (elems st1) + length xs1 = room (elems st) + length xs" by auto
    have "split_loop s (bs @ [NUL]) (length bs) tmp prev st = Inr st1"
      using h(1) tmp sl False by (subst split_loop.simps) (auto simp: done_loop)
    moreover have "view s (map snd xs1) v'"
      using view_handle [OF 0(3), of seg True] h(3) v' by (simp add: v_handle_def)
    moreover have "room (elems st) \<le> room (elems st1) + handles (seg \<noteq> []) rest"
      using h(5) False rest by simp
    ultimately show ?thesis using h others_handle by (metis (no_types, lifting))
  qed
next
  case (Suc n)
  then have lt: "tmp < length bs" and n: "n = length bs - Suc tmp" by simp_all
  then obtain c rest' where c: "rest = c # rest'" "rest' = drop (Suc tmp) bs" "bs ! tmp = c"
    using Suc.prems(7) by (metis Cons_nth_drop_Suc)
  have idx: "(bs @ [NUL]) ! tmp = c" using c(3) lt by (simp add: nth_append)
  have step: "split_loop s (bs @ [NUL]) (length bs) tmp prev st = split_loop s (bs @ [NUL]) (length bs) (Suc tmp) q st1"
    if "if c = NUL \<and> tmp \<noteq> prev then handle s (bs @ [NUL]) prev (int (length bs) - 1) st = Inr st1 \<and> q = Suc tmp
        else st1 = st \<and> q = (if tmp = prev \<and> c = NUL then Suc tmp else prev)" for q st1
    using that lt idx by (subst split_loop.simps) (auto split: if_splits)
  show ?case
  proof (cases "c = NUL")
    case False
    let ?seg = "seg @ [c]"
    have s': "?seg = take (Suc tmp - prev) (drop prev bs)"
      using Suc.prems(3,5) lt c(3) by (simp add: Suc_diff_le take_Suc_conv_app_nth)
    have e: "feeds v (if ?seg = [] then dropWhile (\<lambda>c. c = NUL) rest' else ?seg @ rest') =
        feeds v (if seg = [] then dropWhile (\<lambda>c. c = NUL) rest else seg @ rest)"
      using c(1) False by simp
    have st: "split_loop s (bs @ [NUL]) (length bs) tmp prev st = split_loop s (bs @ [NUL]) (length bs) (Suc tmp) prev st"
      using False by (intro step) simp
    show ?thesis
      unfolding st
      using Suc.hyps(1) [OF n Suc.prems(1,2) _ _ s' _ c(2) _ Suc.prems(9)] Suc.prems(3,6,8,10) lt e c(1) False
      by simp
  next
    case nul: True
    show ?thesis
    proof (cases "seg = []")
      case True
      with Suc.prems(3,4,5) lt have p: "prev = tmp" by auto
      have st: "split_loop s (bs @ [NUL]) (length bs) tmp prev st = split_loop s (bs @ [NUL]) (length bs) (Suc tmp) (Suc tmp) st"
        using nul p by (intro step) simp
      have v2: "v' = feeds v (if [] = [] then dropWhile (\<lambda>c. c = NUL) rest' else [] @ rest')"
        using Suc.prems(8) True c(1) nul by simp
      have rr: "handles ([] \<noteq> ([] :: char list)) rest' \<le> room (elems st)" using Suc.prems(10) c(1) True nul by simp
      show ?thesis
        unfolding st
        using Suc.hyps(1) [OF n Suc.prems(1,2) order.refl _ _ _ c(2) v2 Suc.prems(9) rr] lt True c(1)
        by (simp add: nul)
    next
      case False
      have sl: "prev + length seg = tmp" using Suc.prems(3,5) lt by simp
      have np: "tmp \<noteq> prev" using False sl by auto
      have "drop prev bs = seg @ drop tmp bs"
        using Suc.prems(3,5) by (metis append_take_drop_id drop_drop le_add_diff_inverse2)
      then have seg: "drop prev (bs @ [NUL]) = seg @ NUL # rest' @ [NUL]"
        using Suc.prems(3,7) lt c(1) nul by simp
      have cs: "c_string (drop prev (bs @ [NUL])) = seg" using c_string_seg [OF Suc.prems(6)] seg by simp
      have inc: "False = (int (prev + length seg) > int (length bs) - 1)" using sl lt by simp
      let ?v1 = "(fst v @ [so_far (snd v) @ seg], None)"
      have v': "v' = feeds ?v1 rest'"
        using Suc.prems(8) False c(1) nul feeds_message [OF Suc.prems(6) False] by simp
      have "fits ?v1" using Suc.prems(9) unfolding v' by (rule fits_feeds)
      then have fit: "length (a_pending s (map snd xs)) + length seg < MAXBUFF"
        unfolding view_pending [OF Suc.prems(2)] by (simp add: fits_def)
      have r: "0 < room (elems st)" using Suc.prems(10) False c(1) nul by simp
      from handle_rep [OF Suc.prems(1) r cs inc, of s] fit obtain st1 xs1 where
        h: "handle s (bs @ [NUL]) prev (int (length bs) - 1) st = Inr st1" "msg_rep st1 xs1"
        "map snd xs1 = a_handle s seg False (map snd xs)" "msg_lib st1 = msg_lib st"
        "room (elems st) \<le> Suc (room (elems st1))"
      "room (elems st1) + length xs1 = room (elems st) + length xs" by auto
      have st: "split_loop s (bs @ [NUL]) (length bs) tmp prev st = split_loop s (bs @ [NUL]) (length bs) (Suc tmp) (Suc tmp) st1"
        using nul np h(1) by (intro step) simp
      have vw: "view s (map snd xs1) ?v1"
        using view_handle [OF Suc.prems(2), of seg False] h(3) by (simp add: v_handle_def)
      have rr: "handles ([] \<noteq> ([] :: char list)) rest' \<le> room (elems st1)" using Suc.prems(10) h(5) c(1) False nul by simp
      have v2: "v' = feeds ?v1 (if [] = [] then dropWhile (\<lambda>c. c = NUL) rest' else [] @ rest')"
        using v' by (simp add: feeds_skip)
      from Suc.hyps(1) [OF n h(2) vw order.refl _ _ _ c(2) v2 Suc.prems(9) rr] lt obtain st2 xs2 where
        k: "split_loop s (bs @ [NUL]) (length bs) (Suc tmp) (Suc tmp) st1 = Inr st2" "msg_rep st2 xs2"
        "view s (map snd xs2) v'" "rest_of s (map snd xs2) = rest_of s (map snd xs1)"
        "msg_lib st2 = msg_lib st1" "room (elems st1) \<le> room (elems st2) + handles ([] \<noteq> ([] :: char list)) rest'"
        "room (elems st2) + length xs2 = room (elems st1) + length xs1"
        by auto
      have "room (elems st) \<le> room (elems st2) + handles (seg \<noteq> []) rest" using h(5) k(6) c(1) False nul by simp
      with st k h(3,4,6) others_handle [of s seg False "map snd xs"] show ?thesis
        by (intro exI [of _ st2] exI [of _ xs2]) simp
    qed
  qed
qed

section \<open>Reading what has arrived\<close>

lemma fits_read_view: "fits (read_view v bs) \<Longrightarrow> fits v"
  unfolding read_view_def by (rule fits_feeds)

lemma fits_read_views: "fits (foldl read_view v chunks) \<Longrightarrow> fits v"
  by (induction chunks arbitrary: v) (simp, metis fits_read_view foldl_Cons)

lemma one_read_rep:
  assumes "msg_rep st xs" "view s (map snd xs) v" "fits (read_view v bs)" "handles False bs \<le> room (elems st)"
  obtains st' xs' where "split_loop s (bs @ [NUL]) (length bs) 0 0 st = Inr st'" "msg_rep st' xs'"
    "view s (map snd xs') (read_view v bs)"
    "rest_of s (map snd xs') = rest_of s (map snd xs)"
    "msg_lib st' = msg_lib st" "room (elems st) \<le> room (elems st') + handles False bs"
    "room (elems st') + length xs' = room (elems st) + length xs"
  using split_loop_rep [OF assms(1,2), of 0 0 bs "[]" bs "read_view v bs"] assms(3,4)
  by (auto simp: read_view_def)

lemma incoming_loop_rep:
  assumes "msg_rep st xs" "view s (map snd xs) v" "\<forall>c\<in>set chunks. c \<noteq> [] \<and> length c < MAXBUFF"
    and "fits (foldl read_view v chunks)" "sum_list (map (handles False) chunks) \<le> room (elems st)"
  shows "\<exists>st' xs'. incoming_loop s (replicate (length chunks) 1) (map Bytes chunks @ es) st = Inr (False, es, st') \<and>
    msg_rep st' xs' \<and> view s (map snd xs') (foldl read_view v chunks) \<and>
    (rest_of s (map snd xs') = rest_of s (map snd xs)) \<and> msg_lib st' = msg_lib st \<and>
    room (elems st') + length xs' = room (elems st) + length xs"
  using assms
proof (induction chunks arbitrary: st xs v)
  case (Cons c chunks)
  have "fits (read_view v c)" using Cons.prems(4) fits_read_views [of "read_view v c" chunks] by simp
  moreover have "handles False c \<le> room (elems st)" using Cons.prems(5) by simp
  ultimately obtain st1 xs1 where k: "split_loop s (c @ [NUL]) (length c) 0 0 st = Inr st1" "msg_rep st1 xs1"
    "view s (map snd xs1) (read_view v c)"
    "rest_of s (map snd xs1) = rest_of s (map snd xs)"
    "msg_lib st1 = msg_lib st" "room (elems st) \<le> room (elems st1) + handles False c"
    "room (elems st1) + length xs1 = room (elems st) + length xs"
    by (rule one_read_rep [OF Cons.prems(1,2)])
  have r: "sum_list (map (handles False) chunks) \<le> room (elems st1)" using Cons.prems(5) k(6) by simp
  obtain st2 xs2 where m: "incoming_loop s (replicate (length chunks) 1) (map Bytes chunks @ es) st1 = Inr (False, es, st2)"
    "msg_rep st2 xs2" "view s (map snd xs2) (foldl read_view (read_view v c) chunks)"
    "rest_of s (map snd xs2) = rest_of s (map snd xs1)" "msg_lib st2 = msg_lib st1"
    "room (elems st2) + length xs2 = room (elems st1) + length xs1"
    using Cons.IH [OF k(2,3) _ _ r] Cons.prems(3,4) by auto
  have c: "c \<noteq> []" "length c \<le> MAXBUFF - 1" "min (length c) (MAXBUFF - 1) = length c"
    using Cons.prems(3) by auto
  then have "incoming_loop s (replicate (length (c # chunks)) 1) (map Bytes (c # chunks) @ es) st = Inr (False, es, st2)"
    using k(1) m(1) by (simp add: test_ready_def)
  with m k show ?case by auto
qed auto

lemma incoming_messages_rep:
  assumes "msg_rep st xs" "view s (map snd xs) v" "\<forall>c\<in>set chunks. c \<noteq> [] \<and> length c < MAXBUFF"
    and "fits (foldl read_view v chunks)" "sum_list (map (handles False) chunks) \<le> room (elems st)"
  obtains st' xs' where
    "incoming_messages s (replicate (length chunks) 1) (map Bytes chunks @ es) st =
       Inr (int (length (fst (foldl read_view v chunks))), es, st')"
    "msg_rep st' xs'" "view s (map snd xs') (foldl read_view v chunks)"
    "rest_of s (map snd xs') = rest_of s (map snd xs)" "msg_lib st' = sclrerr (msg_lib st)"
    "room (elems st') + length xs' = room (elems st) + length xs"
proof -
  let ?st = "st\<lparr>msg_lib := sclrerr (msg_lib st)\<rparr>"
  obtain st' xs' where k: "incoming_loop s (replicate (length chunks) 1) (map Bytes chunks @ es) ?st = Inr (False, es, st')"
    "msg_rep st' xs'" "view s (map snd xs') (foldl read_view v chunks)"
    "rest_of s (map snd xs') = rest_of s (map snd xs)" "msg_lib st' = sclrerr (msg_lib st)"
    "room (elems st') + length xs' = room (elems st) + length xs"
    using incoming_loop_rep [of ?st xs s v chunks es] assms by auto
  have "count_loop (fuel_of st') (elems st') s 0 (the_list st') = Inr (int (length (fst (foldl read_view v chunks))))"
    using count_loop_eq [of "elems st'" None xs' "fuel_of st'" s 0] msg_rep_fuel [OF k(2)] k(2) count_view [OF k(3)]
    by (simp add: msg_rep_def chain_rep_def)
  with k show ?thesis by (intro that [of st' xs']) (simp_all add: incoming_messages_def)
qed

section \<open>Fetching a message\<close>

lemma filter_eq_ConsE:
  assumes "filter P xs = y # ys"
  obtains us vs where "xs = us @ y # vs" "\<forall>u\<in>set us. \<not> P u" "P y" "ys = filter P vs"
  using filter_eq_ConsD [OF assms] by blast

lemma fetch_loop_eq:
  assumes "dll mkel H q (z # as @ x # bs) None" "distinct (map fst (z # as @ x # bs))"
    and "\<forall>y\<in>set as. fst (snd y) \<noteq> s" "fst (snd x) = s" "snd (snd (snd x)) = 1" "length as + 1 < fuel"
  shows "fetch_loop fuel s (Some (fst z)) (first_addr (as @ x # bs) None) H =
    Inr (Some (fst (snd (snd x))),
         H\<lparr>cells := (cells H)(fst (last (z # as)) \<mapsto> mkel None (snd (last (z # as))) (first_addr bs None),
                             fst x := None), room := Suc (room H)\<rparr>)"
  using assms
proof (induction as arbitrary: z q fuel)
  case Nil
  then obtain f where "fuel = Suc f" by (cases fuel) auto
  with Nil show ?case by (auto simp: fun_upd_def)
next
  case (Cons y as)
  then obtain f where f: "fuel = Suc f" "length as + 1 < f" by (cases fuel) auto
  have "dll mkel H (Some (fst z)) (y # as @ x # bs) None" "distinct (map fst (y # as @ x # bs))"
    using Cons.prems(1,2) by auto
  from Cons.IH [OF this _ Cons.prems(4,5) f(2)] Cons.prems(1,3) f(1) show ?case by simp
qed

lemma unlink_rep:
  assumes rep: "msg_rep st (as @ x # bs)" and l: "the_list st' = first_addr (as @ bs) None"
    and h: "elems st' = H\<lparr>room := r\<rparr>" "fresh H = fresh (elems st)"
      "cells H = (if as = [] then cells (elems st)
        else (cells (elems st))(fst (last as) \<mapsto> mkel None (snd (last as)) (first_addr bs None)))(fst x := None)"
  shows "msg_rep st' (as @ bs)"
proof -
  from rep have d: "dll mkel (elems st) None (as @ x # bs) None" and dist: "distinct (map fst (as @ x # bs))"
    and ok: "heap_ok (elems st)" by (auto simp: msg_rep_def chain_rep_def)
  have out: "cells (elems st') a = cells (elems st) a" if "a \<noteq> fst x" "as = [] \<or> a \<noteq> fst (last as)" for a
    using that h by (auto split: if_splits)
  have nd: "fst x \<notin> fst ` set as" "fst x \<notin> fst ` set bs" "fst ` set as \<inter> fst ` set bs = {}"
    "distinct (map fst as)" "distinct (map fst bs)" using dist by auto
  have lb: "fst (last as) \<notin> fst ` set bs \<and> fst (last as) \<noteq> fst x \<and> fst (last as) \<notin> fst ` set (butlast as)" if "as \<noteq> []"
    using that nd by (cases as rule: rev_cases) auto
  have "dll mkel (elems st') None (as @ bs) None"
  proof (rule dll_unlink [OF d dist])
    show "cells (elems st') a = cells (elems st) a" if "a \<notin> fst ` set (as @ x # bs)" for a
      using that by (intro out) (auto intro: rev_image_eqI dest: last_in_set)
    show "cells (elems st') (fst x) = None" using h by simp
    show "cells (elems st') (fst (last as)) =
        Some (mkel (last_addr None (butlast as)) (snd (last as)) (first_addr bs None))" if "as \<noteq> []"
      using that h lb by simp
    show "cells (elems st') (fst b) = Some (mkel (last_addr None as) (snd b) (first_addr bs' None))" if "bs = b # bs'" for b bs'
    proof -
      have "cells (elems st') (fst b) = cells (elems st) (fst b)" using that nd lb by (intro out) auto
      then show ?thesis using d that by simp
    qed
    show "cells (elems st') a = cells (elems st) a" if "a \<in> fst ` set (butlast as) \<union> fst ` set (tl bs)" for a
    proof (rule out)
      have "a \<in> fst ` set as \<or> a \<in> fst ` set bs"
        using that by (cases bs) (auto dest: in_set_butlastD intro: rev_image_eqI)
      then show "a \<noteq> fst x" using nd by auto
      show "as = [] \<or> a \<noteq> fst (last as)" using that lb by (cases bs) force+
    qed
  qed
  moreover have "heap_ok (elems st')"
  proof -
    have "as \<noteq> [] \<Longrightarrow> fst (last as) < fresh (elems st)"
      using dll_cells [OF d, of "last as"] heap_ok_less [OF ok] by auto
    with ok h show ?thesis by (auto simp: heap_ok_iff split: if_splits)
  qed
  ultimately show ?thesis using l dist by (auto simp: msg_rep_def chain_rep_def)
qed

text \<open>
  \<open>get_next_message\<close> with nothing new to read: the oldest complete message of the socket is copied out
  and its element released; without one the array is emptied.
\<close>

lemma get_next_message_rep:
  assumes rep: "msg_rep st xs" and v: "view s (map snd xs) (d # ds, p)"
  obtains st' xs' where "get_next_message s [] es st = Inr (1, Some d, es, st')" "msg_rep st' xs'"
    "view s (map snd xs') (ds, p)" "room (elems st') = Suc (room (elems st))"
    "rest_of s (map snd xs') = rest_of s (map snd xs)" "msg_lib st' = sclrerr (msg_lib st)"
proof -
  let ?st = "st\<lparr>msg_lib := sclrerr (msg_lib st)\<rparr>"
  have rep1: "msg_rep ?st xs" using rep by simp
  have "of_socket s (map snd xs) = (s, d, 1) # map (\<lambda>t. (s, t, 1)) ds @ (case p of None \<Rightarrow> [] | Some t \<Rightarrow> [(s, t, 0)])"
    using v by (simp add: view_def)
  then obtain us vs where us: "map snd xs = us @ (s, d, 1) # vs" "\<forall>u\<in>set us. fst u \<noteq> s"
    "of_socket s vs = map (\<lambda>t. (s, t, 1)) ds @ (case p of None \<Rightarrow> [] | Some t \<Rightarrow> [(s, t, 0)])"
    unfolding of_socket_def by (auto elim: filter_eq_ConsE)
  then obtain as x bs where xs: "xs = as @ x # bs" "map snd as = us" "snd x = (s, d, 1)" "map snd bs = vs"
    by (auto simp: map_eq_append_conv)
  have na: "\<forall>y\<in>set as. fst (snd y) \<noteq> s"
    using us(2) unfolding xs(2) [symmetric] by simp
  have d: "dll mkel (elems st) None (as @ x # bs) None" "distinct (map fst (as @ x # bs))"
    and hd: "the_list st = first_addr xs None" using rep xs(1) by (auto simp: msg_rep_def chain_rep_def)
  have cnt: "0 < a_count s (map snd xs)" using count_view [OF v] by simp
  have inc: "incoming_messages s [] es ?st = Inr (a_count s (map snd xs), es, ?st)"
    using count_loop_eq [of "elems st" None xs "fuel_of ?st" s 0] msg_rep_fuel [OF rep1] d xs(1) hd
    by (simp add: incoming_messages_def)
  have "of_socket s us = []" using us(2) by (simp add: of_socket_def filter_empty_conv)
  then have view': "view s (map snd (as @ bs)) (ds, p)"
    using us(3) xs(2,4) by (simp add: view_def of_socket_def)
  have others: "rest_of s (map snd (as @ bs)) = rest_of s (map snd xs)"
    using xs by (simp add: rest_of_def)
  show ?thesis
  proof (cases as)
    case Nil
    let ?H = "(elems st)\<lparr>cells := (cells (elems st))(fst x := None)\<rparr>"
    let ?st' = "?st\<lparr>the_list := first_addr bs None, elems := ?H\<lparr>room := Suc (room (elems st))\<rparr>\<rparr>"
    have "get_next_message s [] es st = Inr (1, Some d, es, ?st')"
      using inc cnt hd d(1) xs Nil by (simp add: get_next_message_def)
    moreover have "msg_rep ?st' (as @ bs)"
      by (rule unlink_rep [OF rep [unfolded xs(1)], where H = ?H]) (simp_all add: Nil)
    ultimately show ?thesis using view' others by (intro that [of ?st' "as @ bs"]) simp_all
  next
    case (Cons z zs)
    let ?H = "(elems st)\<lparr>cells := (cells (elems st))(fst (last as) \<mapsto> mkel None (snd (last as)) (first_addr bs None),
      fst x := None)\<rparr>"
    let ?st' = "?st\<lparr>elems := ?H\<lparr>room := Suc (room (elems st))\<rparr>\<rparr>"
    have f: "length zs + 1 < fuel_of ?st - 1"
      using msg_rep_fuel [OF rep1] xs(1) Cons by simp
    have fu: "fuel_of ?st = Suc (fuel_of ?st - 1)" by (simp add: fuel_of_def)
    have "fetch_loop (fuel_of ?st - 1) s (Some (fst z)) (first_addr (zs @ x # bs) None) (elems st) =
        Inr (Some d, ?H\<lparr>room := Suc (room (elems st))\<rparr>)"
      using fetch_loop_eq [of "elems st" None z zs x bs s "fuel_of ?st - 1"] d na f xs(3) Cons by simp
    then have "fetch_loop (fuel_of ?st) s (Some (fst z)) (Some (fst z)) (elems st) =
        Inr (Some d, ?H\<lparr>room := Suc (room (elems st))\<rparr>)"
      using d(1) na Cons by (subst fu) simp
    then have "get_next_message s [] es st = Inr (1, Some d, es, ?st')"
      using inc cnt hd d(1) xs Cons na by (simp add: get_next_message_def)
    moreover have "msg_rep ?st' (as @ bs)"
      by (rule unlink_rep [OF rep [unfolded xs(1)], where H = ?H]) (use hd xs(1) Cons in simp_all)
    ultimately show ?thesis using view' others by (intro that [of ?st' "as @ bs"]) simp_all
  qed
qed

lemma get_next_message_none:
  assumes rep: "msg_rep st xs" and v: "view s (map snd xs) ([], p)"
  shows "get_next_message s [] es st = Inr (0, Some [], es, st\<lparr>msg_lib := sclrerr (msg_lib st)\<rparr>)"
proof -
  let ?st = "st\<lparr>msg_lib := sclrerr (msg_lib st)\<rparr>"
  have rep1: "msg_rep ?st xs" using rep by simp
  have "incoming_messages s [] es ?st = Inr (0, es, ?st)"
    using count_loop_eq [of "elems st" None xs "fuel_of ?st" s 0] msg_rep_fuel [OF rep1] rep count_view [OF v]
    by (simp add: incoming_messages_def msg_rep_def chain_rep_def)
  then show ?thesis by (simp add: get_next_message_def)
qed

end
