(* ===== verification/Smessages_Clean.thy ===== *)
theory Smessages_Clean
  imports Smessages_Refine
begin

text \<open>
  \<open>clean_list\<close> of \<open>smessages.c\<close> on the list of entries: what it removes (\<open>a_clean\<close>), and that the
  routine computes it.
\<close>

text \<open>
  Behind an entry that stays: an entry of the socket is removed, and the entry behind it stays
  unseen.
\<close>

fun clean_tail :: "int \<Rightarrow> entry list \<Rightarrow> entry list" where
  "clean_tail s [] = []"
| "clean_tail s [e] = (if fst e = s then [] else [e])"
| "clean_tail s (e # f # es) = (if fst e = s then f # clean_tail s es else e # clean_tail s (f # es))"

definition a_clean :: "int \<Rightarrow> entry list \<Rightarrow> entry list" where
  "a_clean s es = (case dropWhile (\<lambda>e. fst e = s) es of [] \<Rightarrow> [] | e # es' \<Rightarrow> e # clean_tail s es')"

lemma rest_of_simps [simp]:
  "rest_of s [] = []"
  "rest_of s (e # es) = (if fst e = s then rest_of s es else e # rest_of s es)"
  by (simp_all add: rest_of_def)

lemma rest_of_clean_tail: "rest_of s (clean_tail s es) = rest_of s es"
  by (induction s es rule: clean_tail.induct) auto

lemma rest_of_dropWhile: "rest_of s (dropWhile (\<lambda>e. fst e = s) es) = rest_of s es"
  by (induction es) auto

lemma rest_of_a_clean: "rest_of s (a_clean s es) = rest_of s es"
proof (cases "dropWhile (\<lambda>e. fst e = s) es")
  case Nil
  show ?thesis unfolding a_clean_def Nil using rest_of_dropWhile [of s es, unfolded Nil] by simp
next
  case (Cons e es')
  have "rest_of s (e # clean_tail s es') = rest_of s (e # es')" by (simp add: rest_of_clean_tail)
  then show ?thesis unfolding a_clean_def Cons
    using rest_of_dropWhile [of s es, unfolded Cons] by (simp only: list.case)
qed

text \<open>No two neighbours of one socket behind the head: then all of it goes.\<close>

fun apart :: "int \<Rightarrow> entry list \<Rightarrow> bool" where
  "apart s (e # f # es) = ((fst e \<noteq> s \<or> fst f \<noteq> s) \<and> apart s (f # es))"
| "apart s es = True"

lemma clean_tail_apart: "apart s es \<Longrightarrow> clean_tail s es = rest_of s es"
proof (induction s es rule: clean_tail.induct)
  case (3 s e f es)
  then show ?case by (cases es) auto
qed auto

lemma a_clean_apart: "apart s (dropWhile (\<lambda>e. fst e = s) es) \<Longrightarrow> a_clean s es = rest_of s es"
proof (cases "dropWhile (\<lambda>e. fst e = s) es")
  case Nil
  show ?thesis unfolding a_clean_def Nil using rest_of_dropWhile [of s es, unfolded Nil] by simp
next
  case (Cons e es')
  assume "apart s (dropWhile (\<lambda>e. fst e = s) es)"
  then have "apart s es'" unfolding Cons by (cases es') simp_all
  then have "clean_tail s es' = rest_of s es'" by (rule clean_tail_apart)
  moreover have "fst e \<noteq> s" using hd_dropWhile [of "\<lambda>e. fst e = s" es] Cons by simp
  ultimately show ?thesis unfolding a_clean_def Cons
    using rest_of_dropWhile [of s es, unfolded Cons] by simp
qed

section \<open>The routine\<close>

lemma clean_head_rep:
  "\<lbrakk>msg_rep st (x # xs); length xs < fuel\<rbrakk> \<Longrightarrow>
   \<exists>st'. clean_head fuel s st = Inr st' \<and> msg_rep st' (dropWhile (\<lambda>y. fst (snd y) = s) (x # xs)) \<and>
     fresh (elems st') = fresh (elems st) \<and> msg_lib st' = msg_lib st"
proof (induction xs arbitrary: st x fuel)
  case Nil
  then obtain f where f: "fuel = Suc f" by (cases fuel) auto
  have c: "cells (elems st) (fst x) = Some (mkel None (snd x) None)" "the_list st = Some (fst x)"
    using Nil by (auto simp: msg_rep_def chain_rep_def)
  let ?st = "st\<lparr>the_list := None, elems := (elems st)\<lparr>cells := (cells (elems st))(fst x := None),
    room := Suc (room (elems st))\<rparr>\<rparr>"
  have "msg_rep ?st []" using Nil by (auto simp: msg_rep_def heap_ok_iff split: if_splits)
  with Nil f c show ?case by simp
next
  case (Cons y xs)
  then obtain f where f: "fuel = Suc f" "length xs < f" by (cases fuel) auto
  have c: "cells (elems st) (fst x) = Some (mkel None (snd x) (Some (fst y)))" "the_list st = Some (fst x)"
    using Cons.prems(1) by (auto simp: msg_rep_def chain_rep_def)
  let ?H = "(elems st)\<lparr>cells := (cells (elems st))(fst x := None)\<rparr>"
  let ?st = "st\<lparr>the_list := Some (fst y), elems := ?H\<lparr>room := Suc (room (elems st))\<rparr>\<rparr>"
  have "msg_rep ?st ([] @ y # xs)"
    by (rule unlink_rep [where as = "[]" and x = x and H = ?H]) (use Cons.prems(1) in simp_all)
  from Cons.IH [of ?st y f] this f obtain st' where "clean_head f s ?st = Inr st'"
    "msg_rep st' (dropWhile (\<lambda>y. fst (snd y) = s) (y # xs))" "fresh (elems st') = fresh (elems st)"
    "msg_lib st' = msg_lib st" by auto
  with Cons.prems f c show ?case by auto
qed

lemma clean_rest_rep:
  "\<lbrakk>dll mkel H q (x # ys) None; distinct (map fst (x # ys)); length ys < fuel\<rbrakk> \<Longrightarrow>
   \<exists>H' ys'. clean_rest fuel s (Some (fst x)) H = Inr H' \<and> dll mkel H' q (x # ys') None \<and>
     map snd ys' = clean_tail s (map snd ys) \<and> set ys' \<subseteq> set ys \<and> distinct (map fst ys') \<and>
     (\<forall>a. a \<notin> fst ` set (x # ys) \<longrightarrow> cells H' a = cells H a) \<and> dom (cells H') \<subseteq> dom (cells H) \<and>
     fresh H' = fresh H"
proof (induction "length ys" arbitrary: ys H q x fuel rule: less_induct)
  case less
  then obtain f where f: "fuel = Suc f" by (cases fuel) auto
  show ?case
  proof (cases ys)
    case Nil
    with less.prems f show ?thesis by auto
  next
    case (Cons y zs)
    have c: "cells H (fst x) = Some (mkel None (snd x) (Some (fst y)))"
      "cells H (fst y) = Some (mkel None (snd y) (first_addr zs None))" using less.prems(1) Cons by auto
    have d: "fst x \<noteq> fst y" "fst x \<notin> fst ` set zs" "fst y \<notin> fst ` set zs" "distinct (map fst zs)"
      using less.prems(2) Cons by auto
    show ?thesis
    proof (cases "fst (snd y) = s")
      case False
      have "dll mkel H (Some (fst x)) (y # zs) None" "distinct (map fst (y # zs))" "length zs < f"
        using less.prems Cons f by auto
      from less.hyps [OF _ this] Cons obtain H' ys' where h: "clean_rest f s (Some (fst y)) H = Inr H'"
        "dll mkel H' (Some (fst x)) (y # ys') None" "map snd ys' = clean_tail s (map snd zs)" "set ys' \<subseteq> set zs"
        "distinct (map fst ys')" "\<forall>a. a \<notin> fst ` set (y # zs) \<longrightarrow> cells H' a = cells H a"
        "dom (cells H') \<subseteq> dom (cells H)" "fresh H' = fresh H" by auto
      have tail: "clean_tail s (map snd ys) = snd y # clean_tail s (map snd zs)"
        using Cons False by (cases zs) auto
      have "fst y \<notin> fst ` set ys'" using h(4) d(3) by auto
      with h c d f False Cons tail show ?thesis
        by (intro exI [of _ H'] exI [of _ "y # ys'"]) auto
    next
      case True
      let ?H1 = "H\<lparr>cells := (cells H)(fst x \<mapsto> mkel None (snd x) (first_addr zs None))\<rparr>"
      let ?H2 = "?H1\<lparr>cells := (cells ?H1)(fst y := None), room := Suc (room H)\<rparr>"
      show ?thesis
      proof (cases zs)
        case Nil
        have "clean_rest fuel s (Some (fst x)) H = Inr ?H2"
          using f c d True Nil by (simp add: fun_upd_twist)
        with Nil True Cons d c show ?thesis
          by (intro exI [of _ ?H2] exI [of _ "[]"]) auto
      next
        case (Cons z ws)
        have dz: "dll mkel ?H2 (Some (fst x)) (z # ws) None = dll mkel H (Some (fst x)) (z # ws) None"
          by (rule dll_cong_cells) (use d Cons in \<open>auto intro: rev_image_eqI\<close>)
        have "dll mkel ?H2 (Some (fst x)) (z # ws) None"
          unfolding dz using less.prems(1) \<open>ys = y # zs\<close> Cons by auto
        moreover have "distinct (map fst (z # ws))" "length ws < f" "length ws < length ys"
          using d Cons less.prems(3) \<open>ys = y # zs\<close> f by auto
        ultimately obtain H' ws' where h: "clean_rest f s (Some (fst z)) ?H2 = Inr H'"
          "dll mkel H' (Some (fst x)) (z # ws') None" "map snd ws' = clean_tail s (map snd ws)" "set ws' \<subseteq> set ws"
          "distinct (map fst ws')" "\<forall>a. a \<notin> fst ` set (z # ws) \<longrightarrow> cells H' a = cells ?H2 a"
          "dom (cells H') \<subseteq> dom (cells ?H2)" "fresh H' = fresh ?H2"
          using less.hyps [of ws ?H2 "Some (fst x)" z f] by blast
        have run: "clean_rest fuel s (Some (fst x)) H = Inr H'"
          using f c d True Cons h(1) by (simp add: fun_upd_twist)
        have nz: "fst z \<notin> fst ` set ws'" using h(4) d(4) Cons by auto
        have cx: "cells H' (fst x) = Some (mkel q (snd x) (Some (fst z)))"
          using h(6) d Cons by auto
        show ?thesis
          using run h nz cx True Cons \<open>ys = y # zs\<close> d c
          by (intro exI [of _ H'] exI [of _ "z # ws'"]) (auto split: if_splits)
      qed
    qed
  qed
qed

lemma clean_list_rep:
  assumes rep: "msg_rep st xs"
  obtains st' xs' where "clean_list s st = Inr st'" "msg_rep st' xs'" "map snd xs' = a_clean s (map snd xs)"
    "msg_lib st' = msg_lib st"
proof (cases xs)
  case Nil
  then have "the_list st = None" using rep by (simp add: msg_rep_def)
  with Nil rep show ?thesis by (intro that [of st "[]"]) (simp_all add: clean_list_def a_clean_def)
next
  case (Cons x ys)
  have l: "the_list st = Some (fst x)" using rep Cons by (simp add: msg_rep_def chain_rep_def)
  let ?k = "dropWhile (\<lambda>y. fst (snd y) = s) xs"
  have fu: "length ys < fuel_of st" using msg_rep_fuel [OF rep] Cons by simp
  obtain st1 where st1: "clean_head (fuel_of st) s st = Inr st1" "msg_rep st1 ?k"
    "fresh (elems st1) = fresh (elems st)" "msg_lib st1 = msg_lib st"
    using clean_head_rep [of st x ys "fuel_of st" s] rep fu Cons by auto
  have dw: "dropWhile (\<lambda>e. fst e = s) (map snd xs) = map snd ?k"
    by (simp add: dropWhile_map comp_def)
  show ?thesis
  proof (cases ?k)
    case Nil
    have "the_list st1 = None" using st1(2) unfolding Nil by (simp add: msg_rep_def)
    moreover have "a_clean s (map snd xs) = []" unfolding a_clean_def dw Nil by simp
    moreover have "msg_rep st1 []" using st1(2) unfolding Nil .
    ultimately show ?thesis using st1(1,4) l by (intro that [of st1 "[]"]) (simp_all add: clean_list_def)
  next
    case k: (Cons z zs)
    have d: "dll mkel (elems st1) None (z # zs) None" "distinct (map fst (z # zs))" "heap_ok (elems st1)"
      and lz: "the_list st1 = Some (fst z)" using st1(2) k by (auto simp: msg_rep_def chain_rep_def)
    have "length zs < fuel_of st" using msg_rep_fuel [OF st1(2)] k st1(3) by (simp add: fuel_of_def)
    from clean_rest_rep [OF d(1,2) this, of s] obtain H' zs' where
      h: "clean_rest (fuel_of st) s (Some (fst z)) (elems st1) = Inr H'" "dll mkel H' None (z # zs') None"
      "map snd zs' = clean_tail s (map snd zs)" "set zs' \<subseteq> set zs" "distinct (map fst zs')"
      "dom (cells H') \<subseteq> dom (cells (elems st1))" "fresh H' = fresh (elems st1)" by auto
    have "fst z \<notin> fst ` set zs'" using h(4) d(2) by auto
    then have "msg_rep (st1\<lparr>elems := H'\<rparr>) (z # zs')"
      using h lz d(3) by (auto simp: msg_rep_def chain_rep_def heap_ok_def)
    moreover have "clean_list s st = Inr (st1\<lparr>elems := H'\<rparr>)"
      using l st1(1) lz h(1) by (simp add: clean_list_def)
    ultimately show ?thesis using h(3) dw k st1(4)
      by (intro that [of "st1\<lparr>elems := H'\<rparr>" "z # zs'"]) (simp_all add: a_clean_def)
  qed
qed

end
