(* ===== verification/Smessages_Properties.thy ===== *)
theory Smessages_Properties
  imports Smessages_Clean Net_IO
begin

text \<open>
  The properties of \<open>smessages.c\<close>: messages in, the same messages out; what a read does in general;
  and where the routines go wrong.
\<close>

section \<open>The mailbox of one socket\<close>

text \<open>A message that arrives in one read, and the fetch of the next one.\<close>

definition receive :: "int \<Rightarrow> string \<Rightarrow> msg_st \<Rightarrow> msg_st res" where
  "receive s m st =
     bind_res (incoming_messages s [1] [Bytes (m @ [NUL])] st) (\<lambda>(_, _, st1). Inr st1)"

definition fetch :: "int \<Rightarrow> msg_st \<Rightarrow> (string option \<times> msg_st) res" where
  "fetch s st =
     bind_res (get_next_message s [] [] st) (\<lambda>(r, c, _, st1). Inr (if r = 1 then c else None, st1))"

definition box :: "int \<Rightarrow> msg_st \<Rightarrow> string list \<Rightarrow> bool" where
  "box s st ms \<longleftrightarrow> (\<exists>xs. msg_rep st xs \<and> view s (map snd xs) (ms, None)) \<and>
     fits (ms, None) \<and> sclrerr (msg_lib st) = msg_lib st"

definition sendable :: "string \<Rightarrow> bool" where
  "sendable m \<longleftrightarrow> m \<noteq> [] \<and> NUL \<notin> set m \<and> length m + 1 < MAXBUFF"

lemma dropWhile_text: "NUL \<notin> set m \<Longrightarrow> m \<noteq> [] \<Longrightarrow> dropWhile (\<lambda>c. c = NUL) (m @ cs) = m @ cs"
  by (cases m) auto

lemma read_view_message:
  "sendable m \<Longrightarrow> read_view (ms, None) (m @ [NUL]) = (ms @ [m], None)"
  using feeds_message [of m "(ms, None)" "[]"] by (simp add: read_view_def sendable_def dropWhile_text)

lemma handles_whole: "sendable m \<Longrightarrow> handles False (m @ [NUL]) = 1"
  using handles_message [of m] by (cases m) (auto simp: sendable_def)

interpretation mailbox: fifo "box s" sendable "\<lambda>st. room (elems st)" "receive s" "fetch s" for s
proof unfold_locales
  fix st ms m
  assume b: "box s st ms" and m: "sendable m" and r: "0 < room (elems st)"
  then obtain xs where xs: "msg_rep st xs" "view s (map snd xs) (ms, None)" "fits (ms, None)"
    by (auto simp: box_def)
  have f: "fits (ms @ [m], None)" using xs(3) m by (auto simp: fits_def sendable_def)
  have v: "foldl read_view (ms, None) [m @ [NUL]] = (ms @ [m], None)" using read_view_message [OF m] by simp
  obtain st' xs' where k: "incoming_messages s (replicate (length [m @ [NUL]]) 1) (map Bytes [m @ [NUL]] @ []) st =
       Inr (int (length (fst (foldl read_view (ms, None) [m @ [NUL]]))), [], st')"
    "msg_rep st' xs'" "view s (map snd xs') (foldl read_view (ms, None) [m @ [NUL]])"
    "rest_of s (map snd xs') = rest_of s (map snd xs)" "msg_lib st' = sclrerr (msg_lib st)"
    "room (elems st') + length xs' = room (elems st) + length xs"
    by (rule incoming_messages_rep [OF xs(1,2), of "[m @ [NUL]]" "[]"])
      (use m r v f in \<open>simp_all add: sendable_def handles_whole [OF m]\<close>)
  have "length xs' = Suc (length xs)"
    using length_split [of "map snd xs'" s] length_split [of "map snd xs" s] k(3,4) xs(2) v
    by (simp add: view_def)
  then have "Suc (room (elems st')) = room (elems st)" using k(6) by simp
  moreover have "receive s m st = Inr st'" using k(1) by (simp add: receive_def)
  moreover have "box s st' (ms @ [m])" using k(2,3,5) v f by (auto simp: box_def)
  ultimately show "\<exists>s'. receive s m st = Inr s' \<and> box s s' (ms @ [m]) \<and> Suc (room (elems s')) = room (elems st)"
    by blast
next
  fix st m ms
  assume "box s st (m # ms)"
  then obtain xs where xs: "msg_rep st xs" "view s (map snd xs) (m # ms, None)" "fits (m # ms, None)"
    by (auto simp: box_def)
  obtain st' xs' where k: "get_next_message s [] [] st = Inr (1, Some m, [], st')" "msg_rep st' xs'"
    "view s (map snd xs') (ms, None)" "room (elems st') = Suc (room (elems st))"
    "rest_of s (map snd xs') = rest_of s (map snd xs)" "msg_lib st' = sclrerr (msg_lib st)"
    by (rule get_next_message_rep [OF xs(1,2)])
  moreover have "fits (ms, None)" using xs(3) by (simp add: fits_def)
  ultimately show "\<exists>s'. fetch s st = Inr (Some m, s') \<and> box s s' ms \<and> room (elems s') = Suc (room (elems st))"
    by (auto simp: fetch_def box_def)
next
  fix st
  assume "box s st []"
  then obtain xs where xs: "msg_rep st xs" "view s (map snd xs) ([], None)" "sclrerr (msg_lib st) = msg_lib st"
    by (auto simp: box_def)
  then show "fetch s st = Inr (None, st)"
    using get_next_message_none [OF xs(1,2), of "[]"] by (simp add: fetch_def)
qed

section \<open>Messages in, messages out\<close>

definition encode :: "string list \<Rightarrow> char list" where
  "encode ms = concat (map (\<lambda>m. m @ [NUL]) ms)"

lemma feeds_encode: "\<forall>m\<in>set ms. sendable m \<Longrightarrow> feeds (ds, None) (encode ms) = (ds @ ms, None)"
proof (induction ms arbitrary: ds)
  case (Cons m ms)
  then show ?case
    using feeds_message [of m "(ds, None)" "encode ms"] by (simp add: encode_def sendable_def)
qed (simp add: encode_def)

lemma read_views_concat:
  "\<forall>c\<in>set chunks. c \<noteq> [] \<and> hd c \<noteq> NUL \<Longrightarrow> foldl read_view v chunks = feeds v (concat chunks)"
proof (induction chunks arbitrary: v)
  case (Cons c chunks)
  have "dropWhile (\<lambda>c. c = NUL) c = c" using Cons.prems by (cases c) auto
  with Cons show ?case by (simp add: read_view_def)
qed simp

text \<open>Messages sent one after another, the kernel taking each of them whole, and what goes out.\<close>

fun send_all :: "int \<Rightarrow> string list \<Rightarrow> msg_st \<Rightarrow> (char list \<times> msg_st) res" where
  "send_all s [] st = Inr ([], st)"
| "send_all s (m # ms) st =
     bind_res (send_a_message s m 1 0 (Takes MAXBUFF) st) (\<lambda>(_, sent, st1).
     bind_res (send_all s ms st1) (\<lambda>(later, st2). Inr (sent @ later, st2)))"

lemma send_all_encode: "\<forall>m\<in>set ms. sendable m \<Longrightarrow> \<exists>st'. send_all s ms st = Inr (encode ms, st')"
proof (induction ms arbitrary: st)
  case (Cons m ms)
  then have "take MAXBUFF (m @ [NUL]) = m @ [NUL]" by (intro take_all) (auto simp: sendable_def)
  then have "send_a_message s m 1 0 (Takes MAXBUFF) st =
      Inr (int (length m) + 1, m @ [NUL], st\<lparr>msg_lib := sclrerr (msg_lib st)\<rparr>)"
    by (simp add: send_a_message_def test_writey_def del: take_append)
  moreover obtain st' where "send_all s ms (st\<lparr>msg_lib := sclrerr (msg_lib st)\<rparr>) = Inr (encode ms, st')"
    using Cons by fastforce
  ultimately show ?case by (simp add: encode_def)
qed (simp add: encode_def)


definition no_messages :: msg_st where
  "no_messages = \<lparr>the_list = None, elems = \<lparr>cells = Map.empty, fresh = 0, room = 9\<rparr>,
     msg_lib = \<lparr>serrno = 0, sename = None, open_fds = []\<rparr>\<rparr>"

lemma no_messages_box: "box s no_messages []"
  by (auto simp: box_def no_messages_def msg_rep_def heap_ok_def view_def of_socket_def fits_def MAXBUFF_def
      sclrerr_def SE_NOERR_def intro!: exI [of _ "[]"])



text \<open>A list with messages of two sockets.\<close>

definition two_boxes :: msg_st where
  "two_boxes = \<lparr>the_list = Some 0,
     elems = \<lparr>cells = [0 \<mapsto> mkel None (5, ''other'', 1) (Some 1), 1 \<mapsto> mkel None (4, ''first'', 1) (Some 2),
                       2 \<mapsto> mkel None (4, ''last'', 1) None], fresh = 3, room = 40\<rparr>,
     msg_lib = \<lparr>serrno = 0, sename = None, open_fds = []\<rparr>\<rparr>"

definition two_entries :: "(nat \<times> entry) list" where
  "two_entries = [(0, (5, ''other'', 1)), (1, (4, ''first'', 1)), (2, (4, ''last'', 1))]"

lemma two_boxes_rep:
  "msg_rep two_boxes two_entries" "view 4 (map snd two_entries) ([''first'', ''last''], None)"
  by (auto simp: two_boxes_def two_entries_def msg_rep_def chain_rep_def heap_ok_iff view_def of_socket_def)


text \<open>
  C37: a terminator at the start of a read is lost. When the last byte of a first message arrives in a
  later read than the rest, the two messages become one: one message is counted and handed out, the
  concatenation of both.
\<close>

theorem split_terminator_merges:
  assumes b: "box s st []" and m: "sendable m1" "sendable m2" "length m1 + length m2 + 2 < MAXBUFF"
    and room: "2 \<le> room (elems st)"
  shows "\<exists>st1 st2. incoming_messages s [1, 1] [Bytes m1, Bytes (NUL # m2 @ [NUL])] st = Inr (1, [], st1) \<and>
    fetch s st1 = Inr (Some (m1 @ m2), st2) \<and> fetch s st2 = Inr (None, st2)"
proof -
  let ?chunks = "[m1, NUL # m2 @ [NUL]]"
  obtain xs where xs: "msg_rep st xs" "view s (map snd xs) ([], None)" using b by (auto simp: box_def)
  have n: "m1 \<noteq> []" "NUL \<notin> set m1" "m2 \<noteq> []" "NUL \<notin> set m2" using m by (auto simp: sendable_def)
  have "read_view ([], None) m1 = ([], Some m1)"
    using dropWhile_text [OF n(2,1), of "[]"] feeds_text [OF n(2,1), of "([], None)"] by (simp add: read_view_def)
  moreover have "read_view ([], Some m1) (NUL # m2 @ [NUL]) = ([m1 @ m2], None)"
    using feeds_message [OF n(4,3), of "([], Some m1)" "[]"] n by (simp add: read_view_def dropWhile_text)
  ultimately have v: "foldl read_view ([], None) ?chunks = ([m1 @ m2], None)" by simp
  have h: "handles False m1 = 1" "handles False (NUL # m2 @ [NUL]) = 1"
  proof -
    have "handles True cs = 1" if "NUL \<notin> set cs" for cs using that by (induction cs) auto
    then show "handles False m1 = 1" using n by (cases m1) auto
    show "handles False (NUL # m2 @ [NUL]) = 1" using handles_whole [OF m(2)] by simp
  qed
  have f: "fits ([m1 @ m2], None)" using m(3) by (simp add: fits_def MAXBUFF_def)
  obtain st1 xs1 where k: "incoming_messages s (replicate (length ?chunks) 1) (map Bytes ?chunks @ []) st =
       Inr (int (length (fst (foldl read_view ([], None) ?chunks))), [], st1)"
    "msg_rep st1 xs1" "view s (map snd xs1) (foldl read_view ([], None) ?chunks)"
    "rest_of s (map snd xs1) = rest_of s (map snd xs)" "msg_lib st1 = sclrerr (msg_lib st)"
    by (rule incoming_messages_rep [OF xs, of ?chunks "[]"]) (use v f n m h room in \<open>simp_all add: sendable_def\<close>)
  have "box s st1 [m1 @ m2]" using k(2,3,5) v f by (auto simp: box_def)
  from mailbox.pop_ok [OF this] obtain st2 where "fetch s st1 = Inr (Some (m1 @ m2), st2)" "box s st2 []" by auto
  with k(1) v mailbox.pop_empty [of s st2] show ?thesis by auto
qed

theorem split_terminator_merges_witness:
  "\<exists>st1 st2. incoming_messages 4 [1, 1] [Bytes ''ab'', Bytes (NUL # ''cd'' @ [NUL])] no_messages = Inr (1, [], st1) \<and>
    fetch 4 st1 = Inr (Some ''abcd'', st2)"
proof -
  have m: "sendable ''ab''" "sendable ''cd''" "length ''ab'' + length ''cd'' + 2 < MAXBUFF"
    by (simp_all add: sendable_def MAXBUFF_def NUL_def)
  have r: "2 \<le> room (elems no_messages)" by (simp add: no_messages_def)
  from split_terminator_merges [OF no_messages_box m r, of 4] show ?thesis by auto
qed

section \<open>One piece of a message\<close>

text \<open>
  C30: \<open>handle\<close> implements its specification on the list of entries: the piece joins the message begun on
  its socket, or begins one; the message is complete unless the piece ends the transmission; every
  other entry stays, in its place. A message that would not fit into its array overruns it.
\<close>

theorem handle_refines:
  assumes "msg_rep st xs" "0 < room (elems st)"
  shows "let str = c_string (drop m buf); inc = (int (m + length str) > e) in
    if length (a_pending s (map snd xs)) + length str < MAXBUFF
    then \<exists>st' xs'. handle s buf m e st = Inr st' \<and> msg_rep st' xs' \<and>
           map snd xs' = a_handle s str inc (map snd xs)
    else handle s buf m e st = Inl BufferOverflow"
  using handle_rep [OF assms refl refl, where m = m and buf = buf and e = e and s = s] unfolding Let_def
  by (auto split: if_splits)

theorem handle_refines_witness:
  "\<exists>st' xs'. handle 4 (''xyz'' @ [NUL]) 1 3 two_boxes = Inr st' \<and> msg_rep st' xs' \<and>
     map snd xs' = map snd two_entries @ [(4, ''yz'', 1)]"
proof -
  have r: "0 < room (elems two_boxes)" by (simp add: two_boxes_def)
  have c: "c_string (drop 1 (''xyz'' @ [NUL])) = ''yz''" by (simp add: c_string_def NUL_def)
  have a: "a_pending 4 (map snd two_entries) = []"
    "a_handle 4 ''yz'' False (map snd two_entries) = map snd two_entries @ [(4, ''yz'', 1)]"
    by (simp_all add: a_pending_def a_handle_def two_entries_def pending_of_def flag_def)
  from handle_refines [OF two_boxes_rep(1) r, where m = 1 and buf = "''xyz'' @ [NUL]" and e = 3 and s = 4] show ?thesis
    unfolding c Let_def a(1) using a(2) by (simp add: MAXBUFF_def)
qed

text \<open>A piece without a NUL is handled once, at its end.\<close>

lemma split_loop_text:
  assumes "NUL \<notin> set bs" "tmp \<le> length bs" "prev \<le> tmp" "prev < length bs"
  shows "split_loop s (bs @ [NUL]) (length bs) tmp prev st =
    bind_res (handle s (bs @ [NUL]) prev (int (length bs) - 1) st) Inr"
  using assms
proof (induction "length bs - tmp" arbitrary: tmp)
  case 0
  then have "tmp = length bs" by simp
  moreover have "split_loop s (bs @ [NUL]) (length bs) (Suc (length bs)) q st1 = Inr st1" for q st1
    by (subst split_loop.simps) simp
  ultimately show ?case using 0 by (subst split_loop.simps) (simp add: bind_res_assoc)
next
  case (Suc n)
  then have "tmp < length bs" by simp
  then have "(bs @ [NUL]) ! tmp \<noteq> NUL" using Suc.prems(1) nth_mem by (fastforce simp: nth_append)
  then have "split_loop s (bs @ [NUL]) (length bs) tmp prev st = split_loop s (bs @ [NUL]) (length bs) (Suc tmp) prev st"
    using Suc by (subst split_loop.simps) simp
  with Suc show ?case by simp
qed

text \<open>
  The length of a message is never checked. A message begun with \<open>p\<close> and continued in a read by a
  piece that brings it to \<open>MAXBUFF\<close> bytes or more overruns the array of its list element.
\<close>

theorem long_message_overflows:
  assumes rep: "msg_rep st xs" "view s (map snd xs) (ds, Some p)" and r: "0 < room (elems st)"
    and m: "NUL \<notin> set m" "m \<noteq> []" "length m < MAXBUFF" "MAXBUFF \<le> length p + length m"
  shows "incoming_messages s [1] [Bytes m] st = Inl BufferOverflow"
proof -
  let ?st = "st\<lparr>msg_lib := sclrerr (msg_lib st)\<rparr>"
  have c: "c_string (drop 0 (m @ [NUL])) = m" using c_string_seg [OF m(1), of "[]"] by simp
  have "\<not> length (a_pending s (map snd xs)) + length m < MAXBUFF" using view_pending [OF rep(2)] m(4) by simp
  then have "handle s (m @ [NUL]) 0 (int (length m) - 1) ?st = Inl BufferOverflow"
    using handle_rep [OF _ _ c refl, of ?st xs, where e = "int (length m) - 1" and s = s] rep(1) r by simp
  moreover have "take (MAXBUFF - 1) m = m" "drop (MAXBUFF - 1) m = []" using m(3) by auto
  ultimately show ?thesis
    using split_loop_text [OF m(1), of 0 0 s ?st] m(2)
    by (simp add: incoming_messages_def test_ready_def)
qed

definition begun_box :: msg_st where
  "begun_box = \<lparr>the_list = Some 0,
     elems = \<lparr>cells = [0 \<mapsto> mkel None (4, replicate 2000 CHR ''a'', 0) None], fresh = 1, room = 8\<rparr>,
     msg_lib = \<lparr>serrno = 0, sename = None, open_fds = []\<rparr>\<rparr>"

theorem long_message_overflows_witness:
  "incoming_messages 4 [1] [Bytes (replicate 56 CHR ''b'')] begun_box = Inl BufferOverflow"
  by (rule long_message_overflows [of _ "[(0, (4, replicate 2000 CHR ''a'', 0))]" 4 "[]" "replicate 2000 CHR ''a''"])
    (auto simp: begun_box_def msg_rep_def chain_rep_def heap_ok_iff view_def of_socket_def NUL_def MAXBUFF_def)

section \<open>Closed connections\<close>

text \<open>
  What \<open>clean_list\<close> removes. The entries of every other socket stay, in their order. All entries of
  the socket go if, behind those at the head of the list, no two of them are neighbours.
\<close>

theorem clean_list_outcome:
  assumes "msg_rep st xs"
  shows "\<exists>st' xs'. clean_list s st = Inr st' \<and> msg_rep st' xs' \<and>
    (\<forall>s'. s' \<noteq> s \<longrightarrow> of_socket s' (map snd xs') = of_socket s' (map snd xs)) \<and>
    (apart s (dropWhile (\<lambda>e. fst e = s) (map snd xs)) \<longrightarrow> of_socket s (map snd xs') = [])"
proof -
  obtain st' xs' where k: "clean_list s st = Inr st'" "msg_rep st' xs'" "map snd xs' = a_clean s (map snd xs)"
    by (rule clean_list_rep [OF assms, of s])
  have "of_socket s' (map snd xs') = of_socket s' (map snd xs)" if "s' \<noteq> s" for s'
    using of_other [OF that] rest_of_a_clean k(3) by metis
  moreover have "of_socket s (rest_of s es) = []" for es by (simp add: of_socket_def rest_of_def filter_empty_conv)
  ultimately show ?thesis using k a_clean_apart by metis
qed

theorem clean_list_outcome_witness:
  "\<exists>st' xs'. clean_list 5 two_boxes = Inr st' \<and> msg_rep st' xs' \<and>
    of_socket 4 (map snd xs') = [(4, ''first'', 1), (4, ''last'', 1)] \<and> of_socket 5 (map snd xs') = []"
proof -
  have "apart 5 (dropWhile (\<lambda>e. fst e = 5) (map snd two_entries))" by (simp add: two_entries_def)
  moreover have "of_socket 4 (map snd two_entries) = [(4, ''first'', 1), (4, ''last'', 1)]"
    by (simp add: two_entries_def of_socket_def)
  ultimately show ?thesis using clean_list_outcome [OF two_boxes_rep(1), of 5] by force
qed

text \<open>
  A message outlives its connection. With two messages of the socket next to each other behind one
  of another socket, the read that finds the connection closed answers -1 but removes only the first;
  the second is handed out afterwards, to whatever connection gets the descriptor next.
\<close>

theorem closed_socket_leaves_message:
  assumes rep: "msg_rep st xs" and xs: "map snd xs = [other, (s, t1, 1), (s, t2, 1)]" "fst other \<noteq> s"
  shows "\<exists>st1 st2. incoming_messages s [1] [Hangup] st = Inr (-1, [Hangup], st1) \<and>
    fetch s st1 = Inr (Some t2, st2)"
proof -
  let ?st = "st\<lparr>msg_lib := sclrerr (msg_lib st)\<rparr>"
  have rep': "msg_rep ?st xs" using rep by simp
  obtain st1 xs1 where k: "clean_list s ?st = Inr st1" "msg_rep st1 xs1" "map snd xs1 = a_clean s (map snd xs)"
    by (rule clean_list_rep [OF rep', of s])
  have v: "view s (map snd xs1) ([t2], None)"
    using k(3) xs by (simp add: a_clean_def view_def of_socket_def)
  obtain st2 xs2 where "get_next_message s [] [] st1 = Inr (1, Some t2, [], st2)" "msg_rep st2 xs2"
    by (rule get_next_message_rep [OF k(2) v])
  with k(1) show ?thesis by (simp add: incoming_messages_def test_ready_def fetch_def)
qed

theorem closed_socket_leaves_message_witness:
  "\<exists>st1 st2. incoming_messages 4 [1] [Hangup] two_boxes = Inr (-1, [Hangup], st1) \<and>
    fetch 4 st1 = Inr (Some ''last'', st2)"
  by (rule closed_socket_leaves_message
      [OF two_boxes_rep(1), where other = "(5, ''other'', 1)" and ?t1.0 = "''first''"])
    (simp_all add: two_entries_def)

text \<open>
  \<open>empty_incoming_messages\<close> uses released memory whenever it has removed the messages at the head of
  the list and a message of another socket follows.
\<close>

theorem empty_incoming_uses_freed:
  assumes rep: "msg_rep st xs" and xs: "map snd xs = (s, t, 1) # other # es" "fst other \<noteq> s"
  shows "empty_incoming_messages stack_temp stack_prev junk_ret s [] [] st = Inl Dangling"
proof -
  let ?st = "st\<lparr>msg_lib := sclrerr (msg_lib st)\<rparr>"
  obtain a b ys where ys: "xs = (a, (s, t, 1)) # (b, other) # ys"
    using xs(1) by (cases xs; cases "tl xs") auto
  have d: "cells (elems st) a = Some (mkel None (s, t, 1) (Some b))" "the_list st = Some a" "a \<noteq> b"
    "\<exists>n. cells (elems st) b = Some (mkel None other n)"
    using rep ys by (auto simp: msg_rep_def chain_rep_def)
  have cnt: "0 < a_count s (map snd xs)"
  proof -
    have "0 \<le> a_count s es" for es by (induction s es rule: a_count.induct) auto
    then show ?thesis unfolding xs(1) by (simp add: add_pos_nonneg)
  qed
  have l: "dll mkel (elems st) None xs None" "the_list st = first_addr xs None" "length xs < fuel_of ?st"
    using rep msg_rep_fuel [of ?st xs] by (auto simp: msg_rep_def chain_rep_def)
  then have inc: "incoming_messages s [] [] ?st = Inr (a_count s (map snd xs), [], ?st)"
    using count_loop_eq [OF l(1,3), of s 0] by (simp add: incoming_messages_def)
  from l(3) ys obtain f where f: "fuel_of ?st = Suc (Suc f)" by (cases "fuel_of ?st"; cases "fuel_of ?st - 1") auto
  have fu: "fuel_of (st1\<lparr>the_list := p, elems := H\<rparr>) = Suc (fresh H)" for st1 p H by (simp add: fuel_of_def)
  from d(4) obtain n where n: "cells (elems st) b = Some (mkel None other n)" ..
  show ?thesis
    unfolding empty_incoming_messages_def inc
    using cnt d(1-3) n xs(2) f by (simp add: fu)
qed

theorem empty_incoming_uses_freed_witness:
  "empty_incoming_messages None None 0 5 [] [] two_boxes = Inl Dangling"
  by (rule empty_incoming_uses_freed
      [OF two_boxes_rep(1), where other = "(4, ''first'', 1)" and es = "[(4, ''last'', 1)]" and t = "''other''"])
    (simp_all add: two_entries_def)

end
