(* ===== verification/Threadpool_Pthread.thy ===== *)
theory Threadpool_Pthread
  imports Threadpool
begin

text \<open>
  \<open>server/threadpool_pthread.c\<close>: the same pool on the system's pthreads. That library is not part of
  the repository: it is the argument \<open>ops\<close>, a record of the calls the file makes on a state of its
  own, each answering its result, or a stop (\<open>SysBlocked\<close> for a caller that has to wait, \<open>Undefined\<close>
  where POSIX leaves the call undefined). The pool and its task queue are those of \<open>threadpool.c\<close>.
\<close>

record 'e pthread_ops =
  p_mutex_init :: "nat \<Rightarrow> 'e \<Rightarrow> (int \<times> 'e) res"
  p_cond_init :: "nat \<Rightarrow> 'e \<Rightarrow> (int \<times> 'e) res"
  p_mutex_destroy :: "nat \<Rightarrow> 'e \<Rightarrow> (int \<times> 'e) res"
  p_cond_destroy :: "nat \<Rightarrow> 'e \<Rightarrow> (int \<times> 'e) res"
  p_create :: "nat \<Rightarrow> nat \<Rightarrow> int \<Rightarrow> 'e \<Rightarrow> (int \<times> 'e) res"
  p_lock :: "nat \<Rightarrow> 'e \<Rightarrow> (int \<times> 'e) res"
  p_unlock :: "nat \<Rightarrow> 'e \<Rightarrow> (int \<times> 'e) res"
  p_wait :: "nat \<Rightarrow> nat \<Rightarrow> 'e \<Rightarrow> (int \<times> 'e) res"
  p_signal :: "nat \<Rightarrow> 'e \<Rightarrow> (int \<times> 'e) res"

definition pt_push_task :: "ptr \<Rightarrow> ptr \<Rightarrow> pool_mem \<Rightarrow> pool_mem res" where
  "pt_push_task pool mytask m =
     bind_res (load (pools m) pool) (\<lambda>p.
     bind_res
       (if no_of_tasks_in_Q p = 0 then
          bind_res (modify_pool pool (\<lambda>p. p\<lparr>taskQ_front := mytask, taskQ_rear := mytask\<rparr>) m) (\<lambda>m1.
          modify_task mytask (\<lambda>t. t\<lparr>task_next := None\<rparr>) m1)
        else
          bind_res (modify_task (taskQ_rear p) (\<lambda>t. t\<lparr>task_next := mytask\<rparr>) m) (\<lambda>m1.
          bind_res (modify_task mytask (\<lambda>t. t\<lparr>task_next := None\<rparr>) m1) (\<lambda>m2.
          modify_pool pool (\<lambda>p. p\<lparr>taskQ_rear := mytask\<rparr>) m2)))
       (modify_pool pool (\<lambda>p. p\<lparr>no_of_tasks_in_Q := no_of_tasks_in_Q p + 1\<rparr>)))"

text \<open>
  The body of the worker's inner loop, and what it does once there is a task: take it, signal if it
  was the last, release the mutex.
\<close>

definition pt_wait :: "'e pthread_ops \<Rightarrow> ptr \<Rightarrow> pool_mem \<times> 'e \<Rightarrow> 'e res" where
  "pt_wait ops pool = (\<lambda>(m, e).
     bind_res (load (pools m) pool) (\<lambda>p.
     bind_res (p_unlock ops (pool_mutex p) e) (\<lambda>(_, e1).
     bind_res (p_wait ops (pool_cond p) (pool_mutex p) e1) (\<lambda>(_, e2). Inr e2))))"

definition pt_take_and_release :: "'e pthread_ops \<Rightarrow> ptr \<Rightarrow> pool_mem \<times> 'e \<Rightarrow> (ptr \<times> pool_mem \<times> 'e) res" where
  "pt_take_and_release ops pool = (\<lambda>(m, e).
     bind_res (take_task pool m) (\<lambda>(cur, m1).
     bind_res (load (pools m1) pool) (\<lambda>p.
     bind_res (if no_of_tasks_in_Q p = 0 then p_signal ops (pool_cond p) e else Inr (0, e)) (\<lambda>(_, e1).
     bind_res (p_unlock ops (pool_mutex p) e1) (\<lambda>(_, e2).
     Inr (cur, m1, e2))))))"

fun pt_scheduler ::
  "'e pthread_ops \<Rightarrow> (nat \<Rightarrow> int \<Rightarrow> pool_mem \<times> 'e \<Rightarrow> (pool_mem \<times> 'e) res) \<Rightarrow> ptr \<Rightarrow> worker_at \<Rightarrow>
     pool_mem \<times> 'e \<Rightarrow> (worker_at \<times> pool_mem \<times> 'e) res"
where
  "pt_scheduler ops call pool At_lock (m, e) =
     bind_res (load (pools m) pool) (\<lambda>p.
     bind_res (p_lock ops (pool_mutex p) e) (\<lambda>(_, e1). Inr (At_test, m, e1)))"
| "pt_scheduler ops call pool At_test (m, e) =
     bind_res (load (pools m) pool) (\<lambda>p.
     if no_of_tasks_in_Q p = 0 then
       bind_res (pt_wait ops pool (m, e)) (\<lambda>e1. Inr (At_test, m, e1))
     else
       bind_res (pt_take_and_release ops pool (m, e)) (\<lambda>(cur, m1, e1). Inr (At_run cur, m1, e1)))"
| "pt_scheduler ops call pool (At_run cur) (m, e) =
     bind_res (load (tasks m) cur) (\<lambda>t.
     case task_func t of
       None \<Rightarrow> Inl NullDeref
     | Some f \<Rightarrow>
         bind_res (call f (task_arg t) (m, e)) (\<lambda>(m1, e1).
         bind_res (free_cell (tasks m1) cur) (\<lambda>T. Inr (At_lock, m1\<lparr>tasks := T\<rparr>, e1))))"

text \<open>A pool whose threads could not all be made is answered as NULL; nothing of it is released.\<close>

fun pt_create_workers ::
  "'e pthread_ops \<Rightarrow> pool_env \<Rightarrow> nat \<Rightarrow> nat \<Rightarrow> nat \<Rightarrow> pool_mem \<times> 'e \<Rightarrow> (bool \<times> pool_mem \<times> 'e) res" where
  "pt_create_workers ops env pool i 0 (m, e) = Inr (True, m, e)"
| "pt_create_workers ops env pool i (Suc n) (m, e) =
     bind_res (p_create ops (threads_at env + i) worker_routine (int pool) e) (\<lambda>(r, e1).
     if r \<noteq> 0 then Inr (False, m, e1)
     else
       bind_res (modify_pool (Some pool) (\<lambda>p. p\<lparr>no_of_threads := no_of_threads p + 1,
            no_of_running_threads := no_of_running_threads p + 1\<rparr>) m) (\<lambda>m1.
       pt_create_workers ops env pool (Suc i) n (m1, e1)))"

definition pt_create_threadpool ::
  "'e pthread_ops \<Rightarrow> pool_env \<Rightarrow> int \<Rightarrow> pool_mem \<times> 'e \<Rightarrow> (ptr \<times> pool_mem \<times> 'e) res" where
  "pt_create_threadpool ops env num_threads_in_pool = (\<lambda>(m, e).
     if num_threads_in_pool \<le> 0 \<or> num_threads_in_pool > MAXT_IN_POOL then Inr (None, m, e)
     else
       let (pool, P) = malloc (pools m)
         \<lparr>no_of_threads = num_threads_in_pool, no_of_tasks_in_Q = 0,
           no_of_running_threads = junk_running env, pool_mutex = mutex_at env,
           pool_cond = cond_at env, pool_threads = threads_at env,
           taskQ_front = None, taskQ_rear = None\<rparr>
       in case pool of
            None \<Rightarrow> Inr (None, m, e)
          | Some a \<Rightarrow>
              if \<not> array_ok env then Inr (None, m\<lparr>pools := P\<rparr>, e)
              else
                let m1 = new_array (threads_at env) (nat num_threads_in_pool) (m\<lparr>pools := P\<rparr>) in
                bind_res (p_mutex_init ops (mutex_at env) e) (\<lambda>(r1, e1).
                if r1 \<noteq> 0 then Inr (None, m1, e1)
                else
                  bind_res (p_cond_init ops (cond_at env) e1) (\<lambda>(r2, e2).
                  if r2 \<noteq> 0 then Inr (None, m1, e2)
                  else
                    bind_res (pt_create_workers ops env a 0 (nat num_threads_in_pool) (m1, e2))
                      (\<lambda>(made, m3, e3). Inr (if made then pool else None, m3, e3)))))"

definition pt_dispatch ::
  "'e pthread_ops \<Rightarrow> ptr \<Rightarrow> nat option \<Rightarrow> int \<Rightarrow> pool_mem \<times> 'e \<Rightarrow> (pool_mem \<times> 'e) res" where
  "pt_dispatch ops from_me dispatch_to_here a = (\<lambda>(m, e).
     bind_res (make_task dispatch_to_here a m) (\<lambda>(mytask, m1).
     bind_res (load (pools m1) from_me) (\<lambda>p.
     bind_res (p_lock ops (pool_mutex p) e) (\<lambda>(_, e1).
     bind_res (pt_push_task from_me mytask m1) (\<lambda>m2.
     bind_res (p_signal ops (pool_cond p) e1) (\<lambda>(_, e2).
     bind_res (p_signal ops (pool_cond p) e2) (\<lambda>(_, e3).
     bind_res (p_unlock ops (pool_mutex p) e3) (\<lambda>(_, e4). Inr (m2, e4)))))))))"

definition pt_destroy_threadpool :: "'e pthread_ops \<Rightarrow> ptr \<Rightarrow> pool_mem \<times> 'e \<Rightarrow> (pool_mem \<times> 'e) res" where
  "pt_destroy_threadpool ops destroyme = (\<lambda>(m, e).
     bind_res (load (pools m) destroyme) (\<lambda>p.
     bind_res (free_array (pool_threads p) m) (\<lambda>(_, m1).
     bind_res (p_mutex_destroy ops (pool_mutex p) e) (\<lambda>(_, e1).
     bind_res (p_cond_destroy ops (pool_cond p) e1) (\<lambda>(_, e2). Inr (m1, e2))))))"

text \<open>
  \<open>threadpool_test_pthread.c\<close>: a pool of two threads, six jobs, and \<open>exit (-1)\<close>. What the workers do before the
  next call of \<open>main\<close> is \<open>others\<close>. Printing and \<open>sleep\<close> are left out.
\<close>

fun pt_dispatches ::
  "'e pthread_ops \<Rightarrow> (pool_mem \<times> 'e \<Rightarrow> pool_mem \<times> 'e) \<Rightarrow> ptr \<Rightarrow> nat option \<Rightarrow> int list \<Rightarrow> pool_mem \<times> 'e \<Rightarrow> (pool_mem \<times> 'e) res" where
  "pt_dispatches ops others tp f [] st = Inr st"
| "pt_dispatches ops others tp f (v # vs) st =
     bind_res (pt_dispatch ops tp f v (others st)) (pt_dispatches ops others tp f vs)"

definition pool_test_pthread ::
  "'e pthread_ops \<Rightarrow> pool_env \<Rightarrow> (pool_mem \<times> 'e \<Rightarrow> pool_mem \<times> 'e) \<Rightarrow> pool_mem \<times> 'e \<Rightarrow> (int \<times> pool_mem \<times> 'e) res" where
  "pool_test_pthread ops penv others st =
     bind_res (pt_create_threadpool ops penv 2 st) (\<lambda>(tp, st1).
     bind_res (pt_dispatches ops others tp (Some 0) [3, 6, 7, 3, 6, 7] st1) (\<lambda>st2. Inr (-1, st2)))"

lemma pt_push_task_eq: "pt_push_task = push_task"
  by (simp add: fun_eq_iff pt_push_task_def push_task_def)

section \<open>Properties\<close>

text \<open>
  C38: a worker of the pthread pool waits without the mutex. It releases the mutex and then calls
  \<open>pthread_cond_wait\<close>, which POSIX leaves undefined for a caller that does not hold the mutex: with a
  library that unlocks as documented, every worker that holds the mutex and finds no task gets
  there. (The worker of \<open>threadpool.c\<close> waits with the mutex held.)
\<close>

theorem pthread_worker_waits_unlocked:
  assumes unlock: "\<And>x e. held x e \<Longrightarrow> \<exists>e'. p_unlock ops x e = Inr (0, e') \<and> \<not> held x e'"
    and wait: "\<And>c x e. \<not> held x e \<Longrightarrow> p_wait ops c x e = Inl Undefined"
    and p: "cells (pools m) a = Some p" "no_of_tasks_in_Q p = 0" "held (pool_mutex p) e"
  shows "pt_scheduler ops call (Some a) At_test (m, e) = Inl Undefined"
proof -
  obtain e1 where "p_unlock ops (pool_mutex p) e = Inr (0, e1)" "\<not> held (pool_mutex p) e1"
    using unlock [OF p(3)] by blast
  with p(1,2) wait show ?thesis by (simp add: pt_wait_def)
qed

text \<open>A library whose state is the set of mutexes that are held.\<close>

definition set_pthreads :: "nat set pthread_ops" where
  "set_pthreads =
     \<lparr>p_mutex_init = \<lambda>x e. Inr (0, e - {x}), p_cond_init = \<lambda>c e. Inr (0, e),
      p_mutex_destroy = \<lambda>x e. Inr (0, e - {x}), p_cond_destroy = \<lambda>c e. Inr (0, e),
      p_create = \<lambda>t f x e. Inr (0, e),
      p_lock = \<lambda>x e. if x \<in> e then Inl SysBlocked else Inr (0, insert x e),
      p_unlock = \<lambda>x e. if x \<in> e then Inr (0, e - {x}) else Inl Undefined,
      p_wait = \<lambda>c x e. if x \<in> e then Inl SysBlocked else Inl Undefined,
      p_signal = \<lambda>c e. Inr (0, e)\<rparr>"

definition idle_pool :: pool_mem where
  "idle_pool =
     \<lparr>pools = \<lparr>cells = [0 \<mapsto> \<lparr>no_of_threads = 4, no_of_tasks_in_Q = 0, no_of_running_threads = 2,
                 pool_mutex = 1, pool_cond = 1, pool_threads = 3, taskQ_front = None, taskQ_rear = None\<rparr>],
               fresh = 1, room = 5\<rparr>,
      tasks = \<lparr>cells = Map.empty, fresh = 0, room = 9\<rparr>, arrays = [3 \<mapsto> 2]\<rparr>"

theorem pthread_worker_waits_unlocked_witness:
  "pt_scheduler set_pthreads (\<lambda>_ _ st. Inr st) (Some 0) At_test (idle_pool, {1}) = Inl Undefined"
proof -
  obtain p where p: "cells (pools idle_pool) 0 = Some p" "no_of_tasks_in_Q p = 0" "pool_mutex p = 1"
    by (simp add: idle_pool_def)
  show ?thesis
    by (rule pthread_worker_waits_unlocked [where held = "\<lambda>x e. x \<in> e", OF _ _ p(1,2)])
      (simp_all add: set_pthreads_def p(3))
qed

text \<open>Pushing a job leaves the mutex and the condition of the pool alone.\<close>

lemma queue_job_mutex:
  assumes "queue_job a j m = Inr m'" "cells (pools m) a = Some p"
  shows "\<exists>p'. cells (pools m') a = Some p' \<and> pool_mutex p' = pool_mutex p \<and> pool_cond p' = pool_cond p"
  using assms
  by (auto simp: queue_job_def make_task_def push_task_def modify_pool_def modify_task_def bind_res_Inr_iff
      malloc_def split: if_splits prod.splits)

text \<open>
  A library in which a lock that is free can be taken, and a signal changes no lock; \<open>held\<close> says which
  mutexes are held.
\<close>

definition locks_work :: "'e pthread_ops \<Rightarrow> (nat \<Rightarrow> 'e \<Rightarrow> bool) \<Rightarrow> bool" where
  "locks_work ops held \<longleftrightarrow>
     (\<forall>x e. \<not> held x e \<longrightarrow> (\<exists>e'. p_lock ops x e = Inr (0, e') \<and> held x e')) \<and>
     (\<forall>x e. held x e \<longrightarrow> (\<exists>e'. p_unlock ops x e = Inr (0, e') \<and> \<not> held x e')) \<and>
     (\<forall>c e. \<exists>e'. p_signal ops c e = Inr (0, e') \<and> (\<forall>x. held x e' = held x e))"

lemma pt_dispatch_queues:
  assumes w: "locks_work ops held" and p: "cells (pools m) a = Some p" "\<not> held (pool_mutex p) e"
    and q: "task_queue a m xs" "0 < room (tasks m)"
  obtains m1 e1 p1 where "pt_dispatch ops (Some a) f v (m, e) = Inr (m1, e1)"
    "task_queue a m1 (xs @ [(fresh (tasks m), (f, v))])" "Suc (room (tasks m1)) = room (tasks m)" "\<not> held (pool_mutex p) e1"
    "cells (pools m1) a = Some p1" "pool_mutex p1 = pool_mutex p" "pool_cond p1 = pool_cond p"
proof -
  obtain m1 where m1: "queue_job a (f, v) m = Inr m1"
    "task_queue a m1 (xs @ [(fresh (tasks m), (f, v))])" "Suc (room (tasks m1)) = room (tasks m)"
    "\<forall>b. b \<noteq> a \<longrightarrow> cells (pools m1) b = cells (pools m) b"
    by (rule queue_job_rep [OF q])
  obtain p1 where p1: "cells (pools m1) a = Some p1" "pool_mutex p1 = pool_mutex p" "pool_cond p1 = pool_cond p"
    using queue_job_mutex [OF m1(1) p(1)] by blast
  obtain t m0 where t: "make_task f v m = Inr (t, m0)" "push_task (Some a) t m0 = Inr m1" "pools m0 = pools m"
    using m1(1) by (auto simp: queue_job_def bind_res_Inr_iff make_task_def Let_def split: prod.splits if_splits)
  obtain e1 where e1: "p_lock ops (pool_mutex p) e = Inr (0, e1)" "held (pool_mutex p) e1"
    using w p(2) unfolding locks_work_def by blast
  obtain e2 where e2: "p_signal ops (pool_cond p) e1 = Inr (0, e2)" "held (pool_mutex p) e2"
    using w e1(2) unfolding locks_work_def by meson
  obtain e3 where e3: "p_signal ops (pool_cond p) e2 = Inr (0, e3)" "held (pool_mutex p) e3"
    using w e2(2) unfolding locks_work_def by meson
  obtain e4 where e4: "p_unlock ops (pool_mutex p) e3 = Inr (0, e4)" "\<not> held (pool_mutex p) e4"
    using w e3(2) unfolding locks_work_def by blast
  have "pt_dispatch ops (Some a) f v (m, e) = Inr (m1, e4)"
    using t p(1) e1(1) e2(1) e3(1) e4(1) by (simp add: pt_dispatch_def pt_push_task_eq)
  with m1(2,3) e4(2) p1 show ?thesis by (intro that)
qed

text \<open>The six jobs of \<open>threadpool_test_pthread.c\<close>, and any others, queue up while no worker runs.\<close>

lemma pt_dispatches_queue:
  assumes w: "locks_work ops held"
  shows "\<lbrakk>cells (pools m) a = Some p; \<not> held (pool_mutex p) e; task_queue a m xs; length vs \<le> room (tasks m)\<rbrakk> \<Longrightarrow>
    \<exists>m' e' ts. pt_dispatches ops (\<lambda>st. st) (Some a) f vs (m, e) = Inr (m', e') \<and> \<not> held (pool_mutex p) e' \<and>
      length ts = length vs \<and> task_queue a m' (xs @ zip ts (map (\<lambda>v. (f, v)) vs))"
proof (induction vs arbitrary: m e p xs)
  case (Cons v vs)
  have room: "0 < room (tasks m)" using Cons.prems(4) by simp
  obtain m1 e1 p1 where 1: "pt_dispatch ops (Some a) f v (m, e) = Inr (m1, e1)"
    "task_queue a m1 (xs @ [(fresh (tasks m), (f, v))])" "Suc (room (tasks m1)) = room (tasks m)" "\<not> held (pool_mutex p) e1"
    "cells (pools m1) a = Some p1" "pool_mutex p1 = pool_mutex p" "pool_cond p1 = pool_cond p"
    by (rule pt_dispatch_queues [OF w Cons.prems(1-3) room])
  have "\<not> held (pool_mutex p1) e1" "length vs \<le> room (tasks m1)" using 1 Cons.prems(4) by simp_all
  from Cons.IH [OF 1(5) this(1) 1(2) this(2)] obtain m' e' ts where
    "pt_dispatches ops (\<lambda>st. st) (Some a) f vs (m1, e1) = Inr (m', e')" "\<not> held (pool_mutex p1) e'" "length ts = length vs"
    "task_queue a m' ((xs @ [(fresh (tasks m), (f, v))]) @ zip ts (map (\<lambda>v. (f, v)) vs))" by blast
  with 1 show ?case by (intro exI [of _ m'] exI [of _ e'] exI [of _ "fresh (tasks m) # ts"]) simp
qed (auto intro: exI [of _ "[]"])

text \<open>
  The pthread pool hands jobs over as \<open>threadpool.c\<close> does. With a library in which a lock that is
  free can be taken, and a signal changes no lock, a dispatch appends its job behind those queued and
  releases the mutex; and a worker that then gets the mutex takes the oldest job of the queue.
\<close>

theorem pthread_dispatch_then_take:
  assumes w: "locks_work ops held"
    and p: "cells (pools m) a = Some p" "\<not> held (pool_mutex p) e"
    and q: "task_queue a m xs" "0 < room (tasks m)"
  shows "\<exists>m1 e1 m2 e2 m3 e3 t. pt_dispatch ops (Some a) f v (m, e) = Inr (m1, e1) \<and>
    task_queue a m1 (xs @ [(t, (f, v))]) \<and> \<not> held (pool_mutex p) e1 \<and>
    pt_scheduler ops call (Some a) At_lock (m1, e1) = Inr (At_test, m2, e2) \<and>
    pt_scheduler ops call (Some a) At_test (m2, e2) =
      Inr (At_run (Some (fst (hd (xs @ [(t, (f, v))])))), m3, e3) \<and>
    task_queue a m3 (tl (xs @ [(t, (f, v))])) \<and> \<not> held (pool_mutex p) e3"
proof -
  let ?ys = "xs @ [(fresh (tasks m), (f, v))]"
  obtain m1 e4 p1 where m1: "pt_dispatch ops (Some a) f v (m, e) = Inr (m1, e4)" "task_queue a m1 ?ys"
    "Suc (room (tasks m1)) = room (tasks m)" "\<not> held (pool_mutex p) e4"
    and p1: "cells (pools m1) a = Some p1" "pool_mutex p1 = pool_mutex p" "pool_cond p1 = pool_cond p"
    by (rule pt_dispatch_queues [OF w p q])
  obtain y ys where y: "?ys = y # ys" by (cases ?ys) auto
  obtain e5 where e5: "p_lock ops (pool_mutex p) e4 = Inr (0, e5)" "held (pool_mutex p) e5"
    using w m1(4) unfolding locks_work_def by blast
  obtain m2 where m2: "take_task (Some a) m1 = Inr (Some (fst y), m2)" "tasks m2 = tasks m1"
    "cells (tasks m1) (fst y) = Some (mktask None (snd y) (first_addr ys None))"
    "\<forall>T. (\<forall>z\<in>set ys. cells T (fst z) = cells (tasks m1) (fst z)) \<and> heap_ok T \<longrightarrow>
       task_queue a (m2\<lparr>tasks := T\<rparr>) ys"
    "\<forall>b. b \<noteq> a \<longrightarrow> cells (pools m2) b = cells (pools m1) b"
    "\<exists>p p'. cells (pools m1) a = Some p \<and> cells (pools m2) a = Some p' \<and>
       pool_mutex p' = pool_mutex p \<and> pool_cond p' = pool_cond p \<and> no_of_tasks_in_Q p' = int (length ys)"
    by (rule take_task_rep [OF m1(2) [unfolded y]])
  from m2(6) p1 obtain p2 where p2: "cells (pools m2) a = Some p2" "pool_mutex p2 = pool_mutex p"
    "pool_cond p2 = pool_cond p" by auto
  have ok: "heap_ok (tasks m1)" and n: "no_of_tasks_in_Q p1 \<noteq> 0"
    using m1(2) p1(1) by (auto simp: task_queue_def)
  have "task_queue a (m2\<lparr>tasks := tasks m1\<rparr>) ys" using m2(4) ok by blast
  moreover have "m2\<lparr>tasks := tasks m1\<rparr> = m2" using m2(2) by (cases m2) simp
  ultimately have q2: "task_queue a m2 ys" by simp
  obtain e6 where e6: "(if no_of_tasks_in_Q p2 = 0 then p_signal ops (pool_cond p) e5 else Inr (0, e5)) = Inr (0, e6)"
    "held (pool_mutex p) e6"
    using w e5(2) unfolding locks_work_def by (cases "no_of_tasks_in_Q p2 = 0") fastforce+
  obtain e7 where e7: "p_unlock ops (pool_mutex p) e6 = Inr (0, e7)" "\<not> held (pool_mutex p) e7"
    using w e6(2) unfolding locks_work_def by blast
  have wk: "pt_scheduler ops call (Some a) At_lock (m1, e4) = Inr (At_test, m1, e5)"
    using p1 e5(1) by simp
  have "pt_take_and_release ops (Some a) (m1, e5) = Inr (Some (fst y), m2, e7)"
    using m2(1) p2 e6(1) e7(1) by (auto simp: pt_take_and_release_def split: if_splits)
  then have "pt_scheduler ops call (Some a) At_test (m1, e5) = Inr (At_run (Some (fst y)), m2, e7)"
    using p1(1) n by simp
  with m1(1,2,4) wk q2 e7(2) y show ?thesis
    by (intro exI [of _ m1] exI [of _ e4] exI [of _ e5] exI [of _ m2] exI [of _ e7] exI [of _ "fresh (tasks m)"]) simp
qed

theorem pthread_dispatch_then_take_witness:
  "\<exists>m1 e1 m2 e2 t. pt_dispatch set_pthreads (Some 0) (Some 11) 5 (idle_pool, {}) = Inr (m1, e1) \<and>
    pt_scheduler set_pthreads (\<lambda>_ _ st. Inr st) (Some 0) At_lock (m1, e1) = Inr (At_test, m2, e2) \<and>
    task_queue 0 m1 [(t, (Some 11, 5))]"
proof -
  obtain p where p: "cells (pools idle_pool) 0 = Some p" "pool_mutex p \<notin> {}" by (simp add: idle_pool_def)
  have q: "task_queue 0 idle_pool []" "0 < room (tasks idle_pool)"
    by (simp_all add: task_queue_def idle_pool_def queue_rep_def heap_ok_def)
  have w: "locks_work set_pthreads (\<lambda>x e. x \<in> e)" by (simp add: locks_work_def set_pthreads_def)
  from pthread_dispatch_then_take [OF w p q, of "Some 11" 5] show ?thesis
    by simp blast
qed

end
