(* ===== verification/Hw1.thy ===== *)
theory Hw1
  imports C_Memory Utilities
begin

text \<open>
  The first homework, \<open>hw1/\<close>: the circular queue of threads (\<open>mypthread.c\<close>, and once more in
  \<open>mypthread_queue.c\<close>), thread creation with its policies, and the number of cores read from
  \<open>/proc/cpuinfo\<close> (\<open>kernelthreadcount.c\<close>). Thread control blocks and queue nodes have a heap each.
\<close>

section \<open>Data\<close>

datatype hw1_state = HW_ACTIVE | HW_BLOCKED | HW_DEAD

record tcb =
  tcb_id :: int
  tcb_state :: hw1_state
  tcb_ctx :: ptr

record thread_node =
  tn_tcb :: ptr
  tn_next :: ptr

record hw1 =
  policy_defined :: int
  no_of_kt :: int
  thread_count :: int
  hw_front :: ptr
  hw_rear :: ptr
  hw_nodes :: "thread_node heap"
  hw_tcbs :: "tcb heap"

section \<open>The queue\<close>

definition push_thread :: "ptr \<Rightarrow> hw1 \<Rightarrow> hw1 res" where
  "push_thread t s =
     (let (temp, N) = malloc (hw_nodes s) \<lparr>tn_tcb = t, tn_next = None\<rparr>
      in if temp = None then Inl NullDeref
         else
           bind_res
             (if hw_front s = None then Inr (s\<lparr>hw_front := temp, hw_rear := temp, hw_nodes := N\<rparr>)
              else bind_res (modify N (hw_rear s) (\<lambda>n. n\<lparr>tn_next := temp\<rparr>)) (\<lambda>N1.
                   bind_res (load N1 (hw_rear s)) (\<lambda>r.
                   Inr (s\<lparr>hw_rear := tn_next r, hw_nodes := N1\<rparr>)))) (\<lambda>s1.
           bind_res (modify (hw_nodes s1) (hw_rear s1) (\<lambda>n. n\<lparr>tn_next := hw_front s1\<rparr>)) (\<lambda>N2.
           Inr (s1\<lparr>hw_nodes := N2\<rparr>))))"

text \<open>
  \<open>pop_thread\<close> always allocates a control block; the queue is taken as empty also when it has one
  element. \<open>junk\<close> is what the fresh block holds.
\<close>

definition pop_thread :: "tcb \<Rightarrow> hw1 \<Rightarrow> (ptr \<times> hw1) res" where
  "pop_thread junk s =
     (let (t, T) = malloc (hw_tcbs s) junk; s1 = s\<lparr>hw_tcbs := T\<rparr>
      in if hw_front s1 = hw_rear s1 \<or> hw_front s1 = None then Inr (t, s1)
         else
           bind_res (load (hw_nodes s1) (hw_front s1)) (\<lambda>temp.
           bind_res (modify (hw_nodes s1) (hw_rear s1) (\<lambda>n. n\<lparr>tn_next := tn_next temp\<rparr>)) (\<lambda>N1.
           bind_res (free_cell N1 (hw_front s1)) (\<lambda>N2.
           Inr (tn_tcb temp, s1\<lparr>hw_front := tn_next temp, hw_nodes := N2\<rparr>)))))"

text \<open>
  \<open>traverse\<close>: the ids that are printed. Without a front it prints nothing and then follows the NULL
  pointer.
\<close>

fun traverse_loop :: "nat \<Rightarrow> hw1 \<Rightarrow> ptr \<Rightarrow> int list res" where
  "traverse_loop 0 s temp = Inl Diverges"
| "traverse_loop (Suc fuel) s temp =
     bind_res (load (hw_nodes s) temp) (\<lambda>n.
     if tn_next n \<noteq> hw_front s then
       bind_res (load (hw_tcbs s) (tn_tcb n)) (\<lambda>t.
       bind_res (traverse_loop fuel s (tn_next n)) (\<lambda>ids. Inr (tcb_id t # ids)))
     else Inr [])"

definition traverse :: "hw1 \<Rightarrow> int list res" where
  "traverse s =
     bind_res
       (if hw_front s \<noteq> None then
          bind_res (load (hw_nodes s) (hw_front s)) (\<lambda>n.
          bind_res (load (hw_tcbs s) (tn_tcb n)) (\<lambda>t. Inr [tcb_id t]))
        else Inr []) (\<lambda>first.
     bind_res (traverse_loop (Suc (fresh (hw_nodes s))) s (hw_front s)) (\<lambda>ids. Inr (first @ ids)))"

text \<open>
  \<open>mypthread_queue.c\<close> has the same \<open>push\<close>; its \<open>pop\<close> prints with a character constant for a format,
  which \<open>printf\<close> follows as a pointer.
\<close>

definition push :: "ptr \<Rightarrow> hw1 \<Rightarrow> hw1 res" where
  "push = push_thread"

definition pop :: "tcb \<Rightarrow> hw1 \<Rightarrow> (ptr \<times> hw1) res" where
  "pop junk s = (if hw_front s = hw_rear s \<or> hw_front s = None then Inl Dangling else pop_thread junk s)"

definition queue_traverse :: "hw1 \<Rightarrow> int list res" where
  "queue_traverse s = traverse_loop (Suc (fresh (hw_nodes s))) s (hw_front s)"

text \<open>
  Its \<open>main\<close> queues four threads in the state 1 (\<open>PS_BLOCKED\<close>), takes one out, and prints the id of that
  one and those \<open>traverse\<close> finds. What fresh blocks hold is \<open>junk\<close>.
\<close>

definition queue_thread :: "tcb \<Rightarrow> int \<Rightarrow> hw1 \<Rightarrow> hw1 res" where
  "queue_thread junk i s =
     (let (t, T) = malloc (hw_tcbs s) junk in
      bind_res (modify T t (\<lambda>b. b\<lparr>tcb_id := i, tcb_state := HW_BLOCKED\<rparr>)) (\<lambda>T1.
      push t (s\<lparr>hw_tcbs := T1\<rparr>)))"

definition queue_main :: "tcb \<Rightarrow> hw1 \<Rightarrow> (int \<times> int list) res" where
  "queue_main junk s =
     bind_res (queue_thread junk 1 s) (\<lambda>s1.
     bind_res (queue_thread junk 2 s1) (\<lambda>s2.
     bind_res (queue_thread junk 3 s2) (\<lambda>s3.
     bind_res (queue_thread junk 4 s3) (\<lambda>s4.
     bind_res (pop junk s4) (\<lambda>(tcb4, s5).
     bind_res (load (hw_tcbs s5) tcb4) (\<lambda>b.
     bind_res (queue_traverse s5) (\<lambda>ids. Inr (tcb_id b, ids))))))))"

section \<open>The number of cores\<close>

fun is_prefix :: "string \<Rightarrow> string \<Rightarrow> bool" where
  "is_prefix [] ys = True"
| "is_prefix (x # xs) [] = False"
| "is_prefix (x # xs) (y # ys) = (x = y \<and> is_prefix xs ys)"

fun strstr :: "string \<Rightarrow> string \<Rightarrow> bool" where
  "strstr [] pat = is_prefix pat []"
| "strstr (c # cs) pat = (is_prefix pat (c # cs) \<or> strstr cs pat)"

text \<open>\<open>strtok\<close>: skip delimiters, then the token up to the next one and what is behind it.\<close>

definition strtok :: "char \<Rightarrow> string \<Rightarrow> (string \<times> string) option" where
  "strtok delim str =
     (let rest = dropWhile (\<lambda>c. c = delim) str
      in if rest = [] then None
         else Some (takeWhile (\<lambda>c. c \<noteq> delim) rest, drop 1 (dropWhile (\<lambda>c. c \<noteq> delim) rest)))"

text \<open>The lines are those \<open>fgets\<close> reads; after the last one the array keeps it.\<close>

fun find_line :: "string \<Rightarrow> string list \<Rightarrow> string" where
  "find_line tmp [] = tmp"
| "find_line tmp (l # ls) = (if strstr l ''cpu cores'' then l else find_line l ls)"

fun token_loop :: "nat \<Rightarrow> int \<Rightarrow> (string \<times> string) option \<Rightarrow> int" where
  "token_loop 0 no_of_core tok = no_of_core"
| "token_loop (Suc fuel) no_of_core tok =
     (case tok of
        None \<Rightarrow> no_of_core
      | Some (pch, rest) \<Rightarrow>
          token_loop fuel (if \<not> strstr pch ''cpu cores'' then atoi pch else no_of_core)
            (strtok (CHR '' '') rest))"

text \<open>
  \<open>lines\<close> is None if the file cannot be opened, \<open>junk\<close> the uninitialised \<open>no_of_core\<close>. Every token takes a
  character off the string, which bounds the loop.
\<close>

definition get_no_of_cores :: "string list option \<Rightarrow> int \<Rightarrow> int" where
  "get_no_of_cores lines junk =
     (let tmp = (case lines of None \<Rightarrow> [] | Some ls \<Rightarrow> find_line [] ls)
      in token_loop (Suc (length tmp)) junk (strtok (CHR '':'') tmp))"

text \<open>C's division truncates, and a division by zero stops the process (\<open>ExitProcess\<close> with \<open>SIGFPE\<close>).\<close>

definition get_no_of_hyperthreads :: "int \<Rightarrow> string list option \<Rightarrow> int \<Rightarrow> int res" where
  "get_no_of_hyperthreads num_cpus lines junk =
     (let c = get_no_of_cores lines junk
      in if c = 0 then Inl (ExitProcess 8) else Inr (sgn num_cpus * sgn c * (\<bar>num_cpus\<bar> div \<bar>c\<bar>)))"

section \<open>Creating threads\<close>

text \<open>
  The kernel thread for a policy: \<open>cloned\<close> is what \<open>clone\<close> answers. The result is whether it was called;
  \<open>no_of_kt\<close> is never written.
\<close>

definition mypthread_create_start ::
  "string list option \<Rightarrow> int \<Rightarrow> int \<Rightarrow> int \<Rightarrow> hw1 \<Rightarrow> bool res" where
  "mypthread_create_start lines junk num_cpus cloned s =
     (let clone = (if cloned = -1 then Inl (ExitProcess 2) else Inr True) in
      if policy_defined s = 0 then Inr False
      else if policy_defined s = 1 then
        (if no_of_kt s < get_no_of_cores lines junk then clone else Inr False)
      else if policy_defined s = 2 then
        bind_res (get_no_of_hyperthreads num_cpus lines junk) (\<lambda>h.
        if no_of_kt s < h then clone else Inr False)
      else if policy_defined s = 3 then clone
      else Inr False)"

definition hw1_init :: "int \<Rightarrow> hw1 \<Rightarrow> hw1" where
  "hw1_init kt s = s\<lparr>policy_defined := kt\<rparr>"

text \<open>\<open>test.c\<close> sets the policy and ends.\<close>

definition hw1_test_main :: "hw1 \<Rightarrow> int \<times> hw1" where
  "hw1_test_main s = (0, hw1_init 0 s)"

text \<open>
  \<open>mypthread_create\<close> on the client's control block \<open>thread\<close>. The contexts are values the queue never
  looks at; \<open>Some 0\<close> stands for one that has been made.
\<close>

definition main_block :: "hw1 \<Rightarrow> hw1 res" where
  "main_block s =
     (if thread_count s \<le> 0 then
        (let n = thread_count s + 1;
             (m, T) = malloc (hw_tcbs s) \<lparr>tcb_id = n, tcb_state = HW_ACTIVE, tcb_ctx = Some 0\<rparr>
         in if m = None then Inl NullDeref
            else push_thread m (s\<lparr>thread_count := n, hw_tcbs := T\<rparr>))
      else Inr s)"

definition hw1_create ::
  "string list option \<Rightarrow> int \<Rightarrow> int \<Rightarrow> int \<Rightarrow> ptr \<Rightarrow> hw1 \<Rightarrow> (int \<times> hw1) res" where
  "hw1_create lines junk num_cpus cloned thread s =
     bind_res (mypthread_create_start lines junk num_cpus cloned s) (\<lambda>_.
     bind_res (main_block s) (\<lambda>s1.
     bind_res (modify (hw_tcbs s1) thread
       (\<lambda>t. t\<lparr>tcb_ctx := Some 0, tcb_state := HW_ACTIVE, tcb_id := thread_count s1\<rparr>)) (\<lambda>T.
     bind_res (push_thread thread (s1\<lparr>hw_tcbs := T, thread_count := thread_count s1 + 1\<rparr>)) (\<lambda>s2.
     Inr (0, s2)))))"

end
