(* ===== verification/Hw1_Properties.thy ===== *)
theory Hw1_Properties
  imports Hw1 Linked_Lists Interfaces
begin

text \<open>
  The properties of the first homework: its queue is a ring that never gives up its last element, and
  its first two threads have the same id.
\<close>

abbreviation mkn :: "ptr \<Rightarrow> ptr \<Rightarrow> ptr \<Rightarrow> thread_node" where
  "mkn p t n \<equiv> \<lparr>tn_tcb = t, tn_next = n\<rparr>"

text \<open>The nodes of the ring with the control blocks they point to; the last node points to the first.\<close>

definition ring :: "hw1 \<Rightarrow> (nat \<times> ptr) list \<Rightarrow> bool" where
  "ring s xs \<longleftrightarrow> heap_ok (hw_nodes s) \<and> distinct (map fst xs) \<and>
     (if xs = [] then hw_front s = None
      else hw_front s = Some (fst (hd xs)) \<and> hw_rear s = Some (fst (last xs)) \<and>
           dll mkn (hw_nodes s) None xs (Some (fst (hd xs))))"

lemma ring_fresh: "ring s xs \<Longrightarrow> fresh (hw_nodes s) \<notin> fst ` set xs"
proof (cases "xs = []")
  case False
  assume r: "ring s xs"
  with False have d: "dll mkn (hw_nodes s) None xs (Some (fst (hd xs)))" and ok: "heap_ok (hw_nodes s)"
    by (simp_all add: ring_def)
  show ?thesis
  proof
    assume "fresh (hw_nodes s) \<in> fst ` set xs"
    then obtain x where "x \<in> set xs" "fst x = fresh (hw_nodes s)" by auto
    with dll_cells [OF d] ok show False by fastforce
  qed
qed simp

lemma push_thread_rep:
  assumes r: "ring s xs" and room: "0 < room (hw_nodes s)"
  obtains s' where "push_thread t s = Inr s'" "ring s' (xs @ [(fresh (hw_nodes s), t)])"
    "hw_tcbs s' = hw_tcbs s" "thread_count s' = thread_count s" "policy_defined s' = policy_defined s"
    "Suc (room (hw_nodes s')) = room (hw_nodes s)"
proof (cases xs rule: rev_cases)
  case Nil
  let ?f = "fresh (hw_nodes s)"
  let ?N = "(hw_nodes s)\<lparr>cells := (cells (hw_nodes s))(?f \<mapsto> mkn None t (Some ?f)), fresh := Suc ?f,
    room := room (hw_nodes s) - 1\<rparr>"
  let ?s = "s\<lparr>hw_front := Some ?f, hw_rear := Some ?f, hw_nodes := ?N\<rparr>"
  have "push_thread t s = Inr ?s"
    using r room Nil by (simp add: push_thread_def malloc_room ring_def)
  moreover have "heap_ok ?N" using r by (auto simp: ring_def heap_ok_iff less_Suc_eq split: if_splits)
  ultimately show ?thesis using Nil room by (intro that [of ?s]) (simp_all add: ring_def)
next
  case (snoc ys y)
  let ?f = "fresh (hw_nodes s)"
  let ?h = "Some (fst (hd xs))"
  let ?N = "(hw_nodes s)\<lparr>cells := (cells (hw_nodes s))(?f \<mapsto> mkn None t ?h, fst y \<mapsto> mkn None (snd y) (Some ?f)),
    fresh := Suc ?f, room := room (hw_nodes s) - 1\<rparr>"
  let ?s = "s\<lparr>hw_rear := Some ?f, hw_nodes := ?N\<rparr>"
  have ok: "heap_ok (hw_nodes s)" and d: "dll mkn (hw_nodes s) None (ys @ [y]) ?h" and dist: "distinct (map fst (ys @ [y]))"
    and fr: "hw_front s = ?h" "hw_rear s = Some (fst y)"
    using r snoc by (simp_all add: ring_def)
  have nf: "?f \<notin> fst ` set ys" "?f \<noteq> fst y" using ring_fresh [OF r] snoc by auto
  have c: "cells (hw_nodes s) (fst y) = Some (mkn None (snd y) ?h)" using d by simp
  have "push_thread t s = Inr ?s"
    using room fr c nf by (simp add: push_thread_def malloc_room fun_upd_twist)
  moreover have "heap_ok ?N"
    using ok c by (auto simp: heap_ok_iff less_Suc_eq split: if_splits)
  moreover have "dll mkn ?N None ys (Some (fst y)) = dll mkn (hw_nodes s) None ys (Some (fst y))"
    by (rule dll_cong_cells) (use dist nf in \<open>auto intro: rev_image_eqI\<close>)
  then have "dll mkn ?N None (xs @ [(?f, t)]) ?h" using d snoc nf by simp
  moreover have "hd (xs @ [(?f, t)]) = hd xs" using snoc by (cases ys) auto
  ultimately show ?thesis using snoc fr dist nf room by (intro that [of ?s]) (auto simp: ring_def)
qed

lemma first_addr_hd: "xs \<noteq> [] \<Longrightarrow> first_addr xs n = Some (fst (hd xs))"
  by (cases xs) simp_all

lemma pop_thread_many:
  assumes r: "ring s (x # zs @ [l])"
  obtains s' where "pop_thread junk s = Inr (snd x, s')" "ring s' (zs @ [l])"
proof -
  let ?h = "Some (fst (hd (zs @ [l])))"
  obtain t T where m: "malloc (hw_tcbs s) junk = (t, T)" by (cases "malloc (hw_tcbs s) junk")
  have ok: "heap_ok (hw_nodes s)" and d: "dll mkn (hw_nodes s) None (x # zs @ [l]) (Some (fst x))"
    and dist: "distinct (map fst (x # zs @ [l]))"
    and fr: "hw_front s = Some (fst x)" "hw_rear s = Some (fst l)"
    using r by (simp_all add: ring_def)
  have ne: "fst l \<noteq> fst x" "fst x \<notin> fst ` set zs" "fst l \<notin> fst ` set zs" using dist by auto
  have c: "cells (hw_nodes s) (fst x) = Some (mkn None (snd x) ?h)"
    "cells (hw_nodes s) (fst l) = Some (mkn None (snd l) (Some (fst x)))"
    using d first_addr_hd [of "zs @ [l]" "Some (fst x)"] by auto
  let ?N = "(hw_nodes s)\<lparr>cells := (cells (hw_nodes s))(fst l \<mapsto> mkn None (snd l) ?h, fst x := None),
    room := Suc (room (hw_nodes s))\<rparr>"
  let ?s = "s\<lparr>hw_tcbs := T, hw_front := ?h, hw_nodes := ?N\<rparr>"
  have "pop_thread junk s = Inr (snd x, ?s)"
    using m fr c ne by (simp add: pop_thread_def)
  moreover have "heap_ok ?N" using ok c by (auto simp: heap_ok_iff split: if_splits)
  moreover have "dll mkn ?N (Some (fst x)) zs (Some (fst l)) = dll mkn (hw_nodes s) (Some (fst x)) zs (Some (fst l))"
    by (rule dll_cong_cells) (use ne in \<open>auto intro: rev_image_eqI\<close>)
  then have "dll mkn ?N (Some (fst x)) (zs @ [l]) ?h" using d ne by simp
  moreover have "dll mkn ?N p ys n = dll mkn ?N q ys n" for p q ys n
    by (induction ys arbitrary: p q) auto
  ultimately show ?thesis using fr dist by (intro that [of ?s]) (auto simp: ring_def)
qed

lemma pop_thread_few:
  assumes r: "ring s xs" and few: "xs = [] \<or> xs = [x]"
  shows "pop_thread junk s = Inr (fst (malloc (hw_tcbs s) junk), s\<lparr>hw_tcbs := snd (malloc (hw_tcbs s) junk)\<rparr>)"
  using few r by (auto simp: pop_thread_def ring_def Let_def split: prod.splits)

text \<open>
  C33: the queue. \<open>pop_thread\<close> gives the first of two or more threads and closes the ring behind it. With
  one thread or none it answers a freshly allocated control block that belongs to no thread, and
  leaves the queue as it is, each time: the last thread can never be taken out.
\<close>

theorem pop_thread_outcome:
  assumes "ring s xs" "heap_ok (hw_tcbs s)" "0 < room (hw_tcbs s)"
  shows "if 2 \<le> length xs
    then \<exists>s'. pop_thread junk s = Inr (snd (hd xs), s') \<and> ring s' (tl xs)
    else \<exists>a s'. pop_thread junk s = Inr (Some a, s') \<and> ring s' xs \<and> hw_nodes s' = hw_nodes s \<and>
      cells (hw_tcbs s) a = None \<and> cells (hw_tcbs s') a = Some junk"
proof (cases "2 \<le> length xs")
  case True
  then obtain x ys where xs: "xs = x # ys" "ys \<noteq> []" by (cases xs) force+
  then obtain zs l where ys: "ys = zs @ [l]" by (cases ys rule: rev_cases) auto
  from assms(1) xs ys have "ring s (x # zs @ [l])" by simp
  then obtain s' where "pop_thread junk s = Inr (snd x, s')" "ring s' (zs @ [l])" by (rule pop_thread_many)
  with True xs ys show ?thesis by auto
next
  case False
  then have "xs = [] \<or> (\<exists>x. xs = [x])" by (cases xs; cases "tl xs") auto
  then have "pop_thread junk s = Inr (fst (malloc (hw_tcbs s) junk), s\<lparr>hw_tcbs := snd (malloc (hw_tcbs s) junk)\<rparr>)"
    using pop_thread_few [OF assms(1)] by blast
  with False assms show ?thesis by (simp add: malloc_room ring_def)
qed

definition no_threads :: hw1 where
  "no_threads = \<lparr>policy_defined = 0, no_of_kt = 0, thread_count = 0, hw_front = None, hw_rear = None,
     hw_nodes = \<lparr>cells = Map.empty, fresh = 0, room = 9\<rparr>,
     hw_tcbs = \<lparr>cells = [0 \<mapsto> \<lparr>tcb_id = 77, tcb_state = HW_DEAD, tcb_ctx = None\<rparr>], fresh = 1, room = 9\<rparr>\<rparr>"

lemma no_threads_ring: "ring no_threads []" "heap_ok (hw_tcbs no_threads)"
  by (simp_all add: ring_def no_threads_def heap_ok_iff)

theorem pop_thread_outcome_witness:
  "\<exists>s1 a s2. push_thread (Some 0) no_threads = Inr s1 \<and>
    pop_thread \<lparr>tcb_id = 5, tcb_state = HW_DEAD, tcb_ctx = None\<rparr> s1 = Inr (Some a, s2) \<and> a \<noteq> 0 \<and> ring s2 [(0, Some 0)]"
proof -
  have n: "0 < room (hw_nodes no_threads)" "fresh (hw_nodes no_threads) = 0" by (simp_all add: no_threads_def)
  obtain s1 where s1: "push_thread (Some 0) no_threads = Inr s1" "ring s1 [(0, Some 0)]"
    "hw_tcbs s1 = hw_tcbs no_threads"
    by (rule push_thread_rep [OF no_threads_ring(1) n(1), of "Some 0"]) (simp add: n(2))
  have "heap_ok (hw_tcbs s1)" "0 < room (hw_tcbs s1)" using s1(3) no_threads_ring(2) by (simp_all add: no_threads_def)
  from pop_thread_outcome [OF s1(2) this, of "\<lparr>tcb_id = 5, tcb_state = HW_DEAD, tcb_ctx = None\<rparr>"] s1
  show ?thesis by (auto simp: no_threads_def split: if_splits)
qed

text \<open>
  The demonstration in \<open>mypthread_queue.c\<close>: thread 1 comes out; of the three that stay \<open>traverse\<close> leaves
  out the last.
\<close>

lemma queue_main_prints:
  "queue_main \<lparr>tcb_id = 7, tcb_state = HW_DEAD, tcb_ctx = None\<rparr>
     \<lparr>policy_defined = 0, no_of_kt = 0, thread_count = 0, hw_front = None, hw_rear = None,
      hw_nodes = \<lparr>cells = Map.empty, fresh = 0, room = 4\<rparr>,
      hw_tcbs = \<lparr>cells = Map.empty, fresh = 0, room = 5\<rparr>\<rparr> = Inr (1, [2, 3])"
  by code_simp

text \<open>
  Thread ids are not unique. The first call of \<open>mypthread_create\<close> registers the main thread as
  thread 1 and then gives the new thread the id 1 as well; the two stand in the queue one behind the
  other.
\<close>

theorem first_ids_equal:
  assumes r: "ring s []" "heap_ok (hw_tcbs s)" "thread_count s = 0" "policy_defined s = 0"
    and room: "2 \<le> room (hw_nodes s)" "0 < room (hw_tcbs s)" and t: "cells (hw_tcbs s) t = Some b"
  shows "\<exists>s' n1 n2 m bm bt. hw1_create lines junk num_cpus cloned (Some t) s = Inr (0, s') \<and>
    ring s' [(n1, Some m), (n2, Some t)] \<and> m \<noteq> t \<and> cells (hw_tcbs s') m = Some bm \<and> tcb_id bm = 1 \<and>
    cells (hw_tcbs s') t = Some bt \<and> tcb_id bt = 1 \<and> thread_count s' = 2"
proof -
  let ?m = "fresh (hw_tcbs s)"
  let ?T = "(hw_tcbs s)\<lparr>cells := (cells (hw_tcbs s))(?m \<mapsto> \<lparr>tcb_id = 1, tcb_state = HW_ACTIVE, tcb_ctx = Some 0\<rparr>),
    fresh := Suc ?m, room := room (hw_tcbs s) - 1\<rparr>"
  let ?s0 = "s\<lparr>thread_count := 1, hw_tcbs := ?T\<rparr>"
  have nt: "t \<noteq> ?m" using heap_ok_less [OF r(2) t] by simp
  have r0: "ring ?s0 []" using r(1) by (simp add: ring_def)
  have rm: "0 < room (hw_nodes ?s0)" using room(1) by simp
  obtain s1 where s1: "push_thread (Some ?m) ?s0 = Inr s1" "ring s1 ([] @ [(fresh (hw_nodes ?s0), Some ?m)])"
    "hw_tcbs s1 = hw_tcbs ?s0" "thread_count s1 = thread_count ?s0" "policy_defined s1 = policy_defined ?s0"
    "Suc (room (hw_nodes s1)) = room (hw_nodes ?s0)"
    by (rule push_thread_rep [OF r0 rm])
  let ?b = "b\<lparr>tcb_ctx := Some 0, tcb_state := HW_ACTIVE, tcb_id := 1\<rparr>"
  let ?s2 = "s1\<lparr>hw_tcbs := ?T\<lparr>cells := (cells ?T)(t \<mapsto> ?b)\<rparr>, thread_count := 2\<rparr>"
  have r2: "ring ?s2 [(fresh (hw_nodes s), Some ?m)]" using s1(2) by (simp add: ring_def)
  have rm2: "0 < room (hw_nodes ?s2)" using s1(6) room(1) by simp
  obtain s3 where s3: "push_thread (Some t) ?s2 = Inr s3"
    "ring s3 ([(fresh (hw_nodes s), Some ?m)] @ [(fresh (hw_nodes ?s2), Some t)])"
    "hw_tcbs s3 = hw_tcbs ?s2" "thread_count s3 = thread_count ?s2"
    by (rule push_thread_rep [OF r2 rm2])
  have mb: "main_block s = Inr s1"
    using r(3) room(2) s1(1) by (simp add: main_block_def malloc_room)
  have "hw1_create lines junk num_cpus cloned (Some t) s = Inr (0, s3)"
    using mb r(4) s1(3,4) t nt s3(1)
    by (simp add: hw1_create_def mypthread_create_start_def)
  with s3 nt show ?thesis by auto
qed

theorem first_ids_equal_witness:
  "\<exists>s' n1 n2 m. hw1_create None 0 8 0 (Some 0) no_threads = Inr (0, s') \<and> ring s' [(n1, Some m), (n2, Some 0)]"
proof -
  obtain b where "cells (hw_tcbs no_threads) 0 = Some b" by (simp add: no_threads_def)
  moreover have "thread_count no_threads = 0" "policy_defined no_threads = 0" "2 \<le> room (hw_nodes no_threads)"
    "0 < room (hw_tcbs no_threads)" by (simp_all add: no_threads_def)
  ultimately show ?thesis using first_ids_equal [OF no_threads_ring, of 0 b None 0 8 0] by blast
qed

end
