(* ===== verification/Spec2Isabelle.thy ===== *)
theory Spec2Isabelle
  imports Pthread_Properties Sync_Properties Mtsort_Properties Samples_Properties Server_Run Posix_Sample5
    Socket_Properties Smessages_Properties Threadpool_Pthread Hw1_Properties
begin

text \<open>
  A verification of a user-level thread library, of the programs on it and of a small server, from
  their C sources under \<open>src/\<close>. This header says what the program is, which theory models which part
  of it, what the lemmas show, which bounds the model has, and what it leaves out. File names are
  relative to \<open>src/\<close>.
\<close>

section \<open>The program\<close>

text \<open>
  The repository holds two programs and their first draft.

  \<open>pthreads/\<close> is a user-level thread library with the interface of POSIX threads. Its threads share
  one run queue; a thread runs on a kernel thread, made with \<open>clone\<close>, until it yields, waits or ends,
  and the scheduler then switches to the first active thread of the queue (\<open>mypthread.c\<close> on
  \<open>queue_util.c\<close>; \<open>utilities.c\<close> counts the processors, which bounds the number of kernel threads under
  some policies). \<open>mtsort.c\<close> is a program on the library: one thread for each neighbouring pair of a
  list puts its pair in order again and again until a checking thread finds the list sorted.

  \<open>server/\<close> is a server: a main thread accepts connections and dispatches each to a pool of threads; a
  worker reads a request of ten bytes, works on it and answers (\<open>server.c\<close>, \<open>server_io.c\<close>, with
  \<open>client.c\<close> as the other side). \<open>common.c\<close> reads and writes exact numbers of bytes, \<open>threadpool.c\<close> is the
  pool on the thread library, \<open>threadpool_pthread.c\<close> the same pool on the system's threads, and
  \<open>SocketLibrary/\<close> opens sockets and passes messages over them. Test and sample programs come with both:
  on the thread library \<open>mypthread_sample1.c\<close> to \<open>mypthread_sample5.c\<close>, \<open>mypthread_performance.c\<close> and
  \<open>threadpool_test.c\<close>, on the system's threads \<open>pthread_sample4.c\<close>, \<open>pthread_sample5.c\<close>,
  \<open>example_thread.c\<close> and \<open>threadpool_test_pthread.c\<close>.

  \<open>hw1/\<close> is the first draft of the thread library: a ring of threads and their creation.
\<close>

section \<open>The model\<close>

text \<open>
  Memory. \<open>C_Memory\<close> has a heap for each C type: a map from addresses to cells, the next fresh address
  and the room left. A pointer is \<open>None\<close> or an address. Each pointer operation of the source is a \<open>load\<close>,
  \<open>modify\<close>, \<open>malloc\<close> or \<open>free_cell\<close> in the order of the source, so a NULL pointer, a use after a
  release and a second release are branches of the model.

  Results. Every routine answers a stop or a value (\<open>'a res\<close>, \<open>Prelude\<close>): \<open>NullDeref\<close>, \<open>Dangling\<close>,
  \<open>Diverges\<close>, \<open>BadContext\<close>, \<open>SemBlocked\<close>, \<open>SysBlocked\<close>, \<open>BufferOverflow\<close>, \<open>Undefined\<close> and
  \<open>ExitProcess\<close> are the ways not to return. A routine that may give the processor away answers an
  \<open>outcome\<close>: it has \<open>Returned\<close>, the kernel thread has \<open>Switched\<close> to a thread at a context, or it is
  \<open>Sleeping\<close> in the scheduler's \<open>while\<close> until a thread becomes active. What a thread does after a
  switch is the value of its machine context: the start of its routine, the call of
  \<open>mypthread_mutex_lock\<close> that a waiting thread is given, or the rest of the routine it was saved in.

  The parts, each with the theories that define it and prove its lemmas.

  \<^item> \<open>pthreads/mypthread.h\<close>, \<open>queue_util.h\<close>: \<open>Mypthread_Types\<close>.
  \<^item> \<open>pthreads/queue_util.c\<close>: \<open>Queue_Util\<close>, on the record \<open>qstate\<close> of its globals. \<open>Linked_Lists\<close> has
    the doubly linked list \<open>dll\<close> on a heap for any node type, and \<open>Queue_Refine\<close> shows that each
    routine does on such lists what the corresponding function does on HOL lists.
  \<^item> \<open>pthreads/utilities.c\<close>: \<open>Utilities\<close>; the text the shell prints is an argument.
  \<^item> \<open>pthreads/mypthread.c\<close>: \<open>Mypthread\<close>, on the record \<open>lib\<close>, which adds the file's globals to
    \<open>qstate\<close>. \<open>Mypthread_Sched\<close> gives the outcome of the scheduler; \<open>Mypthread_Coop\<close> the invariant of
    policy \<open>ULONLY\<close>, kept by create, yield, exit and join; \<open>Mypthread_Sync\<close> the outcome of the
    routines on mutexes and condition variables; \<open>Mypthread_Steps\<close> the step relation \<open>ul_step\<close> of
    a program's calls, with its reachable configurations; \<open>Mypthread_Frame\<close> what every routine
    leaves alone in any state; \<open>Mypthread_Demo\<close> a small program on which properties are tried.
  \<^item> Programs on the thread library: \<open>Programs\<close> has the machine that runs them. A program is the code of
    its threads (\<open>code\<close>: a frame, the shared data and the library's state to a call and the frame behind it);
    a step of the machine runs the current thread up to its next call of the library, and where that
    call switches, the machine goes on with the thread it switched to, at the frame its context
    says. \<open>reaches\<close> and \<open>ends\<close> are what some number of steps leads to. \<open>Fork_Join\<close> and \<open>Fork_Start\<close> prove once
    what programs do that create threads, let them work and join them; \<open>Evaluation\<close> has the rules that
    run a concrete program inside the logic.
  \<^item> \<open>pthreads/mtsort.c\<close>: \<open>Mtsort\<close>, a pass of each thread's loop, composed with the library;
    \<open>Mtsort_Main\<close>, the program with its \<open>main\<close>; \<open>Mtsort_Run\<close>, its run to the end.
  \<^item> \<open>pthreads/mypthread_sample1.c\<close> to \<open>mypthread_sample5.c\<close>, \<open>mypthread_performance.c\<close>: \<open>Samples\<close>.
  \<^item> \<open>server/threadpool.c\<close>: \<open>Threadpool\<close>, on the heaps of pools and tasks (\<open>pool_mem\<close>), the arrays of
    threads, and the library's state. The functions a client dispatches are an argument. \<open>Pool_Run\<close>
    follows the machine through a dispatch, \<open>Pool_Start\<close> through the making of a pool.
    \<open>Threadpool_Pthread\<close> is \<open>threadpool_pthread.c\<close> with its test \<open>threadpool_test_pthread.c\<close>; the pthread
    library they call is the argument \<open>ops\<close>.
  \<^item> \<open>server/threadpool_test.c\<close>: \<open>Pool_Test\<close>, the program; \<open>Pool_Properties\<close>, its run.
  \<^item> \<open>server/common.c\<close>: \<open>Net_IO\<close>. A connection is what arrives on it, in pieces, with interruptions
    and failures, and how much the kernel takes of each write.
  \<^item> \<open>server/server.c\<close>, \<open>server_io.c\<close>, \<open>client.c\<close>: \<open>Server\<close>, on the open connections, the closed ones
    and the buffers (\<open>net\<close>); \<open>main\<close> is its start and one turn of its loop. \<open>Server_Run\<close> makes a program
    of \<open>server.c\<close>, whose workers run \<open>request_client\<close>, and states beside it the server without threads
    (\<open>one_by_one\<close>).
  \<^item> \<open>server/SocketLibrary/\<close>: \<open>Sockets\<close> (\<open>sprim.c\<close>, \<open>sconnect.c\<close>, \<open>slisten.c\<close>, \<open>saccept.c\<close>,
    \<open>sportnum.c\<close>) on \<open>sock_lib\<close>, with name services and system calls as the argument \<open>sys_env\<close>;
    \<open>Smessages\<close> (\<open>smessages.c\<close>) on \<open>msg_st\<close>, with \<open>Smessages_Refine\<close> and \<open>Smessages_Clean\<close> relating
    it to a list of entries.
  \<^item> \<open>pthreads/pthread_sample4.c\<close>, \<open>pthread_sample5.c\<close>, \<open>server/example_thread.c\<close>: \<open>Posix_Programs\<close>. Their
    threads run at the same time. In \<open>Posix_Threads\<close> a step of a program (\<open>pstep\<close>) is a step of any of its
    threads, a read or write of shared data or a call that returns; the pthread library is a
    relation, with what is documented of it as the hypotheses \<open>posix\<close> and \<open>posix_live\<close>, and a small
    library (\<open>px_lib\<close>) that satisfies them runs schedules.
  \<^item> \<open>hw1/\<close>: \<open>Hw1\<close>, on the record \<open>hw1\<close>.

  Interfaces. \<open>Interfaces\<close> has two contracts of data structures. \<open>fifo\<close> is a bounded first-in first-out queue; the task
  queue of the pool (\<open>tq\<close>, in \<open>Threadpool\<close>) and the messages waiting for a socket (\<open>mailbox\<close>, in
  \<open>Smessages_Properties\<close>) provide it. \<open>dispatch_queue\<close> is a queue whose first runnable element is
  taken; the run queue of \<open>queue_util.c\<close> provides it (\<open>rq\<close>, in \<open>Queue_Refine\<close>), and the thread library's
  lemmas rest on it. While all elements are runnable, the second contract gives the first. The other
  contracts are those of programs. \<open>forking\<close> and \<open>fork_join\<close> (\<open>Fork_Join\<close>, \<open>Fork_Start\<close>) say what the threads
  and the \<open>main\<close> of a program do that forks and joins; the performance program, the samples 2 to 4
  and mtsort provide it. \<open>worker_pool\<close> (\<open>Pool_Run\<close>) says that the workers of a program run
  \<open>threadpool_scheduler\<close> and that its jobs leave the pool alone; \<open>threadpool_test.c\<close> (\<open>pt\<close>) and the
  server (\<open>sv\<close>) provide it.
\<close>

section \<open>What is shown\<close>

text \<open>
  The theories with \<open>Properties\<close> in their name hold the theorems about the program.

  \<open>Pthread_Properties\<close>: under \<open>ULONLY\<close> every configuration that calls of create, yield and exit lead to
  is well formed and every call in it succeeds; yields go round the ring of threads; joining
  and exiting meet. \<open>Sync_Properties\<close>: mutual exclusion, who is blocked and who is woken, that semaphores
  are given back, the refinement of the run queue, and the bound on kernel threads, with the two defects
  that stop a program: the semaphore \<open>mypthread_mutex_trylock\<close> keeps, and the tail pointer
  \<open>mypthread_dequeue_first_active\<close> leaves behind. In the runs of \<open>ul_step\<close> all threads are
  active, so the head of the run queue is the one taken and the tail stays right.

  \<open>Mtsort_Properties\<close>: a pass on the library orders its pair and yields, and passes in any order
  sort the list after a number of rounds bounded by the inversions of the list. \<open>Mtsort_Run\<close>: the
  whole program sorts a list of any length and ends. \<open>Samples_Properties\<close>: what the sample programs
  print and where they end; the first falls off the end of its last thread.

  \<open>Pool_Properties\<close>, \<open>Server_Run\<close>: between a dispatch and its return the job has been done by a worker, from
  the signal over the switches of the scheduler to the wait of the last worker. So \<open>threadpool_test.c\<close>
  does its jobs in order, before its \<open>destroy_threadpool\<close> uses what it has released; and the server with its
  twenty workers refines the server without threads, with its successes and its stops.
  \<open>Posix_Properties\<close>, \<open>Posix_Sample5\<close>: the counters of the programs on the system's threads under every
  interleaving, that no thread is stuck, and the races of \<open>example_thread.c\<close>.

  \<open>Threadpool_Properties\<close>, \<open>Threadpool_Pthread\<close>: jobs come out in the order of dispatch; what the counters
  of a new pool are; the wait without the mutex. \<open>Server_Properties\<close>: reads and writes are independent
  of the pieces, requests give back their memory, what the response is in closed form, the way of
  a request there and back, and why the servers as written do not answer. \<open>Socket_Properties\<close>: error codes
  stay in the table of texts, and the outcome of connecting on every path. \<open>Smessages_Properties\<close>: messages
  sent are the messages fetched, unless a terminator starts a piece. \<open>Hw1_Properties\<close>: the ring of threads.
\<close>

section \<open>Bounds and fuel\<close>

text \<open>
  A loop over a linked list has as fuel one more step than its heap ever had cells. The nodes of a
  list without cycles have distinct addresses below the next fresh one, so the fuel is never used up
  on such a list (\<open>dll\<close> and the \<open>_loop\<close> lemmas); a walk that needs more has entered a cycle, and running
  out is the stop \<open>Diverges\<close>. The loops of \<open>common.c\<close> and \<open>smessages.c\<close> over what arrives recurse with
  a measure. \<open>run\<close> counts the steps of the machine: \<open>ends\<close> and \<open>reaches\<close> say that some number of steps is
  enough, and a program ends in one way only (\<open>ends_unique\<close>). The 500000 passes of \<open>process_request\<close> are a recursion that a closed form replaces in
  proofs. Lengths given to \<open>read\<close> and \<open>write\<close> are below \<open>2 ^ 31\<close>; a message with its terminator fits into
  \<open>MAXBUFF\<close>, 2056 bytes, or is the stop \<open>BufferOverflow\<close>. Ports and addresses are words of 16 and 32
  bits. The \<open>int\<close> counters and identifiers of the program are \<open>int\<close>: they count threads, tasks and calls.
  The number of cells a heap has room for is finite, and the allocation that finds none answers NULL.
\<close>

section \<open>Not modelled\<close>

text \<open>
  \<^item> What is printed beside the numbers that are results, the clock, \<open>sleep\<close>, and the line with the
    dispatch rate.
  \<^item> Stacks and registers. A machine context is a value that says where its thread goes on; that a
    context is filled before it is switched to is checked.
  \<^item> The interleaving of several kernel threads inside one call of the thread library, and programs run
    on more than one kernel thread. Calls are atomic; the semaphores that make them so in the program are
    modelled, and a call that finds one taken is a stop. The machine has the one kernel thread of
    policy \<open>ULONLY\<close>, on which the server and the tests run by default.
  \<^item> \<open>printList\<close> in \<open>mtsort.c\<close>, which prints, and the release of its arrays at the end of \<open>main\<close>.
  \<^item> The system's pthread library, name services and system calls: arguments of the routines that
    call them.
  \<^item> The headers that rename the pthread functions (\<open>mypthread-system-override.h\<close>): which library a
    program runs on is part of its model.
\<close>

end
